(* ===== verification/Prelude.thy ===== *)
theory Prelude
  imports Main "HOL-Library.AList" "HOL-Library.Sublist" "HOL-Library.List_Lexorder"
    "HOL-Library.Char_ord"
begin

section \<open>Shared vocabulary: results, Python strings, Python dictionaries\<close>

text \<open>
  What every component of the model uses and no component owns: the result type of code
  that may raise, the loops that stop at the first exception, the string methods of Python
  the library calls (on byte characters; upper and lower case on ASCII letters), and
  dictionaries, which keep insertion order and are therefore association lists.
\<close>

named_theorems py_simps "equations that evaluate the modelled Python built-ins"

subsection \<open>Results\<close>

text \<open>A call that may raise answers \<open>Inl exception\<close> or \<open>Inr value\<close>.\<close>

type_synonym ('e, 'a) result = "'e + 'a"

definition rbind :: "('e, 'a) result \<Rightarrow> ('a \<Rightarrow> ('e, 'b) result) \<Rightarrow> ('e, 'b) result" where
  "rbind r f = (case r of Inl e \<Rightarrow> Inl e | Inr x \<Rightarrow> f x)"

lemma rbind_simps [simp, py_simps]:
  "rbind (Inl e) f = Inl e"
  "rbind (Inr x) f = f x"
  by (simp_all add: rbind_def)

lemma rbind_Inr_iff: "rbind r f = Inr y \<longleftrightarrow> (\<exists>x. r = Inr x \<and> f x = Inr y)"
  by (cases r) simp_all

lemma rbind_Inl_iff: "rbind r f = Inl e \<longleftrightarrow> r = Inl e \<or> (\<exists>x. r = Inr x \<and> f x = Inl e)"
  by (cases r) simp_all

lemma rbind_cong [fundef_cong]:
  "r = r' \<Longrightarrow> (\<And>x. r' = Inr x \<Longrightarrow> f x = g x) \<Longrightarrow> rbind r f = rbind r' g"
  by (cases r') simp_all

text \<open>A comprehension whose element expression may raise: evaluated left to right, stopping
  at the first exception.\<close>

fun traverse :: "('a \<Rightarrow> ('e, 'b) result) \<Rightarrow> 'a list \<Rightarrow> ('e, 'b list) result" where
  "traverse f [] = Inr []"
| "traverse f (x # xs) = rbind (f x) (\<lambda>y. rbind (traverse f xs) (\<lambda>ys. Inr (y # ys)))"

lemma traverse_cong [fundef_cong]:
  "xs = ys \<Longrightarrow> (\<And>x. x \<in> set ys \<Longrightarrow> f x = g x) \<Longrightarrow> traverse f xs = traverse g ys"
proof (induction ys arbitrary: xs)
  case (Cons y ys)
  then have "f y = g y" and "traverse f ys = traverse g ys" by simp_all
  with Cons.prems(1) show ?case by simp
qed simp

lemma traverse_Inr_iff:
  "traverse f xs = Inr ys \<longleftrightarrow> list_all2 (\<lambda>x y. f x = Inr y) xs ys"
  by (induction xs arbitrary: ys) (auto simp: rbind_Inr_iff list_all2_Cons1)

lemma traverse_InlD:
  "traverse f xs = Inl e \<Longrightarrow> \<exists>x\<in>set xs. f x = Inl e"
  by (induction xs) (auto simp: rbind_Inl_iff)

lemma traverse_memberD:
  "traverse f xs = Inr ys \<Longrightarrow> y \<in> set ys \<Longrightarrow> \<exists>x \<in> set xs. f x = Inr y"
  by (induction xs arbitrary: ys) (auto simp: rbind_Inr_iff)

lemma traverse_member:
  "traverse f xs = Inr ys \<Longrightarrow> x \<in> set xs \<Longrightarrow> \<exists>y \<in> set ys. f x = Inr y"
  by (induction xs arbitrary: ys) (auto simp: rbind_Inr_iff)

lemma traverse_succeeds:
  "(\<And>x. x \<in> set xs \<Longrightarrow> \<exists>y. f x = Inr y) \<Longrightarrow> \<exists>ys. traverse f xs = Inr ys"
proof (induction xs)
  case (Cons x xs)
  then obtain y ys where "f x = Inr y" "traverse f xs = Inr ys" by (meson list.set_intros)
  then show ?case by simp
qed simp

lemma traverse_id:
  "(\<And>x. x \<in> set xs \<Longrightarrow> f x = Inr x) \<Longrightarrow> traverse f xs = Inr xs"
  by (induction xs) simp_all

lemma traverse_all: "(\<And>x. x \<in> set xs \<Longrightarrow> f x = Inr (h x)) \<Longrightarrow> traverse f xs = Inr (map h xs)"
  by (induction xs) simp_all

lemma traverse_map: "traverse f (map g xs) = traverse (\<lambda>x. f (g x)) xs"
  by (induction xs) simp_all

subsection \<open>Lists\<close>

text \<open>\<open>list(dict.fromkeys(xs))\<close>: the first occurrence of each element, in order.\<close>

fun from_keys :: "'a list \<Rightarrow> 'a list" where
  "from_keys [] = []"
| "from_keys (x # xs) = x # from_keys (filter (\<lambda>y. y \<noteq> x) xs)"

lemma set_from_keys [simp]: "set (from_keys xs) = set xs"
  by (induction xs rule: from_keys.induct) auto

lemma distinct_from_keys [simp]: "distinct (from_keys xs)"
  by (induction xs rule: from_keys.induct) auto

lemma from_keys_distinct: "distinct xs \<Longrightarrow> from_keys xs = xs"
proof (induction xs)
  case (Cons x xs)
  then have "filter (\<lambda>y. y \<noteq> x) xs = xs" by (auto simp: filter_id_conv)
  with Cons show ?case by simp
qed simp

lemma length_remove1_member: "x \<in> set xs \<Longrightarrow> Suc (length (remove1 x xs)) = length xs"
  by (induction xs) auto

lemma subseq_append_leftD: "subseq (xs @ ys) zs \<Longrightarrow> subseq xs zs"
  by (rule subseq_order.trans [of _ "xs @ ys"]) (simp_all add: prefix_imp_subseq)

lemma subseq_snoc_mono: "subseq xs zs \<Longrightarrow> subseq (xs @ [x]) (zs @ [x])"
  by (rule list_emb_append_mono) simp_all

lemma sum_list_map_update:
  fixes f :: "'a \<Rightarrow> nat"
  shows "i < length xs \<Longrightarrow> sum_list (map f (xs[i := y])) + f (xs ! i) = sum_list (map f xs) + f y"
proof (induction xs arbitrary: i)
  case (Cons x xs)
  then show ?case by (cases i) auto
qed simp

subsection \<open>Strings\<close>

text \<open>\<open>s.split(c)\<close> for a one-character separator: never empty, and empty pieces are kept.\<close>

fun py_split :: "char \<Rightarrow> string \<Rightarrow> string list" where
  "py_split c [] = [[]]"
| "py_split c (x # xs) =
     (if x = c then [] # py_split c xs
      else (case py_split c xs of [] \<Rightarrow> [[x]] | y # ys \<Rightarrow> (x # y) # ys))"

text \<open>\<open>s.join(xs)\<close>.\<close>

fun py_join :: "string \<Rightarrow> string list \<Rightarrow> string" where
  "py_join s [] = []"
| "py_join s [x] = x"
| "py_join s (x # y # zs) = x @ s @ py_join s (y # zs)"

text \<open>\<open>s.startswith(p)\<close>, \<open>s.endswith(p)\<close> and \<open>p in s\<close>.\<close>

definition py_startswith :: "string \<Rightarrow> string \<Rightarrow> bool" where
  "py_startswith s p = prefix p s"

definition py_endswith :: "string \<Rightarrow> string \<Rightarrow> bool" where
  "py_endswith s p = suffix p s"

definition py_in :: "string \<Rightarrow> string \<Rightarrow> bool" where
  "py_in p s = sublist p s"

text \<open>\<open>s.replace(old, new)\<close>: leftmost occurrences, not overlapping. An empty \<open>old\<close> matches
  between all characters.\<close>

fun py_replace :: "string \<Rightarrow> string \<Rightarrow> string \<Rightarrow> string" where
  "py_replace old new s =
     (if old = [] then new @ concat (map (\<lambda>c. c # new) s)
      else (case s of [] \<Rightarrow> []
            | c # cs \<Rightarrow> if prefix old (c # cs) then new @ py_replace old new (drop (length old) (c # cs))
                        else c # py_replace old new cs))"

declare py_replace.simps [simp del]

text \<open>\<open>s.upper()\<close> and \<open>s.lower()\<close> on the ASCII letters; other characters are kept.\<close>

definition upper_char :: "char \<Rightarrow> char" where
  "upper_char c = (let n = of_char c :: nat in if 97 \<le> n \<and> n \<le> 122 then char_of (n - 32) else c)"

definition lower_char :: "char \<Rightarrow> char" where
  "lower_char c = (let n = of_char c :: nat in if 65 \<le> n \<and> n \<le> 90 then char_of (n + 32) else c)"

definition py_upper :: "string \<Rightarrow> string" where
  "py_upper s = map upper_char s"

definition py_lower :: "string \<Rightarrow> string" where
  "py_lower s = map lower_char s"

text \<open>\<open>str(n)\<close> of a natural number, as an f-string writes an index or a count.\<close>

fun str_of_nat :: "nat \<Rightarrow> string" where
  "str_of_nat n =
     (if n < 10 then [char_of (48 + n)] else str_of_nat (n div 10) @ [char_of (48 + n mod 10)])"

declare str_of_nat.simps [simp del]

text \<open>\<open>repr\<close> of a string without quotes or escapes in it, and of a list of such strings.\<close>

definition py_repr_str :: "string \<Rightarrow> string" where
  "py_repr_str s = CHR 0x27 # s @ [CHR 0x27]"

definition py_repr_list :: "string list \<Rightarrow> string" where
  "py_repr_list xs = ''['' @ py_join '', '' (map py_repr_str xs) @ '']''"

subsection \<open>Splitting and joining\<close>

lemma py_split_not_Nil [simp]: "py_split c s \<noteq> []"
  by (cases s) (auto split: list.splits)

lemma py_split_no_sep: "c \<notin> set s \<Longrightarrow> py_split c s = [s]"
  by (induction s) auto

lemma py_split_Cons_sep: "py_split c (s @ c # t) = py_split c s @ py_split c t"
  by (induction s) (auto split: list.splits)

lemma py_split_pieces: "p \<in> set (py_split c s) \<Longrightarrow> c \<notin> set p"
proof (induction s arbitrary: p)
  case (Cons x xs)
  obtain y ys where "py_split c xs = y # ys" by (cases "py_split c xs") simp_all
  with Cons show ?case by (auto split: if_splits)
qed simp

lemma py_join_Cons: "xs \<noteq> [] \<Longrightarrow> py_join s (x # xs) = x @ s @ py_join s xs"
  by (cases xs) simp_all

lemma py_join_split [simp]: "py_join [c] (py_split c s) = s"
proof (induction s)
  case (Cons x xs)
  show ?case
  proof (cases "x = c")
    case True
    with Cons show ?thesis by (simp add: py_join_Cons)
  next
    case False
    obtain y ys where y: "py_split c xs = y # ys" by (cases "py_split c xs") simp_all
    with Cons have "py_join [c] ((x # y) # ys) = x # xs" by (cases ys) auto
    with False y show ?thesis by simp
  qed
qed simp

lemma py_split_join:
  "xs \<noteq> [] \<Longrightarrow> (\<And>x. x \<in> set xs \<Longrightarrow> c \<notin> set x) \<Longrightarrow> py_split c (py_join [c] xs) = xs"
proof (induction xs)
  case (Cons x xs)
  show ?case
  proof (cases "xs = []")
    case True
    with Cons.prems show ?thesis by (simp add: py_split_no_sep)
  next
    case False
    with Cons have "py_split c (py_join [c] xs) = xs" and "c \<notin> set x" by auto
    with False show ?thesis
      using py_split_Cons_sep [of c x "py_join [c] xs"]
      by (simp add: py_join_Cons py_split_no_sep)
  qed
qed simp

lemma py_split_inj: "py_split c s = py_split c t \<Longrightarrow> s = t"
  by (metis py_join_split)

text \<open>A dotted path under another: the prefix test with the separator is the prefix test on
  the segments.\<close>

lemma py_split_prefix_iff:
  "prefix (py_split c s) (py_split c t) \<longleftrightarrow> t = s \<or> prefix (s @ [c]) t"
proof
  assume "prefix (py_split c s) (py_split c t)"
  then obtain us where us: "py_split c t = py_split c s @ us" by (auto simp: prefix_def)
  show "t = s \<or> prefix (s @ [c]) t"
  proof (cases us)
    case Nil
    with us show ?thesis by (auto dest: py_split_inj)
  next
    case (Cons u vs)
    have free: "\<And>p. p \<in> set us \<Longrightarrow> c \<notin> set p"
      using us by (metis UnCI py_split_pieces set_append)
    let ?w = "py_join [c] us"
    have "py_split c ?w = us" using Cons free by (intro py_split_join) auto
    then have "py_split c (s @ c # ?w) = py_split c t"
      by (simp add: py_split_Cons_sep us)
    then have "t = s @ c # ?w" by (metis py_split_inj)
    then show ?thesis by simp
  qed
next
  assume "t = s \<or> prefix (s @ [c]) t"
  then show "prefix (py_split c s) (py_split c t)"
    by (auto simp: prefix_def py_split_Cons_sep)
qed

subsection \<open>Replacing\<close>

lemma py_replace_Nil: "old \<noteq> [] \<Longrightarrow> py_replace old new [] = []"
  by (simp add: py_replace.simps)

lemma py_replace_Cons:
  "old \<noteq> [] \<Longrightarrow> py_replace old new (c # cs) =
     (if prefix old (c # cs) then new @ py_replace old new (drop (length old) (c # cs))
      else c # py_replace old new cs)"
  by (subst py_replace.simps) simp

lemma py_replace_induct [case_names empty found kept]:
  assumes "old \<noteq> []" "P []"
    "\<And>c cs. prefix old (c # cs) \<Longrightarrow> P (drop (length old) (c # cs)) \<Longrightarrow> P (c # cs)"
    "\<And>c cs. \<not> prefix old (c # cs) \<Longrightarrow> P cs \<Longrightarrow> P (c # cs)"
  shows "P s"
proof (induction s rule: length_induct)
  case (1 s)
  show ?case
  proof (cases s)
    case (Cons c cs)
    have "length (drop (length old) (c # cs)) < length s" using Cons assms(1) by (cases old) auto
    with 1 Cons show ?thesis using assms(3,4) by (metis length_Cons lessI)
  qed (use assms(2) in simp)
qed

lemma prefix_py_replace:
  assumes "old \<noteq> []" "new \<noteq> []" "set q \<inter> set new = {}" "prefix q (py_replace old new s)"
  shows "prefix q s"
  using assms(1,3,4)
proof (induction s arbitrary: q rule: py_replace_induct [OF assms(1)])
  case 1
  then show ?case by (simp add: py_replace_Nil)
next
  case (2 c cs)
  then have "prefix q (new @ py_replace old new (drop (length old) (c # cs)))"
    by (simp add: py_replace_Cons)
  then have "q = []" using assms(2) 2(4) by (cases q; cases new) auto
  then show ?case by simp
next
  case (3 c cs)
  then show ?case by (cases q) (auto simp: py_replace_Cons)
qed

lemma sublist_behind:
  assumes "q \<noteq> []" "set q \<inter> set new = {}" "sublist q (new @ s)"
  shows "sublist q s"
  using assms(3) assms(1,2) by (induction new) (auto simp: sublist_Cons_right prefix_Cons)

text \<open>Replacing brings in no text that has nothing of the replacement in it.\<close>

lemma sublist_py_replace:
  assumes "old \<noteq> []" "new \<noteq> []" "q \<noteq> []" "set q \<inter> set new = {}" "sublist q (py_replace old new s)"
  shows "sublist q s"
  using assms(5)
proof (induction s rule: py_replace_induct [OF assms(1)])
  case 1
  then show ?case using assms(1) by (simp add: py_replace_Nil)
next
  case (2 c cs)
  then have "sublist q (new @ py_replace old new (drop (length old) (c # cs)))"
    using assms(1) by (simp add: py_replace_Cons)
  then have "sublist q (drop (length old) (c # cs))"
    using 2(2) sublist_behind [OF assms(3,4)] by blast
  then show ?case by (meson sublist_drop sublist_order.order_trans)
next
  case (3 c cs)
  then have r: "sublist q (c # py_replace old new cs)" using assms(1) by (simp add: py_replace_Cons)
  show ?case
  proof (cases "prefix q (c # py_replace old new cs)")
    case True
    then have "prefix q (py_replace old new (c # cs))" using 3(1) assms(1) by (simp add: py_replace_Cons)
    then show ?thesis using prefix_py_replace [OF assms(1,2,4)] by (meson prefix_imp_sublist)
  next
    case False
    with r have "sublist q (py_replace old new cs)" by (simp add: sublist_Cons_right)
    with 3(2) show ?thesis by (simp add: sublist_Cons_right)
  qed
qed

lemma not_sublist_py_replace:
  assumes "old \<noteq> []" "new \<noteq> []" "set old \<inter> set new = {}"
  shows "\<not> sublist old (py_replace old new s)"
proof (induction s rule: py_replace_induct [OF assms(1)])
  case 1
  then show ?case using assms(1) by (simp add: py_replace_Nil)
next
  case (2 c cs)
  then show ?case
    using assms sublist_behind [OF assms(1,3)] by (auto simp: py_replace_Cons)
next
  case (3 c cs)
  have "\<not> prefix old (py_replace old new (c # cs))"
    using prefix_py_replace [OF assms] 3(1) by blast
  with 3 assms(1) show ?case by (auto simp: py_replace_Cons sublist_Cons_right)
qed

subsection \<open>Dictionaries\<close>

text \<open>A dictionary is its items in insertion order. \<open>d[k] = v\<close> keeps the place of a key that
  is already there and appends a new one, which is \<^const>\<open>AList.update\<close>.\<close>

type_synonym ('k, 'v) dict = "('k \<times> 'v) list"

definition dict_has :: "('k, 'v) dict \<Rightarrow> 'k \<Rightarrow> bool" where
  "dict_has d k = (map_of d k \<noteq> None)"

definition dict_set :: "'k \<Rightarrow> 'v \<Rightarrow> ('k, 'v) dict \<Rightarrow> ('k, 'v) dict" where
  "dict_set k v d = AList.update k v d"

lemma map_of_dict_set [simp]: "map_of (dict_set k v d) = (map_of d)(k \<mapsto> v)"
  by (simp add: dict_set_def update_conv')

lemma dict_set_distinct [simp]:
  "distinct (map fst d) \<Longrightarrow> distinct (map fst (dict_set k v d))"
  by (simp add: dict_set_def distinct_update)

lemma dict_has_iff: "dict_has d k \<longleftrightarrow> k \<in> fst ` set d"
  unfolding dict_has_def map_of_eq_None_iff by simp

lemma dict_set_new: "k \<notin> fst ` set d \<Longrightarrow> dict_set k v d = d @ [(k, v)]"
  by (simp add: dict_set_def update_nonempty) (induction d; auto)

subsection \<open>Pieces of messages\<close>

text \<open>A text in double quotes, as \<open>{:?}\<close> prints one without quotes, backslashes or control characters, and
  the dash of the messages, three bytes.\<close>

definition quoted :: "string \<Rightarrow> string" where
  "quoted s = [CHR 0x22] @ s @ [CHR 0x22]"

definition em_dash :: string where
  "em_dash = [CHR 0xE2, CHR 0x80, CHR 0x94]"

end
