(* ===== verification/PyValue.thy ===== *)
theory PyValue
  imports Prelude
begin

section \<open>Python values\<close>

text \<open>
  The values that cross the model: what the loader resolves (\<open>None\<close>, \<open>bool\<close>, \<open>int\<close>,
  \<open>float\<close>, \<open>str\<close>, \<open>list\<close>, \<open>dict\<close> with string keys) and what a schema builds from
  them (tuples, sets, enum members, dataclass instances, and objects whose class parsed
  its own text). A float is named by its \<open>repr\<close>, an object of a foreign class by its class
  and the value its constructor was given.
\<close>

datatype pyval =
    PNone
  | PBool bool
  | PInt int
  | PFloat string
  | PStr string
  | PList "pyval list"
  | PDict "(string \<times> pyval) list"
  | PTuple "pyval list"
  | PSet "pyval list"
  | PFrozen "pyval list"
  | PEnum string string
  | PInst string "(string \<times> pyval) list"
  | PObj string pyval

text \<open>\<open>type(v).__name__\<close>.\<close>

fun type_name :: "pyval \<Rightarrow> string" where
  "type_name PNone = ''NoneType''"
| "type_name (PBool _) = ''bool''"
| "type_name (PInt _) = ''int''"
| "type_name (PFloat _) = ''float''"
| "type_name (PStr _) = ''str''"
| "type_name (PList _) = ''list''"
| "type_name (PDict _) = ''dict''"
| "type_name (PTuple _) = ''tuple''"
| "type_name (PSet _) = ''set''"
| "type_name (PFrozen _) = ''frozenset''"
| "type_name (PEnum c _) = c"
| "type_name (PInst c _) = c"
| "type_name (PObj c _) = c"

text \<open>\<open>isinstance(v, Mapping)\<close>, \<open>isinstance(v, (list, tuple))\<close>.\<close>

fun is_mapping :: "pyval \<Rightarrow> bool" where
  "is_mapping (PDict _) = True"
| "is_mapping _ = False"

fun mapping_items :: "pyval \<Rightarrow> (string \<times> pyval) list" where
  "mapping_items (PDict d) = d"
| "mapping_items _ = []"

fun is_sequence :: "pyval \<Rightarrow> bool" where
  "is_sequence (PList _) = True"
| "is_sequence (PTuple _) = True"
| "is_sequence _ = False"

fun sequence_items :: "pyval \<Rightarrow> pyval list" where
  "sequence_items (PList xs) = xs"
| "sequence_items (PTuple xs) = xs"
| "sequence_items _ = []"

lemma is_mapping_iff: "is_mapping v \<longleftrightarrow> (\<exists>d. v = PDict d)"
  by (cases v) auto

text \<open>Termination of functions that descend into a dictionary or a sequence.\<close>

lemma size_dict_member [termination_simp]:
  "(k, v) \<in> set d \<Longrightarrow> size v < Suc (size_list (size_prod size size) d)"
  by (induction d) auto

lemma size_dict_value [termination_simp]:
  "(k, v) \<in> set d \<Longrightarrow> size v < Suc (size_list (size_prod (\<lambda>_. 0) size) d)"
  by (induction d) auto

lemma size_sequence_items [termination_simp]:
  "x \<in> set (sequence_items v) \<Longrightarrow> size x < size v"
  by (cases v) (auto simp: less_Suc_eq_le size_list_estimation')

lemma size_mapping_items [termination_simp]:
  "(k, x) \<in> set (mapping_items v) \<Longrightarrow> size x < size v"
  by (cases v) (auto simp: size_dict_value)

text \<open>A resolved tree: the tables have distinct keys, and no key contains the path separator.\<close>

fun tree_ok :: "pyval \<Rightarrow> bool" where
  "tree_ok (PDict d) \<longleftrightarrow>
     distinct (map fst d) \<and> (\<forall>(k, v) \<in> set d. CHR ''.'' \<notin> set k \<and> tree_ok v)"
| "tree_ok _ \<longleftrightarrow> True"

end
