(* ===== verification/Values.thy ===== *)
theory Values
  imports PyValue
begin

section \<open>A configuration with no schema: \<open>_values.py\<close>\<close>

text \<open>
  \<open>Values\<close> wraps the resolved tree and reads it by dotted path. The record holds the
  mapping \<open>_data\<close>; \<open>_walk\<close> answers \<open>None\<close> for the sentinel \<open>_MISSING\<close>. \<open>ValuesSchema\<close> is
  the adapter that makes the class a schema.
\<close>

record pvalues =
  v_data :: "(string, pyval) dict"

datatype values_error = VKeyError string | VTypeError string

definition values_init :: "(string, pyval) dict option \<Rightarrow> pvalues" where
  "values_init data = \<lparr>v_data = (case data of None \<Rightarrow> [] | Some d \<Rightarrow> d)\<rparr>"

subsection \<open>Reading by path\<close>

fun walk_segments :: "pyval \<Rightarrow> string list \<Rightarrow> pyval option" where
  "walk_segments current [] = Some current"
| "walk_segments current (segment # rest) =
     (case current of
        PDict d \<Rightarrow> (case map_of d segment of None \<Rightarrow> None | Some v \<Rightarrow> walk_segments v rest)
      | _ \<Rightarrow> None)"

definition values_walk :: "pvalues \<Rightarrow> string \<Rightarrow> pyval option" where
  "values_walk self path = walk_segments (PDict (v_data self)) (py_split CHR ''.'' path)"

definition values_getitem :: "pvalues \<Rightarrow> string \<Rightarrow> (values_error, pyval) result" where
  "values_getitem self path =
     (case values_walk self path of None \<Rightarrow> Inl (VKeyError path) | Some found \<Rightarrow> Inr found)"

definition values_iter :: "pvalues \<Rightarrow> string list" where
  "values_iter self = map fst (v_data self)"

definition values_len :: "pvalues \<Rightarrow> nat" where
  "values_len self = length (v_data self)"

definition values_contains :: "pvalues \<Rightarrow> pyval \<Rightarrow> bool" where
  "values_contains self path =
     (case path of PStr p \<Rightarrow> values_walk self p \<noteq> None | _ \<Rightarrow> False)"

definition values_get :: "pvalues \<Rightarrow> string \<Rightarrow> pyval \<Rightarrow> pyval" where
  "values_get self path dflt =
     (case values_walk self path of None \<Rightarrow> dflt | Some found \<Rightarrow> found)"

definition values_sub :: "pvalues \<Rightarrow> string \<Rightarrow> pvalues" where
  "values_sub self path =
     (case values_walk self path of
        Some (PDict d) \<Rightarrow> values_init (Some d)
      | _ \<Rightarrow> values_init (Some []))"

definition values_to_dict :: "pvalues \<Rightarrow> (string, pyval) dict" where
  "values_to_dict self = v_data self"

text \<open>\<open>_leaves\<close>: a non-empty table is walked through, anything else is a leaf.\<close>

fun leaves :: "pyval \<Rightarrow> string \<Rightarrow> string list" where
  "leaves data pre =
     (if is_mapping data \<and> mapping_items data \<noteq> []
      then concat (map (\<lambda>(key, v). leaves v (pre @ key @ ''.'')) (mapping_items data))
      else if pre \<noteq> [] then [butlast pre] else [])"

declare leaves.simps [simp del]

definition values_leaf_paths :: "pvalues \<Rightarrow> string list" where
  "values_leaf_paths self = sort (leaves (PDict (v_data self)) [])"

definition values_repr :: "pvalues \<Rightarrow> string" where
  "values_repr self =
     ''<Values keys=['' @ py_join '', '' (sort (map fst (v_data self))) @ '']>''"

subsection \<open>The schema adapter\<close>

record values_schema =
  vs_model :: string
  vs_secrets :: "string list"

definition values_schema_init :: "string \<Rightarrow> string list option \<Rightarrow> values_schema" where
  "values_schema_init model secrets =
     \<lparr>vs_model = model, vs_secrets = (case secrets of None \<Rightarrow> [] | Some s \<Rightarrow> s)\<rparr>"

definition values_validate :: "values_schema \<Rightarrow> pyval \<Rightarrow> (values_error, pvalues) result" where
  "values_validate self data =
     (case data of
        PDict d \<Rightarrow> Inr (values_init (Some d))
      | _ \<Rightarrow> Inl (VTypeError (''a configuration resolves to a table, not '' @ type_name data)))"

definition values_field_names :: "values_schema \<Rightarrow> string list" where
  "values_field_names self = []"

definition values_secret_paths :: "values_schema \<Rightarrow> string list" where
  "values_secret_paths self = vs_secrets self"

subsection \<open>Paths below paths\<close>

lemma walk_segments_append:
  "walk_segments v (xs @ ys) =
     (case walk_segments v xs of None \<Rightarrow> None | Some w \<Rightarrow> walk_segments w ys)"
  by (induction v xs rule: walk_segments.induct) (auto split: pyval.splits option.splits)

lemma walk_segments_not_mapping:
  "\<not> is_mapping v \<Longrightarrow> xs \<noteq> [] \<Longrightarrow> walk_segments v xs = None"
  by (cases xs; cases v) simp_all

lemma values_walk_dot:
  "values_walk self (p @ CHR ''.'' # q) =
     (case values_walk self p of None \<Rightarrow> None | Some w \<Rightarrow> walk_segments w (py_split CHR ''.'' q))"
  by (simp add: values_walk_def py_split_Cons_sep walk_segments_append)

lemma values_walk_sub:
  "values_walk (values_sub self p) q = values_walk self (p @ CHR ''.'' # q)"
proof (cases "values_walk self p")
  case None
  then show ?thesis
    by (simp add: values_sub_def values_walk_dot, simp add: values_walk_def values_init_def)
      (cases "py_split CHR ''.'' q"; simp)
next
  case (Some w)
  show ?thesis
  proof (cases "is_mapping w")
    case True
    then obtain d where w: "w = PDict d" by (auto simp: is_mapping_iff)
    with Some have "values_sub self p = values_init (Some d)" by (simp add: values_sub_def)
    moreover have "values_walk (values_init (Some d)) q = walk_segments w (py_split CHR ''.'' q)"
      by (simp add: values_walk_def values_init_def w)
    ultimately show ?thesis using Some by (simp add: values_walk_dot)
  next
    case False
    then have "values_sub self p = values_init (Some [])"
      using Some by (cases w) (simp_all add: values_sub_def)
    moreover have "walk_segments w (py_split CHR ''.'' q) = None"
      using False by (simp add: walk_segments_not_mapping)
    moreover have "values_walk (values_init (Some [])) q = None"
      by (cases "py_split CHR ''.'' q") (simp_all add: values_walk_def values_init_def)
    ultimately show ?thesis using Some by (simp add: values_walk_dot)
  qed
qed

subsection \<open>The leaves of a tree\<close>

text \<open>A value that is not a table with something in it.\<close>

definition is_leaf :: "pyval \<Rightarrow> bool" where
  "is_leaf v \<longleftrightarrow> \<not> (is_mapping v \<and> mapping_items v \<noteq> [])"

definition dotted_prefix :: "string list \<Rightarrow> string" where
  "dotted_prefix segs = concat (map (\<lambda>s. s @ ''.'') segs)"

lemma dotted_prefix_snoc [simp]: "dotted_prefix (segs @ [s]) = dotted_prefix segs @ s @ ''.''"
  by (simp add: dotted_prefix_def)

lemma butlast_dotted_prefix: "segs \<noteq> [] \<Longrightarrow> butlast (dotted_prefix segs) = py_join ''.'' segs"
proof (induction segs)
  case (Cons s ss)
  show ?case
  proof (cases "ss = []")
    case False
    then have "dotted_prefix ss \<noteq> []" by (cases ss) (simp_all add: dotted_prefix_def)
    with Cons False show ?thesis by (simp add: dotted_prefix_def butlast_append py_join_Cons)
  qed (simp add: dotted_prefix_def)
qed simp

lemma dotted_prefix_Nil_iff [simp]: "dotted_prefix segs = [] \<longleftrightarrow> segs = []"
  by (cases segs) (simp_all add: dotted_prefix_def)

lemma leaves_leaf:
  "is_leaf v \<Longrightarrow> leaves v (dotted_prefix segs) = (if segs = [] then [] else [py_join ''.'' segs])"
  by (auto simp: leaves.simps [of v] is_leaf_def butlast_dotted_prefix)

lemma leaves_table:
  "\<not> is_leaf v \<Longrightarrow> leaves v (dotted_prefix segs) =
     concat (map (\<lambda>(k, w). leaves w (dotted_prefix (segs @ [k]))) (mapping_items v))"
  by (simp add: leaves.simps [of v] is_leaf_def)

lemma set_leaves:
  "tree_ok v \<Longrightarrow> set (leaves v (dotted_prefix segs)) =
     {py_join ''.'' (segs @ below) | below w.
        walk_segments v below = Some w \<and> is_leaf w \<and> segs @ below \<noteq> []}"
proof (induction "size v" arbitrary: v segs rule: less_induct)
  case less
  show ?case
  proof (cases "is_leaf v")
    case True
    have "walk_segments v below = Some w \<longleftrightarrow> below = [] \<and> w = v" for below w
      using True by (cases below; cases v) (auto simp: is_leaf_def split: option.splits)
    then show ?thesis using True by (auto simp: leaves_leaf)
  next
    case False
    then obtain d where v: "v = PDict d" and d: "d \<noteq> []"
      by (cases v) (simp_all add: is_leaf_def)
    from less.prems v have dist: "distinct (map fst d)" by simp
    have IH: "set (leaves w (dotted_prefix (segs @ [k]))) =
        {py_join ''.'' ((segs @ [k]) @ below) | below u.
           walk_segments w below = Some u \<and> is_leaf u}" if "(k, w) \<in> set d" for k w
      using less.hyps [of w "segs @ [k]"] less.prems v that
      by (fastforce simp: size_dict_value)
    have "set (leaves v (dotted_prefix segs)) =
        (\<Union>(k, w) \<in> set d. set (leaves w (dotted_prefix (segs @ [k]))))"
      using False by (auto simp: leaves_table v)
    also have "\<dots> = (\<Union>(k, w) \<in> set d. {py_join ''.'' ((segs @ [k]) @ below) | below u.
           walk_segments w below = Some u \<and> is_leaf u})"
      by (rule SUP_cong [OF refl]) (clarsimp simp only: IH split_paired_all prod.case)
    also have "\<dots> = {py_join ''.'' (segs @ below) | below w.
        walk_segments v below = Some w \<and> is_leaf w \<and> segs @ below \<noteq> []}" (is "?L = ?R")
    proof
      show "?L \<subseteq> ?R"
      proof clarify
        fix k w below u
        assume "(k, w) \<in> set d" "walk_segments w below = Some u" "is_leaf u"
        then show "\<exists>below' w'. py_join ''.'' ((segs @ [k]) @ below) = py_join ''.'' (segs @ below') \<and>
            walk_segments v below' = Some w' \<and> is_leaf w' \<and> segs @ below' \<noteq> []"
          using dist by (intro exI [of _ "k # below"] exI [of _ u]) (simp add: v)
      qed
      show "?R \<subseteq> ?L"
      proof
        fix s
        assume "s \<in> ?R"
        then obtain below w where w: "walk_segments v below = Some w" "is_leaf w"
          and s: "s = py_join ''.'' (segs @ below)" by blast
        with False obtain k rest where b: "below = k # rest" by (cases below) auto
        with w v obtain u where "map_of d k = Some u" "walk_segments u rest = Some w"
          by (auto split: option.splits)
        with w(2) b s show "s \<in> ?L"
          by (force dest: map_of_SomeD)
      qed
    qed
    finally show ?thesis .
  qed
qed

lemma walk_segments_dot_free:
  "tree_ok v \<Longrightarrow> walk_segments v segs = Some w \<Longrightarrow> s \<in> set segs \<Longrightarrow> CHR ''.'' \<notin> set s"
proof (induction v segs rule: walk_segments.induct)
  case (2 current segment rest)
  then obtain d u where c: "current = PDict d" and u: "map_of d segment = Some u"
    and w: "walk_segments u rest = Some w"
    by (auto split: pyval.splits option.splits)
  from u have "(segment, u) \<in> set d" by (rule map_of_SomeD)
  with "2.prems"(1) c have "CHR ''.'' \<notin> set segment" and "tree_ok u" by auto
  with "2.IH" [OF c u] w "2.prems"(3) show ?case by auto
qed simp

lemma leaf_paths_walk:
  assumes "tree_ok (PDict (v_data self))"
  shows "p \<in> set (values_leaf_paths self) \<longleftrightarrow> (\<exists>w. values_walk self p = Some w \<and> is_leaf w)"
proof -
  let ?v = "PDict (v_data self)"
  have set: "set (values_leaf_paths self) = {py_join ''.'' below | below w.
      walk_segments ?v below = Some w \<and> is_leaf w \<and> below \<noteq> []}"
    using set_leaves [OF assms, of "[]"] by (simp add: values_leaf_paths_def dotted_prefix_def)
  show ?thesis
  proof
    assume "p \<in> set (values_leaf_paths self)"
    with set obtain below w where b: "p = py_join ''.'' below" "below \<noteq> []"
      and w: "walk_segments ?v below = Some w" "is_leaf w" by auto
    have "py_split CHR ''.'' p = below"
      using b walk_segments_dot_free [OF assms w(1)] by (auto intro: py_split_join)
    with w show "\<exists>w. values_walk self p = Some w \<and> is_leaf w" by (auto simp: values_walk_def)
  next
    assume "\<exists>w. values_walk self p = Some w \<and> is_leaf w"
    then obtain w where "walk_segments ?v (py_split CHR ''.'' p) = Some w" "is_leaf w"
      by (auto simp: values_walk_def)
    then show "p \<in> set (values_leaf_paths self)"
      unfolding set by (intro CollectI exI [of _ "py_split CHR ''.'' p"] exI [of _ w]) simp
  qed
qed

subsection \<open>Properties\<close>

text \<open>Reading through \<open>sub(p)\<close> is reading the document at \<open>p.q\<close>: for every pair of paths, the
  subtree's \<open>get\<close> and \<open>in\<close> answer what the whole configuration answers for the joined path,
  and \<open>[]\<close> raises for one exactly when it raises for the other. This holds too where
  \<open>p\<close> names nothing or names a value, the two cases in which \<open>sub\<close> is empty.\<close>

theorem sub_reads_the_joined_path:
  "values_get (values_sub vs p) q d = values_get vs (p @ ''.'' @ q) d \<and>
   values_contains (values_sub vs p) (PStr q) = values_contains vs (PStr (p @ ''.'' @ q)) \<and>
   (\<forall>v. values_getitem (values_sub vs p) q = Inr v \<longleftrightarrow> values_getitem vs (p @ ''.'' @ q) = Inr v)"
  by (simp add: values_get_def values_contains_def values_getitem_def values_walk_sub
      split: option.split)

text \<open>\<open>leaf_paths()\<close> is exactly the list of paths that resolve to something other than a
  table with entries, in sorted order: every listed path can be read back with \<open>[]\<close>, and every
  path that reads a value is listed. (An empty table counts as a value here.)\<close>

theorem leaf_paths_exact:
  assumes "tree_ok (PDict (v_data vs))"
  shows "sorted (values_leaf_paths vs) \<and>
    (p \<in> set (values_leaf_paths vs) \<longleftrightarrow> (\<exists>v. values_getitem vs p = Inr v \<and> is_leaf v))"
  using leaf_paths_walk [OF assms, of p]
  by (auto simp: values_getitem_def values_leaf_paths_def split: option.splits)

theorem leaf_paths_exact_witness:
  "let vs = \<lparr>v_data = [(''db'', PDict [(''host'', PStr ''x''), (''opts'', PDict [])]), (''a'', PInt 1)]\<rparr>
   in values_leaf_paths vs = [''a'', ''db.host'', ''db.opts''] \<and>
      values_getitem vs ''db.host'' = Inr (PStr ''x'') \<and>
      (\<exists>v. values_getitem vs ''db.opts'' = Inr v \<and> is_leaf v)"
proof -
  let ?d = "[(''db'', PDict [(''host'', PStr ''x''), (''opts'', PDict [])]), (''a'', PInt 1)]"
  have ok: "tree_ok (PDict (v_data \<lparr>v_data = ?d\<rparr>))" by simp
  have eq: "values_leaf_paths \<lparr>v_data = ?d\<rparr> = [''a'', ''db.host'', ''db.opts'']" by code_simp
  then have "''db.opts'' \<in> set (values_leaf_paths \<lparr>v_data = ?d\<rparr>)" by simp
  then have "\<exists>v. values_getitem \<lparr>v_data = ?d\<rparr> ''db.opts'' = Inr v \<and> is_leaf v"
    using leaf_paths_exact [OF ok, of "''db.opts''"] by blast
  with eq show ?thesis by (simp add: values_getitem_def values_walk_def)
qed

end
