(* ===== verification/Diagnostics.thy ===== *)
theory Diagnostics
  imports Prelude
begin

section \<open>The diagnostics as data: \<open>_diagnostics.py\<close>\<close>

text \<open>
  The frozen dataclasses the diagnostics answer with, their renderings, and the path filter
  \<open>_touches\<close> of \<open>_config.py\<close> that \<open>on_change\<close> runs. The engine's raw answers (a dictionary
  per row) are records with the same keys. An f-string writes \<open>None\<close> where a detail is absent.
\<close>

record origin =
  o_kind :: string
  o_detail :: "string option"

definition str_opt :: "string option \<Rightarrow> string" where
  "str_opt d = (case d of None \<Rightarrow> ''None'' | Some s \<Rightarrow> s)"

definition origin_str :: "origin \<Rightarrow> string" where
  "origin_str self =
     (if o_kind self = ''file'' then ''in '' @ str_opt (o_detail self)
      else if o_kind self = ''env'' then ''from '' @ str_opt (o_detail self)
      else if o_kind self = ''remote'' then ''from the remote store '' @ str_opt (o_detail self)
      else if o_kind self = ''runtime'' then ''set at runtime ('' @ str_opt (o_detail self) @ '')''
      else if o_kind self = ''inline'' then ''in an inline source''
      else ''from an unknown source'')"

definition origin_of :: "(string \<times> string option) option \<Rightarrow> origin option" where
  "origin_of raw =
     (case raw of None \<Rightarrow> None | Some (k, d) \<Rightarrow> Some \<lparr>o_kind = k, o_detail = d\<rparr>)"

record contribution =
  co_layer :: string
  co_value :: "string option"
  co_origin :: "origin option"

record explanation =
  ex_path :: string
  ex_rows :: "contribution list"
  ex_winner :: "string option"
  ex_rendered :: string

definition explanation_repr :: "explanation \<Rightarrow> string" where
  "explanation_repr self =
     ''<Explanation path='' @ py_repr_str (ex_path self) @ '' layers='' @
     str_of_nat (length (ex_rows self)) @ ''>''"

record change =
  ch_path :: string
  ch_kind :: string

definition change_str :: "change \<Rightarrow> string" where
  "change_str self = ch_path self @ '' '' @ ch_kind self"

record resolved =
  re_path :: string
  re_origin :: origin

record unknown_key =
  uk_path :: string
  uk_suggestion :: "string option"

definition unknown_key_str :: "unknown_key \<Rightarrow> string" where
  "unknown_key_str self =
     (case uk_suggestion self of
        None \<Rightarrow> uk_path self @ '': unknown key''
      | Some s \<Rightarrow> uk_path self @ '': unknown key, did you mean `'' @ s @ ''`?'')"

record report =
  rp_key :: string
  rp_resolved :: "resolved list"
  rp_unknown :: "unknown_key list"
  rp_failure :: "string option"
  rp_unknown_checked :: bool

definition is_clean :: "report \<Rightarrow> bool" where
  "is_clean self \<longleftrightarrow> rp_unknown self = [] \<and> rp_failure self = None"

text \<open>The format \<open>:<28\<close>: padded with blanks on the right to 28 characters.\<close>

definition ljust28 :: "string \<Rightarrow> string" where
  "ljust28 s = s @ replicate (28 - length s) CHR '' ''"

definition report_lines :: "report \<Rightarrow> string list" where
  "report_lines self =
     [''['' @ rp_key self @ '']''] @
     (if rp_resolved self = [] then [''  (nothing supplies this section)''] else []) @
     map (\<lambda>item. ''  '' @ ljust28 (re_path item) @ '' '' @ origin_str (re_origin item))
       (rp_resolved self) @
     (if rp_unknown self \<noteq> []
      then [''''] @ map (\<lambda>item. ''  '' @ unknown_key_str item) (rp_unknown self) else []) @
     (if \<not> rp_unknown_checked self
      then ['''', ''  unknown keys: not checked (no field list)''] else []) @
     [''''] @
     [case rp_failure self of Some f \<Rightarrow> ''  would not load: '' @ f | None \<Rightarrow> ''  would load'']"

definition report_str :: "report \<Rightarrow> string" where
  "report_str self = py_join [CHR 0x0A] (report_lines self)"

definition report_repr :: "report \<Rightarrow> string" where
  "report_repr self =
     ''<Report key='' @ py_repr_str (rp_key self) @ '' resolved='' @
     str_of_nat (length (rp_resolved self)) @ '' unknown='' @
     str_of_nat (length (rp_unknown self)) @ '' clean='' @
     (if is_clean self then ''True'' else ''False'') @ ''>''"

subsection \<open>What a report always shows\<close>

lemma report_lines_last:
  "last (report_lines r) =
     (case rp_failure r of Some f \<Rightarrow> ''  would not load: '' @ f | None \<Rightarrow> ''  would load'')"
  by (simp add: report_lines_def)

lemma report_lines_unknown:
  "u \<in> set (rp_unknown r) \<Longrightarrow> ''  '' @ unknown_key_str u \<in> set (report_lines r)"
  by (auto simp: report_lines_def)

text \<open>\<open>changed_paths\<close> and \<open>Snapshot.diff\<close>: the engine's pairs, as \<open>Change\<close> objects. What the
  engine compares is its own affair: \<open>core_changed\<close> is a parameter.\<close>

definition changes_of :: "(string \<times> string) list \<Rightarrow> change list" where
  "changes_of pairs = map (\<lambda>(path, kind). \<lparr>ch_path = path, ch_kind = kind\<rparr>) pairs"

definition changed_paths :: "('m \<Rightarrow> 'm \<Rightarrow> (string \<times> string) list) \<Rightarrow> 'm \<Rightarrow> 'm \<Rightarrow> change list" where
  "changed_paths core_changed previous current = changes_of (core_changed previous current)"

subsection \<open>The filter of \<open>on_change\<close>\<close>

definition touches :: "string list \<Rightarrow> change list \<Rightarrow> bool" where
  "touches wanted moved =
     list_ex (\<lambda>change. ch_path change \<in> set wanted \<or>
        list_ex (\<lambda>name. py_startswith (ch_path change) (name @ ''.'')) wanted) moved"

lemma touches_iff:
  "touches wanted moved \<longleftrightarrow>
     (\<exists>change \<in> set moved. \<exists>name \<in> set wanted.
        prefix (py_split CHR ''.'' name) (py_split CHR ''.'' (ch_path change)))"
proof -
  have "py_startswith p (n @ ''.'') \<longleftrightarrow> prefix (n @ [CHR ''.'']) p" for p n
    by (simp add: py_startswith_def)
  then show ?thesis
    unfolding touches_def py_split_prefix_iff by (auto simp: list_ex_iff)
qed

lemma touches_mono: "set wanted \<subseteq> set wanted' \<Longrightarrow> touches wanted moved \<Longrightarrow> touches wanted' moved"
  by (auto simp: touches_iff)

subsection \<open>Properties\<close>

text \<open>\<open>on_change\<close> fires for a path exactly when a moved path is that path or lies under it,
  segment by segment: the string test with the trailing dot is the prefix relation on dotted
  segments, so \<open>pool\<close> covers \<open>pool.max_size\<close> and never \<open>pool_size\<close>.\<close>

theorem touches_is_segment_prefix:
  "touches wanted moved \<longleftrightarrow>
     (\<exists>change \<in> set moved. \<exists>name \<in> set wanted.
        prefix (py_split CHR ''.'' name) (py_split CHR ''.'' (ch_path change)))"
  by (rule touches_iff)

end
