(* ===== verification/Dispatch.thy ===== *)
theory Dispatch
  imports Prelude
begin

section \<open>Where a hook runs: \<open>_dispatch.py\<close> and \<open>DynamicConfig._wrap_hook\<close>\<close>

text \<open>
  The two enumerations, built from their string values as \<open>Enum.__call__\<close> does, and the
  decision \<open>_wrap_hook\<close> takes at registration: which of the three dispatchers the engine will
  call, and which combinations are refused. A callable is a function, of which the model
  keeps the name and whether it is a coroutine function, or a \<open>HookGuard\<close> around another
  callable.
\<close>

datatype hook_error = ValueError string | RuntimeError string | HookTypeError string

datatype dispatch = Inline | Executor | Asyncio

datatype backpressure = Every | Latest | Serial | Cancel_previous

definition dispatch_value :: "dispatch \<Rightarrow> string" where
  "dispatch_value d =
     (case d of Inline \<Rightarrow> ''inline'' | Executor \<Rightarrow> ''executor'' | Asyncio \<Rightarrow> ''asyncio'')"

definition dispatch_new :: "string \<Rightarrow> (hook_error, dispatch) result" where
  "dispatch_new value =
     (if value = ''inline'' then Inr Inline
      else if value = ''executor'' then Inr Executor
      else if value = ''asyncio'' then Inr Asyncio
      else Inl (ValueError (py_repr_str value @ '' is not a dispatch: use one of '' @
        py_join '', '' (map (\<lambda>m. py_repr_str (dispatch_value m)) [Inline, Executor, Asyncio]))))"

definition backpressure_value :: "backpressure \<Rightarrow> string" where
  "backpressure_value b =
     (case b of Every \<Rightarrow> ''every'' | Latest \<Rightarrow> ''latest'' | Serial \<Rightarrow> ''serial''
        | Cancel_previous \<Rightarrow> ''cancel_previous'')"

definition backpressure_new :: "string \<Rightarrow> (hook_error, backpressure) result" where
  "backpressure_new value =
     (if value = ''every'' then Inr Every
      else if value = ''latest'' then Inr Latest
      else if value = ''serial'' then Inr Serial
      else if value = ''cancel_previous'' then Inr Cancel_previous
      else Inl (ValueError (py_repr_str value @ '' is not a backpressure policy: use one of '' @
        py_join '', '' (map (\<lambda>m. py_repr_str (backpressure_value m))
          [Every, Latest, Serial, Cancel_previous]))))"

lemma dispatch_new_value [simp]: "dispatch_new (dispatch_value d) = Inr d"
  by (cases d) (simp_all add: dispatch_new_def dispatch_value_def)

lemma backpressure_new_value [simp]: "backpressure_new (backpressure_value b) = Inr b"
  by (cases b) (simp_all add: backpressure_new_def backpressure_value_def)

lemma dispatch_new_Inr_iff: "dispatch_new s = Inr d \<longleftrightarrow> s = dispatch_value d"
  by (cases d) (auto simp: dispatch_new_def dispatch_value_def split: if_splits)

lemma backpressure_new_Inr_iff: "backpressure_new s = Inr b \<longleftrightarrow> s = backpressure_value b"
  by (cases b) (auto simp: backpressure_new_def backpressure_value_def split: if_splits)

subsection \<open>Callables and guards\<close>

datatype callable =
    Function string bool
  | Guard nat "callable option"

text \<open>\<open>inspect.iscoroutinefunction\<close>: asked of a guard, it answers about the guard.\<close>

fun iscoroutinefunction :: "callable \<Rightarrow> bool" where
  "iscoroutinefunction (Function _ co) = co"
| "iscoroutinefunction (Guard _ _) = False"

text \<open>\<open>getattr(target, '__name__', target)!r\<close>; a guard has no \<open>__name__\<close> and shows its \<open>repr\<close>.\<close>

fun callable_label :: "callable \<Rightarrow> string" where
  "callable_label (Function name _) = py_repr_str name"
| "callable_label (Guard token _) = ''<HookGuard token='' @ str_of_nat token @ ''>''"

text \<open>The function a registration is about: one guard is looked through.\<close>

definition hook_target :: "callable \<Rightarrow> callable" where
  "hook_target hook = (case hook of Guard _ (Some inner) \<Rightarrow> inner | _ \<Rightarrow> hook)"

datatype wrapped =
    Run_inline callable
  | Run_asyncio callable backpressure
  | Run_executor callable backpressure

text \<open>\<open>_asyncio_dispatcher\<close> needs a running loop at registration.\<close>

definition asyncio_dispatcher ::
  "bool \<Rightarrow> callable \<Rightarrow> backpressure \<Rightarrow> (hook_error, wrapped) result" where
  "asyncio_dispatcher loop_running hook policy =
     (if loop_running then Inr (Run_asyncio hook policy)
      else Inl (RuntimeError (''an async hook has to be registered from the loop that should '' @
        ''run it: there is no running loop here, and a watcher thread '' @
        ''has none of its own to fall back on'')))"

definition wrap_hook ::
  "bool \<Rightarrow> callable \<Rightarrow> string option \<Rightarrow> string option \<Rightarrow> (hook_error, wrapped) result" where
  "wrap_hook loop_running hook dispatch_arg backpressure_arg =
     (let target = hook_target hook; coroutine = iscoroutinefunction target in
      rbind (case dispatch_arg of
          Some value \<Rightarrow> dispatch_new value
        | None \<Rightarrow> Inr (if coroutine then Asyncio else Inline)) (\<lambda>d.
      if coroutine \<and> d \<noteq> Asyncio then
        Inl (ValueError (callable_label target @ '' is a coroutine function, which only dispatch='' @
          py_repr_str (dispatch_value Asyncio) @ '' can run''))
      else if \<not> coroutine \<and> d = Asyncio then
        Inl (ValueError (''dispatch='' @ py_repr_str (dispatch_value Asyncio) @
          '' needs a coroutine function; '' @ callable_label target @ '' is not one''))
      else
        rbind (case backpressure_arg of
            Some value \<Rightarrow> backpressure_new value
          | None \<Rightarrow> Inr (if d = Inline then Every else Latest)) (\<lambda>policy.
        if policy = Cancel_previous \<and> d \<noteq> Asyncio then
          Inl (ValueError (''cancel_previous cancels a task, and only dispatch='' @
            py_repr_str (dispatch_value Asyncio) @ '' has tasks to cancel''))
        else case d of
            Inline \<Rightarrow> Inr (Run_inline hook)
          | Asyncio \<Rightarrow> asyncio_dispatcher loop_running target policy
          | Executor \<Rightarrow> Inr (Run_executor target policy))))"

text \<open>\<open>HookGuard.__call__\<close>: forwards to the hook it was given; \<open>None\<close> raises.\<close>

fun guard_call :: "callable \<Rightarrow> (hook_error, string) result" where
  "guard_call (Function name _) = Inr name"
| "guard_call (Guard _ None) = Inl (HookTypeError ''this guard was not given a hook to call'')"
| "guard_call (Guard _ (Some inner)) = guard_call inner"

subsection \<open>The decision table\<close>

definition chosen_dispatch :: "bool \<Rightarrow> string option \<Rightarrow> dispatch option" where
  "chosen_dispatch coroutine arg =
     (case arg of
        None \<Rightarrow> Some (if coroutine then Asyncio else Inline)
      | Some s \<Rightarrow> (case dispatch_new s of Inr d \<Rightarrow> Some d | Inl _ \<Rightarrow> None))"

definition chosen_policy :: "dispatch \<Rightarrow> string option \<Rightarrow> backpressure option" where
  "chosen_policy d arg =
     (case arg of
        None \<Rightarrow> Some (if d = Inline then Every else Latest)
      | Some s \<Rightarrow> (case backpressure_new s of Inr b \<Rightarrow> Some b | Inl _ \<Rightarrow> None))"

definition wrapped_as :: "callable \<Rightarrow> dispatch \<Rightarrow> backpressure \<Rightarrow> wrapped" where
  "wrapped_as hook d policy =
     (case d of Inline \<Rightarrow> Run_inline hook
        | Asyncio \<Rightarrow> Run_asyncio (hook_target hook) policy
        | Executor \<Rightarrow> Run_executor (hook_target hook) policy)"

lemma wrap_hook_Inr_iff:
  "wrap_hook loop hook da ba = Inr w \<longleftrightarrow>
     (\<exists>d policy. chosen_dispatch (iscoroutinefunction (hook_target hook)) da = Some d \<and>
        chosen_policy d ba = Some policy \<and>
        (iscoroutinefunction (hook_target hook) \<longleftrightarrow> d = Asyncio) \<and>
        (policy = Cancel_previous \<longrightarrow> d = Asyncio) \<and> (d = Asyncio \<longrightarrow> loop) \<and>
        w = wrapped_as hook d policy)"
  by (auto simp: wrap_hook_def Let_def chosen_dispatch_def chosen_policy_def wrapped_as_def
      asyncio_dispatcher_def rbind_def split: option.splits sum.splits dispatch.splits if_splits;
      metis dispatch.exhaust)

subsection \<open>Properties\<close>

text \<open>the registration table of \<open>_wrap_hook\<close>: a hook is accepted exactly when its dispatch
  and policy are known words, a coroutine function goes to \<open>asyncio\<close> and nothing else does,
  \<open>cancel_previous\<close> is asked of \<open>asyncio\<close> only, and a loop is running where one is needed; it
  is then wrapped for that dispatch, with the defaults \<open>every\<close> inline and \<open>latest\<close> elsewhere.\<close>

theorem wrap_hook_decision:
  "wrap_hook loop hook da ba = Inr w \<longleftrightarrow>
     (\<exists>d policy. chosen_dispatch (iscoroutinefunction (hook_target hook)) da = Some d \<and>
        chosen_policy d ba = Some policy \<and>
        (iscoroutinefunction (hook_target hook) \<longleftrightarrow> d = Asyncio) \<and>
        \<not> (policy = Cancel_previous \<and> d \<noteq> Asyncio) \<and> \<not> (d = Asyncio \<and> \<not> loop) \<and>
        w = wrapped_as hook d policy)"
  using wrap_hook_Inr_iff [of loop hook da ba w] by blast

text \<open>\<open>_wrap_hook\<close> looks through one guard only. A coroutine function registered, its guard
  registered again, and that second guard registered a third time is taken for an ordinary
  function: it is run inline, where the coroutine it returns is awaited by nobody.\<close>

theorem guard_of_guard_runs_inline:
  "let once = Guard t (Some (Function f True)); twice = Guard u (Some once) in
     wrap_hook True once None None = Inr (Run_asyncio (Function f True) Latest) \<and>
     wrap_hook loop twice None None = Inr (Run_inline twice)"
  by (simp add: wrap_hook_def hook_target_def asyncio_dispatcher_def Let_def)

end
