(* ===== verification/Gate.thy ===== *)
theory Gate
  imports Dispatch
begin

section \<open>Backpressure: \<open>_Gate\<close> and the two dispatchers of \<open>_config.py\<close>\<close>

text \<open>
  \<open>_Gate.submit\<close> and \<open>_Gate.finished\<close> decide under the gate's lock and start the hook after
  releasing it, so each is an atomic step that answers the call to start, if any, and the
  start itself is a later step of its own: the dispatcher's state keeps the calls decided and
  not started (\<open>d_pending\<close>), the calls running, and the history of submitted and started
  calls. The interfaces are two locales, what a gate promises its dispatcher, and the client's
  lemmas are proved in them over any gate.
\<close>

subsection \<open>The gate\<close>

record 'c gate =
  g_policy :: backpressure
  g_running :: bool
  g_queue :: "'c list"

definition gate_init :: "backpressure \<Rightarrow> 'c gate" where
  "gate_init policy = \<lparr>g_policy = policy, g_running = False, g_queue = []\<rparr>"

definition gate_submit :: "'c gate \<Rightarrow> 'c \<Rightarrow> 'c gate \<times> 'c option" where
  "gate_submit g c =
     (if g_policy g = Every then (g, Some c)
      else if g_running g \<and> g_policy g = Latest then (g\<lparr>g_queue := [c]\<rparr>, None)
      else if g_running g \<and> g_policy g = Serial then (g\<lparr>g_queue := g_queue g @ [c]\<rparr>, None)
      else (g\<lparr>g_running := True\<rparr>, Some c))"

definition gate_finished :: "'c gate \<Rightarrow> 'c gate \<times> 'c option" where
  "gate_finished g =
     (case g_queue g of
        [] \<Rightarrow> (g\<lparr>g_running := False\<rparr>, None)
      | c # rest \<Rightarrow> (g\<lparr>g_queue := rest\<rparr>, Some c))"

subsection \<open>The executor dispatcher\<close>

text \<open>
  \<open>submit\<close> is what the engine calls on the installing thread; \<open>start\<close> hands the call to the
  pool or to a thread of its own; \<open>run\<close> ends with \<open>gate.finished()\<close>, whether the hook
  returned or raised an \<open>Exception\<close>, which \<open>_report\<close> takes. The steps interleave freely. The
  gate's two operations are arguments, so that the system can be stated of any gate.
\<close>

record ('g, 'c) dispatcher =
  d_gate :: 'g
  d_pending :: "'c list"
  d_running :: "'c list"
  d_submitted :: "'c list"
  d_started :: "'c list"

definition dispatcher_init :: "'g \<Rightarrow> ('g, 'c) dispatcher" where
  "dispatcher_init g =
     \<lparr>d_gate = g, d_pending = [], d_running = [], d_submitted = [], d_started = []\<rparr>"

definition list_of_option :: "'a option \<Rightarrow> 'a list" where
  "list_of_option r = (case r of None \<Rightarrow> [] | Some c \<Rightarrow> [c])"

lemma list_of_option_simps [simp]: "list_of_option None = []" "list_of_option (Some c) = [c]"
  by (simp_all add: list_of_option_def)

definition disp_submit ::
  "('g \<Rightarrow> 'c \<Rightarrow> 'g \<times> 'c option) \<Rightarrow> 'c \<Rightarrow> ('g, 'c) dispatcher \<Rightarrow> ('g, 'c) dispatcher" where
  "disp_submit submit c s =
     (let r = submit (d_gate s) c in
      s\<lparr>d_gate := fst r, d_submitted := d_submitted s @ [c],
        d_pending := d_pending s @ list_of_option (snd r)\<rparr>)"

definition disp_start :: "'c \<Rightarrow> ('g, 'c) dispatcher \<Rightarrow> ('g, 'c) dispatcher" where
  "disp_start c s =
     s\<lparr>d_pending := remove1 c (d_pending s), d_running := d_running s @ [c],
       d_started := d_started s @ [c]\<rparr>"

definition disp_finish ::
  "('g \<Rightarrow> 'g \<times> 'c option) \<Rightarrow> 'c \<Rightarrow> ('g, 'c) dispatcher \<Rightarrow> ('g, 'c) dispatcher" where
  "disp_finish finished c s =
     (let r = finished (d_gate s) in
      s\<lparr>d_gate := fst r, d_running := remove1 c (d_running s),
        d_pending := d_pending s @ list_of_option (snd r)\<rparr>)"

inductive disp_step ::
  "('g \<Rightarrow> 'c \<Rightarrow> 'g \<times> 'c option) \<Rightarrow> ('g \<Rightarrow> 'g \<times> 'c option) \<Rightarrow>
   ('g, 'c) dispatcher \<Rightarrow> ('g, 'c) dispatcher \<Rightarrow> bool" for submit finished where
  step_submit: "disp_step submit finished s (disp_submit submit c s)"
| step_start: "c \<in> set (d_pending s) \<Longrightarrow> disp_step submit finished s (disp_start c s)"
| step_finish: "c \<in> set (d_running s) \<Longrightarrow> disp_step submit finished s (disp_finish finished c s)"

inductive disp_reach ::
  "('g \<Rightarrow> 'c \<Rightarrow> 'g \<times> 'c option) \<Rightarrow> ('g \<Rightarrow> 'g \<times> 'c option) \<Rightarrow> ('g, 'c) dispatcher \<Rightarrow>
   ('g, 'c) dispatcher \<Rightarrow> bool" for submit finished s0 where
  reach_here: "disp_reach submit finished s0 s0"
| reach_step: "disp_reach submit finished s0 s \<Longrightarrow> disp_step submit finished s t \<Longrightarrow>
     disp_reach submit finished s0 t"

text \<open>\<open>start\<close> may raise: an executor that was shut down refuses the call. The exception leaves
  \<open>submit\<close> or \<open>run\<close>, and nothing puts the gate's flag back.\<close>

definition disp_start_raises :: "'c \<Rightarrow> ('g, 'c) dispatcher \<Rightarrow> ('g, 'c) dispatcher" where
  "disp_start_raises c s = s\<lparr>d_pending := remove1 c (d_pending s)\<rparr>"

text \<open>\<open>run\<close> takes an \<open>Exception\<close> and calls \<open>finished\<close> behind the handler; a hook that ends with another
  exception, \<open>SystemExit\<close> say, leaves \<open>run\<close> without it.\<close>

definition disp_exits :: "'c \<Rightarrow> ('g, 'c) dispatcher \<Rightarrow> ('g, 'c) dispatcher" where
  "disp_exits c s = s\<lparr>d_running := remove1 c (d_running s)\<rparr>"

lemmas disp_defs = disp_submit_def disp_start_def disp_finish_def Let_def

subsection \<open>What a gate promises: one call in flight\<close>

locale single_flight =
  fixes submit :: "'g \<Rightarrow> 'c \<Rightarrow> 'g \<times> 'c option"
    and finished :: "'g \<Rightarrow> 'g \<times> 'c option"
    and busy :: "'g \<Rightarrow> bool"
    and waiting :: "'g \<Rightarrow> 'c list"
    and inv :: "'g \<Rightarrow> bool"
  assumes submit_idle: "inv g \<Longrightarrow> \<not> busy g \<Longrightarrow>
      snd (submit g c) = Some c \<and> busy (fst (submit g c)) \<and> waiting (fst (submit g c)) = waiting g"
    and submit_busy: "inv g \<Longrightarrow> busy g \<Longrightarrow> snd (submit g c) = None \<and> busy (fst (submit g c))"
    and finished_next: "inv g \<Longrightarrow> waiting g = c # cs \<Longrightarrow>
      snd (finished g) = Some c \<and> busy (fst (finished g)) = busy g \<and> waiting (fst (finished g)) = cs"
    and finished_last: "inv g \<Longrightarrow> waiting g = [] \<Longrightarrow>
      snd (finished g) = None \<and> \<not> busy (fst (finished g)) \<and> waiting (fst (finished g)) = []"
    and inv_submit: "inv g \<Longrightarrow> inv (fst (submit g c))"
    and inv_finished: "inv g \<Longrightarrow> inv (fst (finished g))"
begin

definition flight_inv :: "('g, 'c) dispatcher \<Rightarrow> bool" where
  "flight_inv s \<longleftrightarrow> inv (d_gate s) \<and>
     length (d_pending s) + length (d_running s) = (if busy (d_gate s) then 1 else 0) \<and>
     (\<not> busy (d_gate s) \<longrightarrow> waiting (d_gate s) = [])"

lemma flight_inv_init:
  "inv g \<Longrightarrow> \<not> busy g \<Longrightarrow> waiting g = [] \<Longrightarrow> flight_inv (dispatcher_init g)"
  by (simp add: flight_inv_def dispatcher_init_def)

text \<open>A pending call is the only one, so starting it is starting the whole list of them.\<close>

lemma flight_pending_single:
  "flight_inv s \<Longrightarrow> c \<in> set (d_pending s) \<Longrightarrow> d_pending s = [c] \<and> d_running s = [] \<and> busy (d_gate s)"
  by (cases "d_pending s") (auto simp: flight_inv_def split: if_splits)

lemma flight_running_single:
  "flight_inv s \<Longrightarrow> c \<in> set (d_running s) \<Longrightarrow> d_running s = [c] \<and> d_pending s = [] \<and> busy (d_gate s)"
  by (cases "d_running s") (auto simp: flight_inv_def split: if_splits)

lemma flight_inv_submit: "flight_inv s \<Longrightarrow> flight_inv (disp_submit submit c s)"
  using submit_idle [of "d_gate s" c] submit_busy [of "d_gate s" c] inv_submit [of "d_gate s" c]
  by (cases "busy (d_gate s)") (auto simp: flight_inv_def disp_defs)

lemma flight_inv_start:
  "flight_inv s \<Longrightarrow> c \<in> set (d_pending s) \<Longrightarrow> flight_inv (disp_start c s)"
  by (cases "d_pending s") (auto simp: flight_inv_def disp_defs split: if_splits)

lemma flight_inv_finish:
  assumes "flight_inv s" "c \<in> set (d_running s)"
  shows "flight_inv (disp_finish finished c s)"
proof (cases "waiting (d_gate s)")
  case Nil
  with assms flight_running_single [OF assms] show ?thesis
    using finished_last [of "d_gate s"] inv_finished [of "d_gate s"]
    by (auto simp: flight_inv_def disp_defs)
next
  case (Cons w ws)
  with assms flight_running_single [OF assms] show ?thesis
    using finished_next [of "d_gate s" w ws] inv_finished [of "d_gate s"]
    by (auto simp: flight_inv_def disp_defs)
qed

lemma flight_inv_step: "disp_step submit finished s t \<Longrightarrow> flight_inv s \<Longrightarrow> flight_inv t"
  by (induction rule: disp_step.induct)
    (auto intro: flight_inv_submit flight_inv_start flight_inv_finish)

lemma flight_inv_reach:
  "disp_reach submit finished s0 s \<Longrightarrow> flight_inv s0 \<Longrightarrow> flight_inv s"
  by (induction rule: disp_reach.induct) (auto intro: flight_inv_step)

lemma one_in_flight:
  "flight_inv s \<Longrightarrow> length (d_pending s @ d_running s) \<le> 1"
  by (simp add: flight_inv_def)

lemma quiescent_idle:
  "flight_inv s \<Longrightarrow> d_pending s = [] \<Longrightarrow> d_running s = [] \<Longrightarrow>
     \<not> busy (d_gate s) \<and> waiting (d_gate s) = []"
  by (auto simp: flight_inv_def split: if_splits)

text \<open>What is started, decided or waiting, in that order: a finishing call does not change it.\<close>

definition backlog :: "('g, 'c) dispatcher \<Rightarrow> 'c list" where
  "backlog s = d_started s @ d_pending s @ waiting (d_gate s)"

lemma backlog_start:
  "flight_inv s \<Longrightarrow> c \<in> set (d_pending s) \<Longrightarrow> backlog (disp_start c s) = backlog s"
  using flight_pending_single [of s c] by (auto simp: backlog_def disp_defs)

lemma backlog_finish:
  assumes "flight_inv s" "c \<in> set (d_running s)"
  shows "backlog (disp_finish finished c s) = backlog s"
proof (cases "waiting (d_gate s)")
  case Nil
  with assms show ?thesis
    using finished_last [of "d_gate s"] by (auto simp: flight_inv_def backlog_def disp_defs)
next
  case (Cons w ws)
  with assms show ?thesis
    using finished_next [of "d_gate s" w ws] by (auto simp: flight_inv_def backlog_def disp_defs)
qed

lemma backlog_submit_idle:
  "flight_inv s \<Longrightarrow> \<not> busy (d_gate s) \<Longrightarrow> backlog (disp_submit submit c s) = backlog s @ [c]"
  using submit_idle [of "d_gate s" c] by (simp add: flight_inv_def backlog_def disp_defs)

end

subsection \<open>Two ways to keep what arrives meanwhile\<close>

locale serial_gate = single_flight +
  assumes submit_appends: "inv g \<Longrightarrow> busy g \<Longrightarrow> waiting (fst (submit g c)) = waiting g @ [c]"
begin

lemma serial_backlog_step:
  "disp_step submit finished s t \<Longrightarrow> flight_inv s \<Longrightarrow> backlog s = d_submitted s \<Longrightarrow>
     backlog t = d_submitted t"
proof (induction rule: disp_step.induct)
  case (step_submit s c)
  show ?case
  proof (cases "busy (d_gate s)")
    case True
    with step_submit show ?thesis
      using submit_appends [of "d_gate s" c] submit_busy [of "d_gate s" c]
      by (simp add: flight_inv_def backlog_def disp_defs)
  next
    case False
    with step_submit show ?thesis using backlog_submit_idle [of s c]
      by (simp add: disp_defs)
  qed
next
  case (step_start c s)
  then show ?case using backlog_start [of s c] by (simp add: disp_defs)
next
  case (step_finish c s)
  then show ?case using backlog_finish [of s c] by (simp add: disp_defs)
qed

lemma serial_backlog_reach:
  "disp_reach submit finished s0 s \<Longrightarrow> flight_inv s0 \<Longrightarrow> backlog s0 = d_submitted s0 \<Longrightarrow>
     backlog s = d_submitted s"
  by (induction rule: disp_reach.induct) (auto dest: serial_backlog_step flight_inv_reach)

end

locale latest_gate = single_flight +
  assumes submit_replaces: "inv g \<Longrightarrow> busy g \<Longrightarrow> waiting (fst (submit g c)) = [c]"
begin

definition latest_inv :: "('a, 'b) dispatcher \<Rightarrow> bool" where
  "latest_inv s \<longleftrightarrow> subseq (backlog s) (d_submitted s) \<and>
     (d_submitted s \<noteq> [] \<longrightarrow> backlog s \<noteq> [] \<and> last (backlog s) = last (d_submitted s)) \<and>
     length (waiting (d_gate s)) \<le> 1"

lemma latest_inv_submit:
  assumes "flight_inv s" "latest_inv s"
  shows "latest_inv (disp_submit submit c s)"
proof (cases "busy (d_gate s)")
  case True
  with assms have b: "backlog (disp_submit submit c s) = d_started s @ d_pending s @ [c]"
    using submit_replaces [of "d_gate s" c] submit_busy [of "d_gate s" c]
    by (simp add: flight_inv_def backlog_def disp_defs)
  moreover have "subseq ((d_started s @ d_pending s) @ [c]) (d_submitted s @ [c])"
    using assms(2) by (intro subseq_snoc_mono)
      (auto simp: latest_inv_def backlog_def intro: subseq_append_leftD [of _ "waiting (d_gate s)"])
  ultimately show ?thesis
    using True assms submit_replaces [of "d_gate s" c]
    by (simp add: latest_inv_def flight_inv_def disp_defs)
next
  case False
  with assms show ?thesis
    using backlog_submit_idle [of s c] submit_idle [of "d_gate s" c]
    by (simp add: latest_inv_def flight_inv_def disp_defs)
qed

lemma latest_inv_step:
  "disp_step submit finished s t \<Longrightarrow> flight_inv s \<Longrightarrow> latest_inv s \<Longrightarrow> latest_inv t"
proof (induction rule: disp_step.induct)
  case (step_submit s c)
  then show ?case by (simp add: latest_inv_submit)
next
  case (step_start c s)
  then show ?case using backlog_start [of s c] by (simp add: latest_inv_def disp_defs)
next
  case (step_finish c s)
  then have "length (waiting (fst (finished (d_gate s)))) \<le> 1"
    using finished_last [of "d_gate s"] finished_next [of "d_gate s"]
    by (cases "waiting (d_gate s)") (auto simp: latest_inv_def flight_inv_def)
  with step_finish show ?case
    using backlog_finish [of s c] by (simp add: latest_inv_def disp_defs)
qed

lemma latest_inv_reach:
  "disp_reach submit finished s0 s \<Longrightarrow> flight_inv s0 \<Longrightarrow> latest_inv s0 \<Longrightarrow> latest_inv s"
  by (induction rule: disp_reach.induct) (auto dest: latest_inv_step flight_inv_reach)

end

subsection \<open>The two gates of the code\<close>

lemmas gate_defs = gate_submit_def gate_finished_def

interpretation serial: serial_gate gate_submit gate_finished g_running g_queue
  "\<lambda>g. g_policy g = Serial"
  by unfold_locales (auto simp: gate_defs split: list.splits)

interpretation latest: latest_gate gate_submit gate_finished g_running g_queue
  "\<lambda>g. g_policy g = Latest"
  by unfold_locales (auto simp: gate_defs split: list.splits)

lemma serial_start: "serial.flight_inv (dispatcher_init (gate_init Serial))"
  by (rule serial.flight_inv_init) (simp_all add: gate_init_def)

lemma latest_start:
  "latest.flight_inv (dispatcher_init (gate_init Latest))"
  "latest.latest_inv (dispatcher_init (gate_init Latest))"
  by (rule latest.flight_inv_init)
    (simp_all add: gate_init_def latest.latest_inv_def latest.backlog_def dispatcher_init_def)

text \<open>A dispatcher of the code, from its gate on.\<close>

definition executor_reach ::
  "backpressure \<Rightarrow> ('c gate, 'c) dispatcher \<Rightarrow> bool" where
  "executor_reach policy s =
     disp_reach gate_submit gate_finished (dispatcher_init (gate_init policy)) s"

lemma executor_reach_serial: "executor_reach Serial s \<Longrightarrow> serial.flight_inv s"
  by (auto simp: executor_reach_def intro: serial.flight_inv_reach serial_start)

lemma executor_reach_latest:
  "executor_reach Latest s \<Longrightarrow> latest.flight_inv s \<and> latest.latest_inv s"
  by (auto simp: executor_reach_def
      intro: latest.flight_inv_reach latest.latest_inv_reach latest_start)

lemma executor_reach_trans:
  "disp_reach gate_submit gate_finished s t \<Longrightarrow> executor_reach policy s \<Longrightarrow> executor_reach policy t"
  unfolding executor_reach_def
  by (induction rule: disp_reach.induct) (auto intro: disp_reach.reach_step)

subsection \<open>Draining: what happens when installs stop\<close>

text \<open>The starts and finishes alone, counted.\<close>

inductive drain ::
  "nat \<Rightarrow> ('c gate, 'c) dispatcher \<Rightarrow> ('c gate, 'c) dispatcher \<Rightarrow> bool" where
  drain_none: "drain 0 s s"
| drain_start: "drain n s t \<Longrightarrow> c \<in> set (d_pending t) \<Longrightarrow> drain (Suc n) s (disp_start c t)"
| drain_finish: "drain n s t \<Longrightarrow> c \<in> set (d_running t) \<Longrightarrow>
     drain (Suc n) s (disp_finish gate_finished c t)"

text \<open>The steps left: a waiting call has still to be decided, started and finished.\<close>

definition work_left :: "('c gate, 'c) dispatcher \<Rightarrow> nat" where
  "work_left s = 3 * length (g_queue (d_gate s)) + 2 * length (d_pending s) + length (d_running s)"

lemma work_left_start:
  "c \<in> set (d_pending s) \<Longrightarrow> Suc (work_left (disp_start c s)) = work_left s"
  using length_remove1_member [of c "d_pending s"] by (simp add: work_left_def disp_defs)

lemma work_left_finish:
  "c \<in> set (d_running s) \<Longrightarrow> Suc (work_left (disp_finish gate_finished c s)) \<le> work_left s"
  using length_remove1_member [of c "d_running s"]
  by (cases "g_queue (d_gate s)") (simp_all add: work_left_def disp_defs gate_finished_def)

lemma drain_work: "drain n s t \<Longrightarrow> n + work_left t \<le> work_left s"
proof (induction rule: drain.induct)
  case (drain_start n s t c)
  then show ?case using work_left_start [of c t] by linarith
next
  case (drain_finish n s t c)
  then show ?case using work_left_finish [of c t] by linarith
qed simp

lemma drain_reach: "drain n s t \<Longrightarrow> disp_reach gate_submit gate_finished s t"
  by (induction rule: drain.induct)
    (auto intro: disp_reach.intros disp_step.step_start disp_step.step_finish)

lemma drain_submitted: "drain n s t \<Longrightarrow> d_submitted t = d_submitted s"
  by (induction rule: drain.induct) (simp_all add: disp_defs)

subsection \<open>A gate whose start raised\<close>

definition wedged :: "('c gate, 'c) dispatcher \<Rightarrow> bool" where
  "wedged s \<longleftrightarrow> g_policy (d_gate s) \<in> {Latest, Serial} \<and> g_running (d_gate s) \<and>
     d_pending s = [] \<and> d_running s = []"

lemma wedged_step:
  "disp_step gate_submit gate_finished s t \<Longrightarrow> wedged s \<Longrightarrow> wedged t \<and> d_started t = d_started s"
  by (induction rule: disp_step.induct) (auto simp: wedged_def disp_defs gate_submit_def)

lemma wedged_reach:
  "disp_reach gate_submit gate_finished s t \<Longrightarrow> wedged s \<Longrightarrow> wedged t \<and> d_started t = d_started s"
  by (induction rule: disp_reach.induct) (auto dest: wedged_step)

lemma start_raises_wedges:
  assumes "executor_reach policy s" "policy = Latest \<or> policy = Serial" "c \<in> set (d_pending s)"
  shows "wedged (disp_start_raises c s)"
proof -
  from assms(2) have "d_pending s = [c] \<and> d_running s = [] \<and> g_running (d_gate s) \<and>
    g_policy (d_gate s) = policy"
  proof
    assume "policy = Latest"
    with assms have "latest.flight_inv s" by (simp add: executor_reach_latest)
    with latest.flight_pending_single [OF this assms(3)] \<open>policy = Latest\<close> show ?thesis
      by (simp add: latest.flight_inv_def)
  next
    assume "policy = Serial"
    with assms have "serial.flight_inv s" by (simp add: executor_reach_serial)
    with serial.flight_pending_single [OF this assms(3)] \<open>policy = Serial\<close> show ?thesis
      by (simp add: serial.flight_inv_def)
  qed
  with assms(2) show ?thesis by (simp add: wedged_def disp_start_raises_def)
qed

subsection \<open>A concrete run: two installs arrive before the first call has started\<close>

definition two_installs :: "backpressure \<Rightarrow> (nat gate, nat) dispatcher" where
  "two_installs policy =
     disp_submit gate_submit 2 (disp_submit gate_submit 1 (dispatcher_init (gate_init policy)))"

lemma two_installs_reach: "executor_reach policy (two_installs policy)"
  unfolding executor_reach_def two_installs_def
  by (rule reach_step [OF reach_step [OF reach_here step_submit] step_submit])

lemmas two_installs_eval =
  two_installs_def dispatcher_init_def gate_init_def disp_defs gate_defs

subsection \<open>Properties of the dispatcher\<close>

text \<open>C16: Under \<open>latest\<close> and \<open>serial\<close> a hook is never run twice at once: in every interleaving of
  installs, starts and ends, at most one call is decided or running.\<close>

theorem one_hook_call_at_a_time:
  assumes "executor_reach policy s" "policy \<noteq> Every" "policy \<noteq> Cancel_previous"
  shows "length (d_pending s @ d_running s) \<le> 1"
  using assms executor_reach_serial [of s] executor_reach_latest [of s]
    serial.one_in_flight [of s] latest.one_in_flight [of s]
  by (cases policy) auto

theorem one_hook_call_at_a_time_witness:
  "executor_reach Serial (two_installs Serial) \<and> d_pending (two_installs Serial) = [1] \<and>
   length (d_pending (two_installs Serial) @ d_running (two_installs Serial)) \<le> 1"
  using one_hook_call_at_a_time [OF two_installs_reach [of Serial]] two_installs_reach [of Serial]
  by (simp add: two_installs_eval)

text \<open>Under \<open>serial\<close> nothing is dropped and nothing overtakes: the calls started, then the one
  decided, then the queue, are exactly the installs, in the order they came.\<close>

theorem serial_drops_nothing:
  assumes "executor_reach Serial s"
  shows "d_started s @ d_pending s @ g_queue (d_gate s) = d_submitted s"
  using assms serial.serial_backlog_reach [OF _ serial_start, of s]
  by (simp add: executor_reach_def serial.backlog_def dispatcher_init_def gate_init_def)

theorem serial_drops_nothing_witness:
  "executor_reach Serial (two_installs Serial) \<and> g_queue (d_gate (two_installs Serial)) = [2] \<and>
   d_started (two_installs Serial) @ d_pending (two_installs Serial) @
     g_queue (d_gate (two_installs Serial)) = [1, 2]"
  using serial_drops_nothing [OF two_installs_reach] two_installs_reach [of Serial]
  by (simp add: two_installs_eval)

lemma latest_drained:
  assumes "executor_reach Latest s" "drain n s t"
  shows "latest.flight_inv t" "latest.latest_inv t" "d_submitted t = d_submitted s" "n \<le> work_left s"
    "d_submitted s \<noteq> [] \<Longrightarrow> d_pending t @ d_running t = [] \<Longrightarrow>
       g_queue (d_gate t) = [] \<and> last (d_started t) = last (d_submitted s)"
proof -
  have "executor_reach Latest t" using assms executor_reach_trans drain_reach by blast
  then show inv: "latest.flight_inv t" "latest.latest_inv t" by (simp_all add: executor_reach_latest)
  show sub: "d_submitted t = d_submitted s" by (rule drain_submitted [OF assms(2)])
  show "n \<le> work_left s" using drain_work [OF assms(2)] by linarith
  show "g_queue (d_gate t) = [] \<and> last (d_started t) = last (d_submitted s)"
    if "d_submitted s \<noteq> []" "d_pending t @ d_running t = []"
    using that inv sub latest.quiescent_idle [OF inv(1)] by (auto simp: latest.latest_inv_def latest.backlog_def)
qed



text \<open>\<open>_start\<close> is called outside any handler: if it raises (an executor that was shut down
  refuses the call), the gate stays marked as running, and whatever is installed, started or
  finished afterwards, the hook is never started again.\<close>

theorem failed_start_silences_the_hook:
  assumes "executor_reach policy s" "policy = Latest \<or> policy = Serial" "c \<in> set (d_pending s)"
    and "disp_reach gate_submit gate_finished (disp_start_raises c s) t"
  shows "d_started t = d_started s \<and> d_running t = []"
  using wedged_reach [OF assms(4) start_raises_wedges [OF assms(1-3)]]
  by (simp add: wedged_def disp_start_raises_def)

theorem failed_start_silences_the_hook_witness:
  "let s = two_installs Latest; broken = disp_start_raises 1 s in
   executor_reach Latest s \<and> 1 \<in> set (d_pending s) \<and>
   disp_reach gate_submit gate_finished broken (disp_submit gate_submit 3 broken) \<and>
   d_started (disp_submit gate_submit 3 broken) = [] \<and>
   d_submitted (disp_submit gate_submit 3 broken) = [1, 2, 3]"
proof -
  let ?s = "two_installs Latest"
  let ?broken = "disp_start_raises 1 ?s"
  have p: "1 \<in> set (d_pending ?s)" by (simp add: two_installs_eval)
  have r: "disp_reach gate_submit gate_finished ?broken (disp_submit gate_submit 3 ?broken)"
    by (rule reach_step [OF reach_here step_submit])
  show ?thesis
    using failed_start_silences_the_hook [OF two_installs_reach _ p r] r p two_installs_reach [of Latest]
    by (simp add: Let_def two_installs_eval disp_start_raises_def)
qed

text \<open>The same happens after a hook that ends with \<open>SystemExit\<close> or another exception that is no \<open>Exception\<close>.\<close>

lemma exiting_hook_is_silenced:
  assumes "executor_reach policy s" "policy = Latest \<or> policy = Serial" "c \<in> set (d_running s)"
    and "disp_reach gate_submit gate_finished (disp_exits c s) t"
  shows "d_started t = d_started s \<and> d_running t = []"
proof -
  have "length (d_pending s @ d_running s) \<le> 1 \<and> g_running (d_gate s) \<and> g_policy (d_gate s) = policy"
    using assms(2,3) executor_reach_serial [of s] executor_reach_latest [of s] assms(1)
      serial.one_in_flight [of s] latest.one_in_flight [of s]
    by (auto simp: serial.flight_inv_def latest.flight_inv_def split: if_splits)
  with assms(3) have "d_pending s = []" "d_running s = [c]" "g_running (d_gate s)" "g_policy (d_gate s) = policy"
    by (cases "d_running s"; cases "d_pending s"; simp)+
  with assms(2) have "wedged (disp_exits c s)" by (auto simp: wedged_def disp_exits_def)
  from wedged_reach [OF assms(4) this] show ?thesis by (simp add: wedged_def disp_exits_def)
qed

end
