(* ===== verification/AsyncHooks.thy ===== *)
theory AsyncHooks
  imports Gate
begin

section \<open>The asyncio dispatcher: \<open>_asyncio_dispatcher\<close>\<close>

text \<open>
  Everything here happens on the loop that registered the hook, one callback at a time, so a
  callback is one step. \<open>dispatch\<close> queues \<open>on_loop\<close> (\<open>call_soon_threadsafe\<close>), \<open>on_loop\<close> either
  cancels what runs and starts anew or goes through the gate, and a task ends by returning, by
  raising an \<open>Exception\<close> (given to the loop's exception handler) or as cancelled, in which case
  it does not call \<open>gate.finished()\<close>. A task asked to cancel may still return, if the hook
  swallows the cancellation. A loop that was closed refuses the callback, which \<open>dispatch\<close>
  suppresses, and discards what it had queued. \<open>a_taken\<close> is the history of the callbacks that ran.
\<close>

datatype task_status = Active | Cancelling | Done

datatype task_end = Returned | Raised | Cancelled

record 'c aio =
  a_policy :: backpressure
  a_gate :: "'c gate"
  a_open :: bool
  a_callbacks :: "'c list"
  a_tasks :: "('c \<times> task_status) list"
  a_running :: "nat list"
  a_reported :: "nat list"
  a_taken :: "'c list"

definition aio_init :: "backpressure \<Rightarrow> 'c aio" where
  "aio_init policy =
     \<lparr>a_policy = policy, a_gate = gate_init policy, a_open = True, a_callbacks = [], a_tasks = [],
      a_running = [], a_reported = [], a_taken = []\<rparr>"

text \<open>\<open>loop.create_task\<close>, \<open>running.clear()\<close>, \<open>running.append(task)\<close>: a task is its index.\<close>

definition aio_start :: "'c \<Rightarrow> 'c aio \<Rightarrow> 'c aio" where
  "aio_start c s = s\<lparr>a_tasks := a_tasks s @ [(c, Active)], a_running := [length (a_tasks s)]\<rparr>"

definition aio_start_option :: "'c option \<Rightarrow> 'c aio \<Rightarrow> 'c aio" where
  "aio_start_option r s = (case r of None \<Rightarrow> s | Some c \<Rightarrow> aio_start c s)"

definition cancel_task :: "nat \<Rightarrow> ('c \<times> task_status) list \<Rightarrow> ('c \<times> task_status) list" where
  "cancel_task i tasks =
     (if i < length tasks \<and> snd (tasks ! i) \<noteq> Done
      then tasks[i := (fst (tasks ! i), Cancelling)] else tasks)"

text \<open>\<open>dispatch\<close>, on the installing thread: a closed loop's \<open>RuntimeError\<close> is suppressed.\<close>

definition aio_dispatch :: "'c \<Rightarrow> 'c aio \<Rightarrow> 'c aio" where
  "aio_dispatch c s = (if a_open s then s\<lparr>a_callbacks := a_callbacks s @ [c]\<rparr> else s)"

definition aio_close :: "'c aio \<Rightarrow> 'c aio" where
  "aio_close s = s\<lparr>a_open := False, a_callbacks := []\<rparr>"

text \<open>A turn of the loop: its first callback.\<close>

definition aio_on_loop :: "'c \<Rightarrow> 'c aio \<Rightarrow> 'c aio" where
  "aio_on_loop c s =
     (if a_policy s = Cancel_previous
      then aio_start c (s\<lparr>a_tasks := fold cancel_task (a_running s) (a_tasks s)\<rparr>)
      else let r = gate_submit (a_gate s) c in aio_start_option (snd r) (s\<lparr>a_gate := fst r\<rparr>))"

definition aio_task_ends :: "nat \<Rightarrow> task_end \<Rightarrow> 'c aio \<Rightarrow> 'c aio" where
  "aio_task_ends i outcome s =
     (let s1 = s\<lparr>a_tasks := (a_tasks s)[i := (fst (a_tasks s ! i), Done)],
                 a_reported := (if outcome = Raised then a_reported s @ [i] else a_reported s)\<rparr>
      in if outcome = Cancelled then s1
         else let r = gate_finished (a_gate s1) in aio_start_option (snd r) (s1\<lparr>a_gate := fst r\<rparr>))"

definition aio_turn :: "'c aio \<Rightarrow> 'c aio" where
  "aio_turn s =
     (case a_callbacks s of
        [] \<Rightarrow> s
      | c # rest \<Rightarrow> aio_on_loop c (s\<lparr>a_callbacks := rest, a_taken := a_taken s @ [c]\<rparr>))"

inductive aio_step :: "'c aio \<Rightarrow> 'c aio \<Rightarrow> bool" where
  aio_dispatched: "aio_step s (aio_dispatch c s)"
| aio_loop_turn: "a_open s \<Longrightarrow> a_callbacks s \<noteq> [] \<Longrightarrow> aio_step s (aio_turn s)"
| aio_ended: "a_open s \<Longrightarrow> i < length (a_tasks s) \<Longrightarrow> snd (a_tasks s ! i) \<noteq> Done \<Longrightarrow>
     (outcome = Cancelled \<longrightarrow> snd (a_tasks s ! i) = Cancelling) \<Longrightarrow>
     aio_step s (aio_task_ends i outcome s)"
| aio_closed: "aio_step s (aio_close s)"

inductive aio_reach :: "backpressure \<Rightarrow> 'c aio \<Rightarrow> bool" for policy where
  aio_here: "aio_reach policy (aio_init policy)"
| aio_next: "aio_reach policy s \<Longrightarrow> aio_step s t \<Longrightarrow> aio_reach policy t"

subsection \<open>Cancelling keeps one task wanted\<close>

text \<open>The invariant: \<open>running\<close> names the newest task, every older one is cancelling or done, and the
  gate, which this policy never submits to, has nothing queued.\<close>

definition cancel_inv :: "'c aio \<Rightarrow> bool" where
  "cancel_inv s \<longleftrightarrow> a_policy s = Cancel_previous \<and> g_queue (a_gate s) = [] \<and>
     a_running s = (if a_tasks s = [] then [] else [length (a_tasks s) - 1]) \<and>
     (\<forall>i. Suc i < length (a_tasks s) \<longrightarrow> snd (a_tasks s ! i) \<noteq> Active)"

lemma length_cancel_task [simp]: "length (cancel_task i tasks) = length tasks"
  by (simp add: cancel_task_def)

lemma snd_cancel_task:
  "j < length tasks \<Longrightarrow> snd (cancel_task i tasks ! j) =
     (if j = i \<and> snd (tasks ! j) \<noteq> Done then Cancelling else snd (tasks ! j))"
  by (auto simp: cancel_task_def nth_list_update)

lemma cancel_inv_on_loop:
  assumes "cancel_inv s"
  shows "cancel_inv (aio_on_loop c (s\<lparr>a_callbacks := rest, a_taken := taken\<rparr>))"
proof (cases "a_tasks s = []")
  case True
  with assms show ?thesis by (simp add: cancel_inv_def aio_on_loop_def aio_start_def)
next
  case False
  let ?new = "cancel_task (length (a_tasks s) - 1) (a_tasks s)"
  have "snd (?new ! i) \<noteq> Active" if "i < length (a_tasks s)" for i
  proof (cases "Suc i < length (a_tasks s)")
    case True
    with assms that show ?thesis by (auto simp: snd_cancel_task cancel_inv_def)
  next
    case False
    with that have "i = length (a_tasks s) - 1" by linarith
    with that show ?thesis by (auto simp: snd_cancel_task)
  qed
  with assms False show ?thesis
    by (simp add: cancel_inv_def aio_on_loop_def aio_start_def nth_append)
qed

lemma cancel_inv_ends:
  assumes "cancel_inv s" "i < length (a_tasks s)"
  shows "cancel_inv (aio_task_ends i outcome s)"
proof -
  have "snd ((a_tasks s)[i := (x, Done)] ! j) \<noteq> Active" if "Suc j < length (a_tasks s)" for j x
    using assms that by (cases "i = j") (auto simp: cancel_inv_def nth_list_update)
  with assms show ?thesis
    by (simp add: cancel_inv_def aio_task_ends_def Let_def gate_finished_def aio_start_option_def)
qed

lemma cancel_inv_step: "aio_step s t \<Longrightarrow> cancel_inv s \<Longrightarrow> cancel_inv t"
proof (induction rule: aio_step.induct)
  case (aio_dispatched s c)
  then show ?case by (simp add: cancel_inv_def aio_dispatch_def)
next
  case (aio_loop_turn s)
  then show ?case by (simp add: aio_turn_def cancel_inv_on_loop split: list.split)
next
  case (aio_ended s i outcome)
  then show ?case by (simp add: cancel_inv_ends)
next
  case (aio_closed s)
  then show ?case by (simp add: cancel_inv_def aio_close_def)
qed

lemma cancel_inv_reach: "aio_reach Cancel_previous s \<Longrightarrow> cancel_inv s"
proof (induction rule: aio_reach.induct)
  case aio_here
  show ?case by (simp add: cancel_inv_def aio_init_def gate_init_def)
next
  case (aio_next s t)
  then show ?case by (blast intro: cancel_inv_step)
qed

subsection \<open>Through the gate, one task at a time\<close>

text \<open>Under the other policies tasks come from the gate only, and are never cancelled from here.\<close>

definition unfinished :: "('c \<times> task_status) list \<Rightarrow> nat set" where
  "unfinished tasks = {i. i < length tasks \<and> snd (tasks ! i) \<noteq> Done}"

lemma unfinished_append:
  "unfinished (tasks @ [(c, Active)]) = insert (length tasks) (unfinished tasks)"
  by (auto simp: unfinished_def nth_append less_Suc_eq)

lemma unfinished_done:
  "unfinished (tasks[i := (x, Done)]) = unfinished tasks - {i}"
  by (cases "i < length tasks") (auto simp: unfinished_def nth_list_update list_update_beyond)

lemma finite_unfinished [simp]: "finite (unfinished tasks)"
  by (simp add: unfinished_def)

definition gated_inv :: "'c aio \<Rightarrow> bool" where
  "gated_inv s \<longleftrightarrow> a_policy s \<in> {Latest, Serial} \<and> g_policy (a_gate s) = a_policy s \<and>
     card (unfinished (a_tasks s)) = (if g_running (a_gate s) then 1 else 0) \<and>
     (\<forall>i < length (a_tasks s). snd (a_tasks s ! i) \<noteq> Cancelling) \<and>
     (\<not> g_running (a_gate s) \<longrightarrow> g_queue (a_gate s) = [])"

lemma gated_inv_on_loop: "gated_inv s \<Longrightarrow> gated_inv (aio_on_loop c (s\<lparr>a_callbacks := rest, a_taken := taken\<rparr>))"
  by (auto simp: gated_inv_def aio_on_loop_def Let_def gate_submit_def aio_start_option_def
      aio_start_def unfinished_append nth_append less_Suc_eq card_insert_if)

lemma gated_inv_ends:
  assumes "gated_inv s" "i < length (a_tasks s)" "snd (a_tasks s ! i) \<noteq> Done" "outcome \<noteq> Cancelled"
  shows "gated_inv (aio_task_ends i outcome s)"
proof -
  have "i \<in> unfinished (a_tasks s)" using assms by (simp add: unfinished_def)
  with assms(1) have run: "g_running (a_gate s)" and one: "unfinished (a_tasks s) = {i}"
    by (auto simp: gated_inv_def card_1_singleton_iff split: if_splits)
  show ?thesis
    using assms run one
    by (cases "g_queue (a_gate s)")
      (auto simp: gated_inv_def aio_task_ends_def Let_def gate_finished_def aio_start_option_def
        aio_start_def unfinished_append unfinished_done nth_append nth_list_update less_Suc_eq)
qed

lemma gated_inv_step: "aio_step s t \<Longrightarrow> gated_inv s \<Longrightarrow> gated_inv t"
proof (induction rule: aio_step.induct)
  case (aio_dispatched s c)
  then show ?case by (auto simp: gated_inv_def aio_dispatch_def)
next
  case (aio_loop_turn s)
  then show ?case by (simp add: aio_turn_def gated_inv_on_loop split: list.split)
next
  case (aio_ended s i outcome)
  moreover have "outcome \<noteq> Cancelled" using aio_ended by (auto simp: gated_inv_def)
  ultimately show ?case by (simp add: gated_inv_ends)
next
  case (aio_closed s)
  then show ?case by (auto simp: gated_inv_def aio_close_def)
qed

lemma gated_inv_reach: "aio_reach policy s \<Longrightarrow> policy \<in> {Latest, Serial} \<Longrightarrow> gated_inv s"
proof (induction rule: aio_reach.induct)
  case aio_here
  then show ?case by (simp add: gated_inv_def aio_init_def gate_init_def unfinished_def)
next
  case (aio_next s t)
  then show ?case by (blast intro: gated_inv_step)
qed

subsection \<open>Properties\<close>

text \<open>Under \<open>cancel_previous\<close> only the newest install's task is left alone: in every reachable
  state each older task has been cancelled or is done, so at most one task is active, and the
  gate never holds a call back.\<close>

theorem cancel_previous_leaves_the_newest:
  assumes "aio_reach Cancel_previous s" "i < length (a_tasks s)" "snd (a_tasks s ! i) = Active"
  shows "i = length (a_tasks s) - 1 \<and> a_running s = [i] \<and> g_queue (a_gate s) = []"
proof -
  have inv: "cancel_inv s" by (rule cancel_inv_reach [OF assms(1)])
  with assms(2,3) have "\<not> Suc i < length (a_tasks s)" by (auto simp: cancel_inv_def)
  with assms(2) have "i = length (a_tasks s) - 1" by linarith
  with inv assms(2) show ?thesis by (auto simp: cancel_inv_def)
qed

theorem cancel_previous_leaves_the_newest_witness:
  "\<exists>s::nat aio. aio_reach Cancel_previous s \<and> map snd (a_tasks s) = [Cancelling, Active] \<and>
     a_running s = [1] \<and> g_queue (a_gate s) = []"
proof -
  let ?s1 = "aio_dispatch 2 (aio_dispatch 1 (aio_init Cancel_previous)) :: nat aio"
  let ?s2 = "aio_turn ?s1"
  let ?s3 = "aio_turn ?s2"
  note evals = aio_dispatch_def aio_init_def aio_turn_def aio_on_loop_def aio_start_def
  have r1: "aio_reach Cancel_previous ?s1"
    by (rule aio_next [OF aio_next [OF aio_here aio_dispatched] aio_dispatched])
  have r2: "aio_reach Cancel_previous ?s2"
    by (rule aio_next [OF r1 aio_loop_turn]) (simp_all add: evals)
  have r3: "aio_reach Cancel_previous ?s3"
    by (rule aio_next [OF r2 aio_loop_turn]) (simp_all add: evals)
  have t: "a_tasks ?s3 = [(1, Cancelling), (2, Active)]"
    by (simp add: evals cancel_task_def)
  show ?thesis
    using cancel_previous_leaves_the_newest [OF r3, of 1] r3 t by (intro exI [of _ ?s3]) simp
qed

text \<open>With \<open>latest\<close> or \<open>serial\<close>, an asyncio hook has at most one task that is not done, the gate
  is marked running exactly while there is one, and an idle gate holds nothing back.\<close>

theorem asyncio_hook_one_task:
  assumes "aio_reach policy s" "policy = Latest \<or> policy = Serial"
  shows "card (unfinished (a_tasks s)) = (if g_running (a_gate s) then 1 else 0) \<and>
    (g_queue (a_gate s) \<noteq> [] \<longrightarrow> g_running (a_gate s))"
  using gated_inv_reach [OF assms(1)] assms(2) by (auto simp: gated_inv_def)

theorem asyncio_hook_one_task_witness:
  "\<exists>s::nat aio. aio_reach Latest s \<and> a_callbacks s = [1] \<and>
     card (unfinished (a_tasks s)) = (if g_running (a_gate s) then 1 else 0)"
proof -
  have r: "aio_reach Latest (aio_dispatch 1 (aio_init Latest) :: nat aio)"
    by (rule aio_next [OF aio_here aio_dispatched])
  show ?thesis
    using asyncio_hook_one_task [OF r] r
    by (intro exI [of _ "aio_dispatch 1 (aio_init Latest)"]) (simp add: aio_dispatch_def aio_init_def)
qed

end
