(* ===== verification/Core.thy ===== *)
theory Core
  imports PyValue
begin

section \<open>The native object behind a configuration: \<open>_core.Config\<close>\<close>

text \<open>
  \<open>src/config/inner.rs\<close> and \<open>src/config/mod.rs\<close>: what \<open>DynamicConfig\<close> calls. The engine
  crate under it is not part of the repository, so what it resolves is an argument of each
  loading operation, and what the schema answers is the function \<open>w_validate\<close>. A model
  validated is \<^emph>\<open>staged\<close> under a sequence number; the install is followed by two commit
  attempts, the engine's reload hook (which the first install does not fire) and the explicit
  one, and the sequence number makes the second do nothing.

  Every operation answers its result, the new state and the hook calls it made, in order. The
  operations run one at a time here; their interleavings are the theory \<open>Commits\<close>. A counter
  of 64 bits is a natural number: it counts installs.
\<close>

subsection \<open>State\<close>

datatype core_error =
    EngineError string string
  | InvalidError string "string list"
  | BackendError string
  | CoreValueError string
  | CoreOSError string
  | CoreRuntimeError string
  | CorePanic string

datatype source =
    Src_file string
  | Src_discover string "string list"
  | Src_env string
  | Src_nest string
  | Src_allow_empty_env
  | Src_strict_env
  | Src_whole_document
  | Src_env_file string
  | Src_secrets_dir string
  | Src_profile_env string
  | Src_cache string string

datatype 't engine =
    Building "source list"
  | Ready "source list" "'t option"

record ('t, 'm) staged =
  st_sequence :: nat
  st_tree :: 't
  st_model :: 'm

record ('t, 'm, 'h) core =
  k_key :: string
  k_secrets :: "string list option"
  k_fields :: "string list"
  k_engine :: "'t engine"
  k_staged :: "('t, 'm) staged option"
  k_next_sequence :: nat
  k_last_committed :: nat
  k_reports :: "string list option"
  k_cache :: "'m option"
  k_generation :: nat
  k_refusals :: nat
  k_closed :: bool
  k_hooks :: "(nat \<times> 'h) list"
  k_next_hook :: nat
  k_prepared :: "(nat \<times> 't) list"
  k_next_prepared :: nat
  k_defaults :: "(string \<times> 't) list"
  k_overrides :: "(string \<times> 't) list"
  k_flags :: "string list"
  k_bindings :: "(string \<times> string) list"
  k_aliases :: "(string \<times> string) list"

definition core_new :: "string \<Rightarrow> string list option \<Rightarrow> string list \<Rightarrow> ('t, 'm, 'h) core" where
  "core_new key secrets names =
     \<lparr>k_key = key, k_secrets = secrets, k_fields = names, k_engine = Building [],
      k_staged = None, k_next_sequence = 0, k_last_committed = 0, k_reports = None,
      k_cache = None, k_generation = 0, k_refusals = 0, k_closed = False, k_hooks = [],
      k_next_hook = 1, k_prepared = [], k_next_prepared = 1, k_defaults = [],
      k_overrides = [], k_flags = [], k_bindings = [], k_aliases = []\<rparr>"

text \<open>The model installed in the engine, before anything is published to Python.\<close>

definition engine_current :: "('t, 'm, 'h) core \<Rightarrow> 't option" where
  "engine_current k = (case k_engine k of Building _ \<Rightarrow> None | Ready _ current \<Rightarrow> current)"

text \<open>What the operations run against: the schema's \<open>validate\<close>, which refuses with a scrubbed
  message and a report, and the engine's choice of whether a failing operation calls its
  failure hook.\<close>

datatype lifecycle = Op_init | Op_reload | Op_load | Op_prepare | Op_watch

record ('t, 'm) world =
  w_validate :: "'t \<Rightarrow> (string \<times> string list option, 'm) result"
  w_announces :: "lifecycle \<Rightarrow> bool"

type_synonym 't resolution = "(string \<times> string, 't) result"

type_synonym ('h, 'm) call = "'h \<times> 'm option \<times> 'm"

type_synonym ('a, 't, 'm, 'h) answer =
  "(core_error, 'a) result \<times> ('t, 'm, 'h) core \<times> ('h, 'm) call list"

abbreviation answer_of :: "('a, 't, 'm, 'h) answer \<Rightarrow> (core_error, 'a) result" where
  "answer_of r \<equiv> fst r"

abbreviation after :: "('a, 't, 'm, 'h) answer \<Rightarrow> ('t, 'm, 'h) core" where
  "after r \<equiv> fst (snd r)"

abbreviation calls_of :: "('a, 't, 'm, 'h) answer \<Rightarrow> ('h, 'm) call list" where
  "calls_of r \<equiv> snd (snd r)"

subsection \<open>Building\<close>

definition core_configure :: "source \<Rightarrow> ('t, 'm, 'h) core \<Rightarrow> (unit, 't, 'm, 'h) answer" where
  "core_configure src k =
     (case k_engine k of
        Building srcs \<Rightarrow> (Inr (), k\<lparr>k_engine := Building (srcs @ [src])\<rparr>, [])
      | Ready _ _ \<Rightarrow> (Inl (BackendError (''the sources cannot change after the first load; '' @
          ''build a second configuration instead'')), k, []))"

definition core_cache :: "string \<Rightarrow> string \<Rightarrow> ('t, 'm, 'h) core \<Rightarrow> (unit, 't, 'm, 'h) answer" where
  "core_cache path mode k =
     (if mode \<in> set [''redacted'', ''full'', ''fingerprint''] then core_configure (Src_cache path mode) k
      else (Inl (CoreValueError (''unknown cache mode '' @ quoted mode @ '': expected '' @
        quoted ''redacted'' @ '', '' @ quoted ''full'' @ '' or '' @ quoted ''fingerprint'')), k, []))"

text \<open>\<open>Inner.dynamic\<close>: the engine is built on first use, and the sources are fixed.\<close>

definition core_dynamic :: "('t, 'm, 'h) core \<Rightarrow> ('t, 'm, 'h) core" where
  "core_dynamic k =
     (case k_engine k of Building srcs \<Rightarrow> k\<lparr>k_engine := Ready srcs None\<rparr> | Ready _ _ \<Rightarrow> k)"

subsection \<open>Validating and committing\<close>

definition core_validate ::
  "('t, 'm) world \<Rightarrow> 't \<Rightarrow> ('t, 'm, 'h) core \<Rightarrow> (core_error, unit) result \<times> ('t, 'm, 'h) core" where
  "core_validate w tree k =
     (case w_validate w tree of
        Inr model \<Rightarrow>
          (Inr (), k\<lparr>k_next_sequence := Suc (k_next_sequence k),
                     k_staged := Some \<lparr>st_sequence = Suc (k_next_sequence k), st_tree = tree,
                                       st_model = model\<rparr>\<rparr>)
      | Inl (message, reports) \<Rightarrow> (Inl (EngineError ''invalid'' message), k\<lparr>k_reports := reports\<rparr>))"

text \<open>Publication: the cache, the generation and every hook, with the outgoing model.\<close>

definition run_hooks :: "'m option \<Rightarrow> 'm \<Rightarrow> ('t, 'm, 'h) core \<Rightarrow> ('h, 'm) call list" where
  "run_hooks previous current k = map (\<lambda>(_, hook). (hook, previous, current)) (k_hooks k)"

definition core_publish :: "'m \<Rightarrow> ('t, 'm, 'h) core \<Rightarrow> (unit, 't, 'm, 'h) answer" where
  "core_publish model k =
     (Inr (), k\<lparr>k_cache := Some model, k_generation := Suc (k_generation k)\<rparr>,
      run_hooks (k_cache k) model k)"

definition claim :: "('t, 'm) staged \<Rightarrow> ('t, 'm, 'h) core \<Rightarrow> ('t, 'm, 'h) core" where
  "claim p k = k\<lparr>k_last_committed := max (k_last_committed k) (st_sequence p)\<rparr>"

definition core_publish_staged ::
  "('t, 'm) staged option \<Rightarrow> ('t, 'm, 'h) core \<Rightarrow> (unit, 't, 'm, 'h) answer" where
  "core_publish_staged pending k =
     (case pending of None \<Rightarrow> (Inr (), k, []) | Some p \<Rightarrow> core_publish (st_model p) (claim p k))"

definition staged_for :: "'t \<Rightarrow> ('t, 'm, 'h) core \<Rightarrow> ('t, 'm) staged option" where
  "staged_for tree k =
     (case k_staged k of Some p \<Rightarrow> if st_tree p = tree then Some p else None | None \<Rightarrow> None)"

definition inner_commit ::
  "('t, 'm) world \<Rightarrow> 't \<Rightarrow> ('t, 'm, 'h) core \<Rightarrow> (unit, 't, 'm, 'h) answer" where
  "inner_commit w tree k =
     (case staged_for tree k of
        Some p \<Rightarrow>
          if st_sequence p \<le> k_last_committed k then (Inr (), k, [])
          else core_publish_staged (Some p) k
      | None \<Rightarrow>
          (case core_validate w tree k of
             (Inl e, k1) \<Rightarrow> (Inl e, k1, [])
           | (Inr _, k1) \<Rightarrow> core_publish_staged (k_staged k1) k1))"

definition publish_current ::
  "('t, 'm) world \<Rightarrow> ('t, 'm, 'h) core \<Rightarrow> (unit, 't, 'm, 'h) answer" where
  "publish_current w k =
     (case engine_current k of None \<Rightarrow> (Inr (), k, []) | Some tree \<Rightarrow> inner_commit w tree k)"

subsection \<open>The engine's part\<close>

text \<open>Loading resolves, then validates. Installing replaces the engine's snapshot and, unless it
  is the first, calls the hook \<open>Inner.dynamic\<close> registered: a commit whose error goes to the
  unraisable channel.\<close>

definition engine_load ::
  "('t, 'm) world \<Rightarrow> lifecycle \<Rightarrow> 't resolution \<Rightarrow> ('t, 'm, 'h) core \<Rightarrow>
   (core_error, 't) result \<times> ('t, 'm, 'h) core" where
  "engine_load w op res k =
     (let refused = (\<lambda>k1. if w_announces w op then k1\<lparr>k_refusals := Suc (k_refusals k1)\<rparr> else k1) in
      case res of
        Inl (kind, message) \<Rightarrow> (Inl (EngineError kind message), refused k)
      | Inr tree \<Rightarrow>
          (case core_validate w tree k of
             (Inl e, k1) \<Rightarrow> (Inl e, refused k1)
           | (Inr _, k1) \<Rightarrow> (Inr tree, k1)))"

definition engine_install ::
  "('t, 'm) world \<Rightarrow> 't \<Rightarrow> ('t, 'm, 'h) core \<Rightarrow> ('t, 'm, 'h) core \<times> ('h, 'm) call list" where
  "engine_install w tree k =
     (case k_engine k of
        Building _ \<Rightarrow> (k, [])
      | Ready srcs previous \<Rightarrow>
          (let k1 = k\<lparr>k_engine := Ready srcs (Some tree)\<rparr> in
           if previous = None then (k1, []) else snd (inner_commit w tree k1)))"

text \<open>\<open>Config.raise\<close>: an invalid document carries the schema's own report, once.\<close>

definition core_raise :: "core_error \<Rightarrow> ('t, 'm, 'h) core \<Rightarrow> core_error \<times> ('t, 'm, 'h) core" where
  "core_raise e k =
     (case e of
        EngineError kind message \<Rightarrow>
          if kind = ''invalid''
          then (InvalidError message (case k_reports k of None \<Rightarrow> [] | Some r \<Rightarrow> r), k\<lparr>k_reports := None\<rparr>)
          else (e, k)
      | _ \<Rightarrow> (e, k))"

definition raised :: "core_error \<Rightarrow> ('t, 'm, 'h) core \<Rightarrow> ('a, 't, 'm, 'h) answer" where
  "raised e k = (Inl (fst (core_raise e k)), snd (core_raise e k), [])"

subsection \<open>The operations Python calls\<close>

definition install_and_publish ::
  "('t, 'm) world \<Rightarrow> 't \<Rightarrow> ('t, 'm, 'h) core \<Rightarrow> (unit, 't, 'm, 'h) answer" where
  "install_and_publish w tree k =
     (let (k1, calls1) = engine_install w tree k; (r, k2, calls2) = publish_current w k1
      in (r, k2, calls1 @ calls2))"

definition load_then_install ::
  "('t, 'm) world \<Rightarrow> lifecycle \<Rightarrow> 't resolution \<Rightarrow> ('t, 'm, 'h) core \<Rightarrow> (unit, 't, 'm, 'h) answer" where
  "load_then_install w op res k =
     (case engine_load w op res (core_dynamic k) of
        (Inl e, k1) \<Rightarrow> raised e k1
      | (Inr tree, k1) \<Rightarrow> install_and_publish w tree k1)"

definition core_init ::
  "('t, 'm) world \<Rightarrow> 't resolution \<Rightarrow> ('t, 'm, 'h) core \<Rightarrow> (unit, 't, 'm, 'h) answer" where
  "core_init w res k = load_then_install w Op_init res k"

definition core_reload ::
  "('t, 'm) world \<Rightarrow> 't resolution \<Rightarrow> ('t, 'm, 'h) core \<Rightarrow> (unit, 't, 'm, 'h) answer" where
  "core_reload w res k = load_then_install w Op_reload res k"

definition core_load ::
  "('t, 'm) world \<Rightarrow> 't resolution \<Rightarrow> ('t, 'm, 'h) core \<Rightarrow> ('m, 't, 'm, 'h) answer" where
  "core_load w res k =
     (case engine_load w Op_load res (core_dynamic k) of
        (Inl e, k1) \<Rightarrow> raised e k1
      | (Inr tree, k1) \<Rightarrow>
          (case staged_for tree k1 of
             Some p \<Rightarrow> (Inr (st_model p), k1, [])
           | None \<Rightarrow>
               (case core_validate w tree k1 of
                  (Inl e, k2) \<Rightarrow> (Inl e, k2, [])
                | (Inr _, k2) \<Rightarrow>
                    (case k_staged k2 of
                       Some p \<Rightarrow> (Inr (st_model p), k2, [])
                     | None \<Rightarrow> (Inl (CoreRuntimeError ''the load produced no model, which should be impossible''), k2, [])))))"

definition core_prepare ::
  "('t, 'm) world \<Rightarrow> 't resolution \<Rightarrow> ('t, 'm, 'h) core \<Rightarrow> (nat, 't, 'm, 'h) answer" where
  "core_prepare w res k =
     (case engine_load w Op_prepare res (core_dynamic k) of
        (Inl e, k1) \<Rightarrow> raised e k1
      | (Inr tree, k1) \<Rightarrow>
          (Inr (k_next_prepared k1),
           k1\<lparr>k_next_prepared := Suc (k_next_prepared k1),
              k_prepared := k_prepared k1 @ [(k_next_prepared k1, tree)]\<rparr>, []))"

definition drop_prepared :: "nat \<Rightarrow> ('t, 'm, 'h) core \<Rightarrow> ('t, 'm, 'h) core" where
  "drop_prepared token k = k\<lparr>k_prepared := filter (\<lambda>(t, _). t \<noteq> token) (k_prepared k)\<rparr>"

definition core_commit ::
  "('t, 'm) world \<Rightarrow> nat \<Rightarrow> ('t, 'm, 'h) core \<Rightarrow> (unit, 't, 'm, 'h) answer" where
  "core_commit w token k =
     (case map_of (k_prepared k) token of
        None \<Rightarrow> (Inl (CoreValueError (''no prepared commit for this token: it was already '' @
          ''committed, or it belongs to another configuration'')), k, [])
      | Some tree \<Rightarrow> install_and_publish w tree (drop_prepared token k))"

definition core_discard :: "nat \<Rightarrow> ('t, 'm, 'h) core \<Rightarrow> ('t, 'm, 'h) core" where
  "core_discard token k = drop_prepared token k"

definition core_replace :: "'m \<Rightarrow> ('t, 'm, 'h) core \<Rightarrow> (unit, 't, 'm, 'h) answer" where
  "core_replace model k = core_publish model k"

text \<open>A reload the watcher drives: nobody is there to raise to, and only the engine's hook
  publishes.\<close>

definition core_watch_reload ::
  "('t, 'm) world \<Rightarrow> 't resolution \<Rightarrow> ('t, 'm, 'h) core \<Rightarrow> (unit, 't, 'm, 'h) answer" where
  "core_watch_reload w res k =
     (case engine_load w Op_watch res (core_dynamic k) of
        (Inl _, k1) \<Rightarrow> (Inr (), k1, [])
      | (Inr tree, k1) \<Rightarrow> (Inr (), engine_install w tree k1))"

definition core_on_reload :: "'h \<Rightarrow> ('t, 'm, 'h) core \<Rightarrow> nat \<times> ('t, 'm, 'h) core" where
  "core_on_reload hook k =
     (k_next_hook k, k\<lparr>k_next_hook := Suc (k_next_hook k), k_hooks := k_hooks k @ [(k_next_hook k, hook)]\<rparr>)"

definition core_remove_hook :: "nat \<Rightarrow> ('t, 'm, 'h) core \<Rightarrow> bool \<times> ('t, 'm, 'h) core" where
  "core_remove_hook token k =
     (let kept = filter (\<lambda>(registered, _). registered \<noteq> token) (k_hooks k)
      in (length kept \<noteq> length (k_hooks k), k\<lparr>k_hooks := kept\<rparr>))"

definition core_release :: "('t, 'm, 'h) core \<Rightarrow> ('t, 'm, 'h) core" where
  "core_release k =
     k\<lparr>k_cache := None, k_hooks := [], k_staged := None, k_reports := None, k_prepared := [],
       k_closed := True\<rparr>"

text \<open>A wait returns when the generation is past what the caller has seen, or on release.\<close>

definition wait_ready :: "nat \<Rightarrow> ('t, 'm, 'h) core \<Rightarrow> bool" where
  "wait_ready seen k \<longleftrightarrow> seen < k_generation k \<or> k_closed k"

definition wait_answer :: "nat \<Rightarrow> ('t, 'm, 'h) core \<Rightarrow> (nat \<times> 'm) option" where
  "wait_answer seen k =
     (if k_generation k \<le> seen then None else map_option (Pair (k_generation k)) (k_cache k))"

definition event_ready :: "nat \<Rightarrow> nat \<Rightarrow> ('t, 'm, 'h) core \<Rightarrow> bool" where
  "event_ready seen seen_refusals k \<longleftrightarrow>
     seen < k_generation k \<or> seen_refusals < k_refusals k \<or> k_closed k"

definition event_answer :: "nat \<Rightarrow> nat \<Rightarrow> ('t, 'm, 'h) core \<Rightarrow> (nat \<times> nat \<times> 'm option) option" where
  "event_answer seen seen_refusals k =
     (if k_generation k \<le> seen \<and> k_refusals k \<le> seen_refusals then None
      else Some (k_generation k, k_refusals k, if seen < k_generation k then k_cache k else None))"

subsection \<open>The runtime layers\<close>

text \<open>A layer is the calls that set it since it was cleared; \<open>refuses\<close> is the engine's and the
  converter's judgement of a path and a value.\<close>

definition core_set_default ::
  "(string \<Rightarrow> 't \<Rightarrow> core_error option) \<Rightarrow> string \<Rightarrow> 't \<Rightarrow> ('t, 'm, 'h) core \<Rightarrow> (unit, 't, 'm, 'h) answer" where
  "core_set_default refuses path v k =
     (case refuses path v of
        Some e \<Rightarrow> (Inl e, k, [])
      | None \<Rightarrow> (Inr (), k\<lparr>k_defaults := k_defaults k @ [(path, v)]\<rparr>, []))"

definition core_set_override ::
  "(string \<Rightarrow> 't \<Rightarrow> core_error option) \<Rightarrow> string \<Rightarrow> 't \<Rightarrow> ('t, 'm, 'h) core \<Rightarrow> (unit, 't, 'm, 'h) answer" where
  "core_set_override refuses path v k =
     (case refuses path v of
        Some e \<Rightarrow> (Inl e, k, [])
      | None \<Rightarrow> (Inr (), k\<lparr>k_overrides := k_overrides k @ [(path, v)]\<rparr>, []))"

definition core_clear_overrides :: "('t, 'm, 'h) core \<Rightarrow> ('t, 'm, 'h) core" where
  "core_clear_overrides k = k\<lparr>k_overrides := []\<rparr>"

text \<open>A mapping of defaults and a list of assignments go to the engine in one call: \<open>spreads\<close> and
  \<open>parses\<close> answer its complaint, if any, and what the layer received.\<close>

definition core_set_defaults ::
  "('t \<Rightarrow> core_error option \<times> (string \<times> 't) list) \<Rightarrow> 't \<Rightarrow> ('t, 'm, 'h) core \<Rightarrow> (unit, 't, 'm, 'h) answer" where
  "core_set_defaults spreads values k =
     (let (complaint, received) = spreads values
      in (case complaint of Some e \<Rightarrow> Inl e | None \<Rightarrow> Inr (),
          k\<lparr>k_defaults := k_defaults k @ received\<rparr>, []))"

definition core_set_assignments ::
  "(string list \<Rightarrow> core_error option \<times> string list) \<Rightarrow> string list \<Rightarrow> ('t, 'm, 'h) core \<Rightarrow> (unit, 't, 'm, 'h) answer" where
  "core_set_assignments parses assignments k =
     (let (complaint, received) = parses assignments
      in (case complaint of Some e \<Rightarrow> Inl e | None \<Rightarrow> Inr (),
          k\<lparr>k_flags := k_flags k @ received\<rparr>, []))"

definition core_clear_defaults :: "('t, 'm, 'h) core \<Rightarrow> ('t, 'm, 'h) core" where
  "core_clear_defaults k = k\<lparr>k_defaults := []\<rparr>"

definition core_clear_assignments :: "('t, 'm, 'h) core \<Rightarrow> ('t, 'm, 'h) core" where
  "core_clear_assignments k = k\<lparr>k_flags := []\<rparr>"

definition core_bind_env ::
  "(string \<Rightarrow> string \<Rightarrow> core_error option) \<Rightarrow> string \<Rightarrow> string \<Rightarrow> ('t, 'm, 'h) core \<Rightarrow> (unit, 't, 'm, 'h) answer" where
  "core_bind_env refuses path var k =
     (case refuses path var of
        Some e \<Rightarrow> (Inl e, k, [])
      | None \<Rightarrow> (Inr (), k\<lparr>k_bindings := k_bindings k @ [(path, var)]\<rparr>, []))"

definition core_alias ::
  "(string \<Rightarrow> string \<Rightarrow> core_error option) \<Rightarrow> string \<Rightarrow> string \<Rightarrow> ('t, 'm, 'h) core \<Rightarrow> (unit, 't, 'm, 'h) answer" where
  "core_alias refuses old new k =
     (case refuses old new of
        Some e \<Rightarrow> (Inl e, k, [])
      | None \<Rightarrow> (Inr (), k\<lparr>k_aliases := k_aliases k @ [(old, new)]\<rparr>, []))"

subsection \<open>Asking\<close>

text \<open>A diagnostic builds the engine, asks it, and raises what it refuses. What the engine
  answers is computed from the sources and the layers, outside.\<close>

definition core_ask ::
  "(core_error, 'a) result \<Rightarrow> ('t, 'm, 'h) core \<Rightarrow> ('a, 't, 'm, 'h) answer" where
  "core_ask outcome k =
     (case outcome of
        Inl e \<Rightarrow> raised e (core_dynamic k)
      | Inr x \<Rightarrow> (Inr x, core_dynamic k, []))"


subsection \<open>The invariant\<close>

text \<open>Sequence numbers are claimed only after they are handed out, and hook and commit tokens
  are below their counters and never given twice.\<close>

definition core_inv :: "('t, 'm, 'h) core \<Rightarrow> bool" where
  "core_inv k \<longleftrightarrow>
     k_last_committed k \<le> k_next_sequence k \<and>
     (\<forall>p. k_staged k = Some p \<longrightarrow> st_sequence p \<le> k_next_sequence k) \<and>
     distinct (map fst (k_hooks k)) \<and> (\<forall>t \<in> fst ` set (k_hooks k). t < k_next_hook k) \<and>
     distinct (map fst (k_prepared k)) \<and> (\<forall>t \<in> fst ` set (k_prepared k). t < k_next_prepared k)"

lemma core_inv_new [simp]: "core_inv (core_new key secrets names)"
  by (simp add: core_inv_def core_new_def)

text \<open>Updates the invariant does not look at.\<close>

lemma core_inv_updates [simp]:
  "core_inv (k\<lparr>k_engine := e\<rparr>) = core_inv k"
  "core_inv (k\<lparr>k_reports := r\<rparr>) = core_inv k"
  "core_inv (k\<lparr>k_refusals := n\<rparr>) = core_inv k"
  "core_inv (k\<lparr>k_cache := c, k_generation := n\<rparr>) = core_inv k"
  "core_inv (k\<lparr>k_defaults := l\<rparr>) = core_inv k"
  "core_inv (k\<lparr>k_overrides := l\<rparr>) = core_inv k"
  "core_inv (k\<lparr>k_bindings := b\<rparr>) = core_inv k"
  "core_inv (k\<lparr>k_aliases := b\<rparr>) = core_inv k"
  "core_inv (k\<lparr>k_flags := fs\<rparr>) = core_inv k"
  by (simp_all add: core_inv_def)

lemma core_inv_dynamic [simp]: "core_inv (core_dynamic k) = core_inv k"
  by (simp add: core_dynamic_def split: engine.splits)

lemma core_inv_validate:
  "core_inv k \<Longrightarrow> core_inv (snd (core_validate w tree k))"
  by (auto simp: core_validate_def core_inv_def split: sum.splits prod.splits)

lemma core_inv_publish_staged:
  "core_inv k \<Longrightarrow> (\<And>s. p = Some s \<Longrightarrow> st_sequence s \<le> k_next_sequence k) \<Longrightarrow>
   core_inv (after (core_publish_staged p k))"
  by (auto simp: core_publish_staged_def core_publish_def claim_def core_inv_def split: option.splits)

lemma core_inv_staged:
  "core_inv k \<Longrightarrow> k_staged k = Some s \<Longrightarrow> st_sequence s \<le> k_next_sequence k"
  by (simp add: core_inv_def)

lemma staged_forD: "staged_for tree k = Some p \<Longrightarrow> k_staged k = Some p \<and> st_tree p = tree"
  by (auto simp: staged_for_def split: option.splits if_splits)

lemma core_inv_commit: "core_inv k \<Longrightarrow> core_inv (after (inner_commit w tree k))"
  using core_inv_validate [of k w tree]
  by (cases "core_validate w tree k")
    (auto simp: inner_commit_def split: option.splits sum.splits
      intro!: core_inv_publish_staged dest!: staged_forD dest: core_inv_staged)

lemma core_inv_engine_load: "core_inv k \<Longrightarrow> core_inv (snd (engine_load w op res k))"
  using core_inv_validate [of k w] by (auto simp: engine_load_def Let_def split: sum.splits prod.splits)
    (metis snd_conv)+

lemma core_inv_install: "core_inv k \<Longrightarrow> core_inv (fst (engine_install w tree k))"
  by (auto simp: engine_install_def Let_def core_inv_commit split: engine.splits)

lemma core_inv_publish_current: "core_inv k \<Longrightarrow> core_inv (after (publish_current w k))"
  by (auto simp: publish_current_def core_inv_commit split: option.splits)

lemma core_inv_raised: "core_inv k \<Longrightarrow> core_inv (after (raised e k))"
  by (auto simp: raised_def core_raise_def split: core_error.splits)

lemma install_and_publish_eq:
  "install_and_publish w tree k =
     (let i = engine_install w tree k; p = publish_current w (fst i)
      in (answer_of p, after p, snd i @ calls_of p))"
  by (simp add: install_and_publish_def Let_def split_def)

lemma core_inv_install_and_publish:
  "core_inv k \<Longrightarrow> core_inv (after (install_and_publish w tree k))"
  by (simp add: install_and_publish_eq Let_def core_inv_publish_current core_inv_install)

lemma core_inv_drop: "core_inv k \<Longrightarrow> core_inv (drop_prepared token k)"
  by (auto simp: core_inv_def drop_prepared_def intro!: distinct_map_filter)

lemma core_inv_load_then_install:
  "core_inv k \<Longrightarrow> core_inv (after (load_then_install w op res k))"
  using core_inv_engine_load [of "core_dynamic k" w op res]
  by (cases "engine_load w op res (core_dynamic k)")
    (auto simp: load_then_install_def split: sum.splits
      intro: core_inv_raised core_inv_install_and_publish)


subsection \<open>Committing twice is committing once\<close>

lemma staged_for_same:
  "k_staged k' = k_staged k \<Longrightarrow> staged_for tree k' = staged_for tree k"
  by (simp add: staged_for_def)

lemma core_validate_ok:
  "w_validate w tree = Inr m \<Longrightarrow>
   core_validate w tree k =
     (Inr (), k\<lparr>k_next_sequence := Suc (k_next_sequence k),
                k_staged := Some \<lparr>st_sequence = Suc (k_next_sequence k), st_tree = tree, st_model = m\<rparr>\<rparr>)"
  by (simp add: core_validate_def)

lemma inner_commit_claimed:
  "staged_for tree k = Some p \<Longrightarrow> st_sequence p \<le> k_last_committed k \<Longrightarrow>
   inner_commit w tree k = (Inr (), k, [])"
  by (simp add: inner_commit_def)

lemma inner_commit_fresh:
  "staged_for tree k = Some p \<Longrightarrow> k_last_committed k < st_sequence p \<Longrightarrow>
   inner_commit w tree k = core_publish (st_model p) (claim p k)"
  by (simp add: inner_commit_def core_publish_staged_def)

lemma publish_claimed:
  "staged_for tree (claim p k) = staged_for tree k"
  "staged_for tree (after (core_publish m k)) = staged_for tree k"
  "k_last_committed (after (core_publish m k)) = k_last_committed k"
  "st_sequence p \<le> k_last_committed (claim p k)"
  by (simp_all add: staged_for_def claim_def core_publish_def)

lemma inner_commit_refused:
  "staged_for tree k = None \<Longrightarrow> w_validate w tree = Inl e \<Longrightarrow>
   inner_commit w tree k =
     (Inl (EngineError ''invalid'' (fst e)), k\<lparr>k_reports := snd e\<rparr>, [])"
  by (cases e) (simp add: inner_commit_def core_validate_def)

lemma inner_commit_restaged:
  assumes "staged_for tree k = None" "w_validate w tree = Inr m"
  shows "\<exists>p k1. staged_for tree k1 = Some p \<and> st_model p = m \<and>
    inner_commit w tree k = core_publish m (claim p k1) \<and>
    k1 = snd (core_validate w tree k)"
proof -
  let ?p = "\<lparr>st_sequence = Suc (k_next_sequence k), st_tree = tree, st_model = m\<rparr>"
  let ?k1 = "snd (core_validate w tree k)"
  have "staged_for tree ?k1 = Some ?p"
    by (simp add: core_validate_ok [OF assms(2)] staged_for_def)
  moreover have "inner_commit w tree k = core_publish m (claim ?p ?k1)"
    using assms by (simp add: inner_commit_def core_validate_ok core_publish_staged_def)
  ultimately show ?thesis by (intro exI [of _ ?p] exI [of _ ?k1]) simp
qed

lemma inner_commit_twice:
  "inner_commit w tree (after (inner_commit w tree k)) =
     (answer_of (inner_commit w tree k), after (inner_commit w tree k), [])"
proof (cases "staged_for tree k")
  case (Some p)
  show ?thesis
  proof (cases "st_sequence p \<le> k_last_committed k")
    case True
    with Some show ?thesis by (simp add: inner_commit_claimed)
  next
    case False
    with Some have c: "inner_commit w tree k = core_publish (st_model p) (claim p k)"
      by (simp add: inner_commit_fresh)
    have "inner_commit w tree (after (core_publish (st_model p) (claim p k))) =
        (Inr (), after (core_publish (st_model p) (claim p k)), [])"
      by (rule inner_commit_claimed [of _ _ p]) (simp_all add: publish_claimed Some)
    then show ?thesis by (simp add: c core_publish_def)
  qed
next
  case None
  show ?thesis
  proof (cases "w_validate w tree")
    case (Inl e)
    have "staged_for tree (k\<lparr>k_reports := snd e\<rparr>) = None"
      using None by (simp add: staged_for_def)
    with None Inl show ?thesis by (simp add: inner_commit_refused)
  next
    case (Inr m)
    obtain p k1 where s: "staged_for tree k1 = Some p"
      and c: "inner_commit w tree k = core_publish m (claim p k1)"
      using inner_commit_restaged [OF None Inr] by blast
    have "inner_commit w tree (after (core_publish m (claim p k1))) =
        (Inr (), after (core_publish m (claim p k1)), [])"
      by (rule inner_commit_claimed [of _ _ p]) (simp_all add: publish_claimed s)
    then show ?thesis by (simp add: c core_publish_def)
  qed
qed

text \<open>What a commit may do to what Python sees: nothing, or one publication.\<close>

definition published_once ::
  "('t, 'm, 'h) core \<Rightarrow> ('h, 'm) call list \<Rightarrow> ('t, 'm, 'h) core \<Rightarrow> bool" where
  "published_once k calls k' \<longleftrightarrow>
     (\<exists>m. k_cache k' = Some m \<and> k_generation k' = Suc (k_generation k) \<and>
        calls = run_hooks (k_cache k) m k)"

definition published_nothing ::
  "('t, 'm, 'h) core \<Rightarrow> ('h, 'm) call list \<Rightarrow> ('t, 'm, 'h) core \<Rightarrow> bool" where
  "published_nothing k calls k' \<longleftrightarrow>
     k_cache k' = k_cache k \<and> k_generation k' = k_generation k \<and> calls = []"

lemma published_hooks_only:
  "k_cache k0 = k_cache k \<Longrightarrow> k_generation k0 = k_generation k \<Longrightarrow> k_hooks k0 = k_hooks k \<Longrightarrow>
   published_once k0 calls k' = published_once k calls k' \<and>
   published_nothing k0 calls k' = published_nothing k calls k'"
  by (simp add: published_once_def published_nothing_def run_hooks_def)

text \<open>The engine, the tokens, the layers and the hooks are no commit's business.\<close>

lemma inner_commit_frame [simp]:
  "k_engine (after (inner_commit w tree k)) = k_engine k"
  "k_hooks (after (inner_commit w tree k)) = k_hooks k"
  "k_prepared (after (inner_commit w tree k)) = k_prepared k"
  "k_overrides (after (inner_commit w tree k)) = k_overrides k"
  "k_closed (after (inner_commit w tree k)) = k_closed k"
  "k_next_prepared (after (inner_commit w tree k)) = k_next_prepared k"
  by (simp_all add: inner_commit_def core_validate_def core_publish_staged_def core_publish_def
      claim_def split: option.splits sum.splits prod.splits)

lemma core_publish_once: "published_once k (calls_of (core_publish m k)) (after (core_publish m k))"
  by (simp add: published_once_def core_publish_def)

lemma inner_commit_publishes:
  "published_nothing k (calls_of (inner_commit w tree k)) (after (inner_commit w tree k)) \<or>
   published_once k (calls_of (inner_commit w tree k)) (after (inner_commit w tree k))"
  by (simp add: inner_commit_def core_validate_def core_publish_staged_def core_publish_def
      claim_def published_nothing_def published_once_def run_hooks_def
      split: option.splits sum.splits prod.splits)


text \<open>So the two commit attempts of an install are one commit, first install or not.\<close>

lemma install_and_publish_one_commit:
  assumes "k_engine k = Ready srcs previous"
  shows "install_and_publish w tree k = inner_commit w tree (k\<lparr>k_engine := Ready srcs (Some tree)\<rparr>)"
proof -
  let ?k1 = "k\<lparr>k_engine := Ready srcs (Some tree)\<rparr>"
  show ?thesis
  proof (cases "previous = None")
    case True
    with assms show ?thesis
      by (simp add: install_and_publish_eq engine_install_def publish_current_def engine_current_def Let_def)
  next
    case False
    then have "engine_install w tree k = snd (inner_commit w tree ?k1)"
      by (auto simp: engine_install_def assms Let_def)
    moreover have "publish_current w (after (inner_commit w tree ?k1)) =
        inner_commit w tree (after (inner_commit w tree ?k1))"
      by (simp add: publish_current_def engine_current_def)
    ultimately show ?thesis
      by (simp add: install_and_publish_eq Let_def inner_commit_twice)
  qed
qed

lemma core_dynamic_ready: "\<exists>srcs previous. k_engine (core_dynamic k) = Ready srcs previous"
  by (simp add: core_dynamic_def split: engine.splits)

lemma core_dynamic_frame [simp]:
  "k_cache (core_dynamic k) = k_cache k" "k_generation (core_dynamic k) = k_generation k"
  "k_hooks (core_dynamic k) = k_hooks k" "k_prepared (core_dynamic k) = k_prepared k"
  "k_overrides (core_dynamic k) = k_overrides k" "k_closed (core_dynamic k) = k_closed k"
  "k_next_prepared (core_dynamic k) = k_next_prepared k"
  "k_next_sequence (core_dynamic k) = k_next_sequence k"
  "k_last_committed (core_dynamic k) = k_last_committed k"
  "k_staged (core_dynamic k) = k_staged k"
  "k_refusals (core_dynamic k) = k_refusals k"
  "engine_current (core_dynamic k) = engine_current k"
  by (simp_all add: core_dynamic_def engine_current_def split: engine.splits)

lemma core_validate_frame [simp]:
  "k_engine (snd (core_validate w tree k)) = k_engine k"
  "k_cache (snd (core_validate w tree k)) = k_cache k"
  "k_generation (snd (core_validate w tree k)) = k_generation k"
  "k_hooks (snd (core_validate w tree k)) = k_hooks k"
  "k_prepared (snd (core_validate w tree k)) = k_prepared k"
  "k_overrides (snd (core_validate w tree k)) = k_overrides k"
  "k_closed (snd (core_validate w tree k)) = k_closed k"
  "k_next_prepared (snd (core_validate w tree k)) = k_next_prepared k"
  "k_last_committed (snd (core_validate w tree k)) = k_last_committed k"
  by (simp_all add: core_validate_def split: sum.splits prod.splits)

lemma engine_load_frame [simp]:
  "k_engine (snd (engine_load w op res k)) = k_engine k"
  "k_cache (snd (engine_load w op res k)) = k_cache k"
  "k_generation (snd (engine_load w op res k)) = k_generation k"
  "k_hooks (snd (engine_load w op res k)) = k_hooks k"
  "k_prepared (snd (engine_load w op res k)) = k_prepared k"
  "k_overrides (snd (engine_load w op res k)) = k_overrides k"
  "k_closed (snd (engine_load w op res k)) = k_closed k"
  "k_next_prepared (snd (engine_load w op res k)) = k_next_prepared k"
  "k_last_committed (snd (engine_load w op res k)) = k_last_committed k"
  by (simp_all add: engine_load_def core_validate_def Let_def split: sum.splits prod.splits)

lemma engine_load_ok:
  "w_validate w tree = Inr m \<Longrightarrow> engine_load w op (Inr tree) k = (Inr tree, snd (core_validate w tree k))"
  by (simp add: engine_load_def core_validate_ok)

lemma engine_load_Inl_iff:
  "(\<exists>e. fst (engine_load w op res k) = Inl e) \<longleftrightarrow>
     (case res of Inl _ \<Rightarrow> True | Inr tree \<Rightarrow> (\<exists>e. w_validate w tree = Inl e))"
  by (auto simp: engine_load_def core_validate_def Let_def split: sum.splits)

lemma raised_frame [simp]:
  "k_engine (after (raised e k)) = k_engine k" "k_cache (after (raised e k)) = k_cache k"
  "k_generation (after (raised e k)) = k_generation k" "k_hooks (after (raised e k)) = k_hooks k"
  "k_prepared (after (raised e k)) = k_prepared k" "k_overrides (after (raised e k)) = k_overrides k"
  "k_closed (after (raised e k)) = k_closed k" "calls_of (raised e k) = []"
  "k_next_prepared (after (raised e k)) = k_next_prepared k"
  "k_last_committed (after (raised e k)) = k_last_committed k"
  "\<exists>e'. answer_of (raised e k) = Inl e'"
  by (simp_all add: raised_def core_raise_def split: core_error.splits)

subsection \<open>A load that succeeds, a load that is refused\<close>

lemma commit_just_validated:
  assumes "core_inv k" "w_validate w tree = Inr m" "k_engine k = Ready srcs previous"
  shows "install_and_publish w tree (snd (core_validate w tree k)) =
    core_publish m (claim \<lparr>st_sequence = Suc (k_next_sequence k), st_tree = tree, st_model = m\<rparr>
      ((snd (core_validate w tree k))\<lparr>k_engine := Ready srcs (Some tree)\<rparr>))"
proof -
  let ?p = "\<lparr>st_sequence = Suc (k_next_sequence k), st_tree = tree, st_model = m\<rparr>"
  let ?k1 = "(snd (core_validate w tree k))\<lparr>k_engine := Ready srcs (Some tree)\<rparr>"
  have "inner_commit w tree ?k1 = core_publish (st_model ?p) (claim ?p ?k1)"
  proof (rule inner_commit_fresh)
    show "staged_for tree ?k1 = Some ?p"
      by (simp add: staged_for_def core_validate_ok [OF assms(2)])
    show "k_last_committed ?k1 < st_sequence ?p"
      using assms(1) by (simp add: core_inv_def)
  qed
  then show ?thesis
    using install_and_publish_one_commit [of "snd (core_validate w tree k)" srcs previous w tree]
      assms(3) by simp
qed

lemma load_then_install_ok:
  fixes op :: lifecycle
  assumes "core_inv k" "w_validate w tree = Inr m"
  defines "r \<equiv> load_then_install w op (Inr tree) k"
  shows "answer_of r = Inr ()" "calls_of r = run_hooks (k_cache k) m k"
    "k_cache (after r) = Some m" "k_generation (after r) = Suc (k_generation k)"
    "engine_current (after r) = Some tree" "k_hooks (after r) = k_hooks k"
    "k_prepared (after r) = k_prepared k" "k_overrides (after r) = k_overrides k"
proof -
  obtain srcs previous where e: "k_engine (core_dynamic k) = Ready srcs previous"
    using core_dynamic_ready by blast
  have "core_inv (core_dynamic k)" using assms(1) by simp
  from commit_just_validated [OF this assms(2) e]
  have r: "r = core_publish m (claim \<lparr>st_sequence = Suc (k_next_sequence k), st_tree = tree, st_model = m\<rparr>
      ((snd (core_validate w tree (core_dynamic k)))\<lparr>k_engine := Ready srcs (Some tree)\<rparr>))"
    by (simp add: r_def load_then_install_def engine_load_ok [OF assms(2)])
  show "answer_of r = Inr ()" "calls_of r = run_hooks (k_cache k) m k"
    "k_cache (after r) = Some m" "k_generation (after r) = Suc (k_generation k)"
    "engine_current (after r) = Some tree" "k_hooks (after r) = k_hooks k"
    "k_prepared (after r) = k_prepared k" "k_overrides (after r) = k_overrides k"
    by (simp_all add: r core_publish_def claim_def engine_current_def run_hooks_def)
qed

lemma load_then_install_refused:
  fixes op :: lifecycle and k :: "('t, 'm, 'h) core"
  assumes "case res of Inl _ \<Rightarrow> True | Inr tree \<Rightarrow> (\<exists>e. w_validate w tree = Inl e)"
  defines "r \<equiv> load_then_install w op res k"
  shows "\<exists>e. answer_of r = Inl e" "calls_of r = []" "k_cache (after r) = k_cache k"
    "k_generation (after r) = k_generation k" "engine_current (after r) = engine_current k"
    "k_hooks (after r) = k_hooks k" "k_last_committed (after r) = k_last_committed k"
    "k_prepared (after r) = k_prepared k" "k_overrides (after r) = k_overrides k"
proof -
  obtain e k1 where l: "engine_load w op res (core_dynamic k) = (Inl e, k1)"
    using assms(1) engine_load_Inl_iff [of w op res "core_dynamic k"] by (metis prod.collapse)
  then have k1: "k1 = snd (engine_load w op res (core_dynamic k))" by simp
  have r: "r = raised e k1" by (simp add: r_def load_then_install_def l)
  show "\<exists>e. answer_of r = Inl e" by (simp add: r)
  show "calls_of r = []" "k_cache (after r) = k_cache k"
    "k_generation (after r) = k_generation k"
    "k_hooks (after r) = k_hooks k" "k_last_committed (after r) = k_last_committed k"
    "k_prepared (after r) = k_prepared k" "k_overrides (after r) = k_overrides k"
    by (simp_all add: r k1)
  have "engine_current k1 = engine_current (core_dynamic k)"
    using k1 by (simp add: engine_current_def)
  then show "engine_current (after r) = engine_current k"
    by (simp add: r engine_current_def) (simp add: core_dynamic_def split: engine.splits)
qed


subsection \<open>Prepared commits\<close>

lemma core_prepare_ok:
  assumes "w_validate w tree = Inr m"
  shows "core_prepare w (Inr tree) k =
    (let k1 = snd (core_validate w tree (core_dynamic k)) in
     (Inr (k_next_prepared k),
      k1\<lparr>k_next_prepared := Suc (k_next_prepared k),
         k_prepared := k_prepared k @ [(k_next_prepared k, tree)]\<rparr>, []))"
  by (simp add: core_prepare_def engine_load_ok [OF assms] Let_def)

lemma core_prepare_refused:
  assumes "case res of Inl _ \<Rightarrow> True | Inr tree \<Rightarrow> (\<exists>e. w_validate w tree = Inl e)"
  shows "\<exists>e k1. core_prepare w res k = raised e k1 \<and> k1 = snd (engine_load w Op_prepare res (core_dynamic k))"
proof -
  obtain e k1 where l: "engine_load w Op_prepare res (core_dynamic k) = (Inl e, k1)"
    using assms engine_load_Inl_iff [of w Op_prepare res "core_dynamic k"] by (metis prod.collapse)
  then show ?thesis by (simp add: core_prepare_def) blast
qed

lemma fresh_token: "core_inv k \<Longrightarrow> k_next_prepared k \<notin> fst ` set (k_prepared k)"
  by (auto simp: core_inv_def)

lemma filter_fresh_token:
  "t \<notin> fst ` set xs \<Longrightarrow> filter (\<lambda>(u, _). u \<noteq> t) xs = xs"
  by (induction xs) auto

lemma map_of_fresh_token:
  "t \<notin> fst ` set xs \<Longrightarrow> ([t \<mapsto> x] ++ map_of xs) t = Some x"
  by (induction xs) auto

lemma core_inv_prepare: "core_inv k \<Longrightarrow> core_inv (after (core_prepare w res k))"
proof -
  assume inv: "core_inv k"
  have l: "core_inv (snd (engine_load w Op_prepare res (core_dynamic k)))"
    using inv by (simp add: core_inv_engine_load)
  show ?thesis
  proof (cases "engine_load w Op_prepare res (core_dynamic k)")
    case (Pair r k1)
    with l have k1: "core_inv k1" by simp
    then show ?thesis
      using Pair by (cases r)
        (auto simp: core_prepare_def core_inv_raised, auto simp: core_inv_def less_Suc_eq)
  qed
qed

lemma core_inv_core_commit: "core_inv k \<Longrightarrow> core_inv (after (core_commit w token k))"
  by (simp add: core_commit_def core_inv_install_and_publish core_inv_drop split: option.splits)

lemma core_inv_load: "core_inv k \<Longrightarrow> core_inv (after (core_load w res k))"
proof -
  assume inv: "core_inv k"
  have l: "core_inv (snd (engine_load w Op_load res (core_dynamic k)))"
    using inv by (simp add: core_inv_engine_load)
  show ?thesis
  proof (cases "engine_load w Op_load res (core_dynamic k)")
    case (Pair r k1)
    with l have k1: "core_inv k1" by simp
    show ?thesis
    proof (cases r)
      case (Inl e)
      with Pair k1 show ?thesis by (simp add: core_load_def core_inv_raised)
    next
      case (Inr tree)
      with Pair k1 core_inv_validate [OF k1, of w tree] show ?thesis
        by (auto simp: core_load_def split: option.splits sum.splits prod.splits)
    qed
  qed
qed

lemma core_load_after:
  "let k1 = snd (engine_load w Op_load res (core_dynamic k)) in
     (\<exists>e. snd (core_load w res k) = snd (raised e k1 :: ('m, 't, 'm, 'h) answer)) \<or>
     snd (core_load w res k) = (k1, []) \<or>
     (\<exists>tree. snd (core_load w res k) = (snd (core_validate w tree k1), []))"
proof -
  obtain r k1 where l: "engine_load w Op_load res (core_dynamic k) = (r, k1)" by fastforce
  show ?thesis
  proof (cases r)
    case (Inl e)
    with l show ?thesis by (auto simp: core_load_def)
  next
    case (Inr tree)
    show ?thesis
    proof (cases "staged_for tree k1")
      case None
      then show ?thesis
        using l Inr by (cases "core_validate w tree k1")
          (auto simp: core_load_def split: sum.splits option.splits intro!: exI [of _ tree])
    next
      case (Some p)
      with l Inr show ?thesis by (simp add: core_load_def)
    qed
  qed
qed

lemma core_load_frame [simp]:
  "calls_of (core_load w res k) = []" "k_cache (after (core_load w res k)) = k_cache k"
  "k_generation (after (core_load w res k)) = k_generation k"
  using core_load_after [of w res k] by (auto simp: Let_def)

subsection \<open>Every operation as a step\<close>

inductive core_step ::
  "('t, 'm) world \<Rightarrow> ('t, 'm, 'h) core \<Rightarrow> ('h, 'm) call list \<Rightarrow> ('t, 'm, 'h) core \<Rightarrow> bool" for w where
  step_configure: "core_step w k [] (after (core_configure src k))"
| step_init: "core_step w k (calls_of (core_init w res k)) (after (core_init w res k))"
| step_reload: "core_step w k (calls_of (core_reload w res k)) (after (core_reload w res k))"
| step_load: "core_step w k (calls_of (core_load w res k)) (after (core_load w res k))"
| step_prepare: "core_step w k (calls_of (core_prepare w res k)) (after (core_prepare w res k))"
| step_commit: "core_step w k (calls_of (core_commit w token k)) (after (core_commit w token k))"
| step_discard: "core_step w k [] (core_discard token k)"
| step_replace: "core_step w k (calls_of (core_replace m k)) (after (core_replace m k))"
| step_watch: "core_step w k (calls_of (core_watch_reload w res k)) (after (core_watch_reload w res k))"
| step_on_reload: "core_step w k [] (snd (core_on_reload h k))"
| step_remove_hook: "core_step w k [] (snd (core_remove_hook token k))"
| step_set_default: "core_step w k [] (after (core_set_default refuses path v k))"
| step_set_override: "core_step w k [] (after (core_set_override refuses path v k))"
| step_clear_overrides: "core_step w k [] (core_clear_overrides k)"
| step_set_defaults: "core_step w k [] (after (core_set_defaults spreads v k))"
| step_set_assignments: "core_step w k [] (after (core_set_assignments parses strings k))"
| step_clear_defaults: "core_step w k [] (core_clear_defaults k)"
| step_clear_assignments: "core_step w k [] (core_clear_assignments k)"
| step_bind_env: "core_step w k [] (after (core_bind_env binds path var k))"
| step_alias: "core_step w k [] (after (core_alias names old new k))"
| step_ask: "core_step w k [] (after (core_ask (outcome :: (core_error, unit) result) k))"

inductive core_reach ::
  "('t, 'm) world \<Rightarrow> ('t, 'm, 'h) core \<Rightarrow> bool" for w where
  core_here: "core_reach w (core_new key secrets names)"
| core_next: "core_reach w k \<Longrightarrow> core_step w k calls k' \<Longrightarrow> core_reach w k'"

definition publishes :: "('t, 'm, 'h) core \<Rightarrow> ('h, 'm) call list \<Rightarrow> ('t, 'm, 'h) core \<Rightarrow> bool" where
  "publishes k calls k' \<longleftrightarrow> published_nothing k calls k' \<or> published_once k calls k'"

lemma publishes_same_view:
  "k_cache k0 = k_cache k \<Longrightarrow> k_generation k0 = k_generation k \<Longrightarrow> k_hooks k0 = k_hooks k \<Longrightarrow>
   publishes k0 calls k' = publishes k calls k'"
  by (simp add: publishes_def published_nothing_def published_once_def run_hooks_def)

lemma publishes_nothing:
  "k_cache k' = k_cache k \<Longrightarrow> k_generation k' = k_generation k \<Longrightarrow> publishes k [] k'"
  by (simp add: publishes_def published_nothing_def)

lemma publishes_inner_commit:
  "publishes k (calls_of (inner_commit w tree k)) (after (inner_commit w tree k))"
  using inner_commit_publishes [of k w tree] by (simp add: publishes_def)

lemma publishes_install_and_publish:
  "k_engine k = Ready srcs previous \<Longrightarrow>
   publishes k (calls_of (install_and_publish w tree k)) (after (install_and_publish w tree k))"
  using publishes_inner_commit [of "k\<lparr>k_engine := Ready srcs (Some tree)\<rparr>" w tree]
  by (simp add: install_and_publish_one_commit publishes_def published_nothing_def
      published_once_def run_hooks_def)

lemma publishes_load_then_install:
  "publishes k (calls_of (load_then_install w op res k)) (after (load_then_install w op res k))"
proof -
  obtain srcs previous where e: "k_engine (core_dynamic k) = Ready srcs previous"
    using core_dynamic_ready by blast
  obtain r k1 where l: "engine_load w op res (core_dynamic k) = (r, k1)" by fastforce
  then have k1: "k_engine k1 = Ready srcs previous" "k_cache k1 = k_cache k"
    "k_generation k1 = k_generation k" "k_hooks k1 = k_hooks k"
    using engine_load_frame [of w op res "core_dynamic k"] e by simp_all
  show ?thesis
  proof (cases r)
    case (Inl e)
    with l k1 show ?thesis by (simp add: load_then_install_def publishes_nothing)
  next
    case (Inr tree)
    with l publishes_install_and_publish [OF k1(1), of w tree] publishes_same_view [OF k1(2-4)]
    show ?thesis by (simp add: load_then_install_def)
  qed
qed


lemma publishes_install:
  "publishes k (calls_of (install_and_publish w tree k)) (after (install_and_publish w tree k))"
proof (cases "k_engine k")
  case (Building srcs)
  then show ?thesis
    by (simp add: install_and_publish_eq engine_install_def publish_current_def engine_current_def
        Let_def publishes_nothing)
next
  case (Ready srcs previous)
  then show ?thesis by (rule publishes_install_and_publish)
qed

lemma publishes_core_commit:
  "publishes k (calls_of (core_commit w token k)) (after (core_commit w token k))"
proof (cases "map_of (k_prepared k) token")
  case None
  then show ?thesis by (simp add: core_commit_def publishes_nothing)
next
  case (Some tree)
  have "publishes (drop_prepared token k) calls k' = publishes k calls k'" for calls k'
    by (rule publishes_same_view) (simp_all add: drop_prepared_def)
  with Some publishes_install [of "drop_prepared token k" w tree] show ?thesis
    by (simp add: core_commit_def)
qed

lemma publishes_engine_install:
  "publishes k (snd (engine_install w tree k)) (fst (engine_install w tree k))"
proof (cases "k_engine k")
  case (Building srcs)
  then show ?thesis by (simp add: engine_install_def publishes_nothing)
next
  case (Ready srcs previous)
  let ?k1 = "k\<lparr>k_engine := Ready srcs (Some tree)\<rparr>"
  have "publishes ?k1 calls k' = publishes k calls k'" for calls k'
    by (rule publishes_same_view) simp_all
  with Ready publishes_inner_commit [of ?k1 w tree] show ?thesis
    by (simp add: engine_install_def Let_def publishes_nothing)
qed

lemma publishes_watch:
  "publishes k (calls_of (core_watch_reload w res k)) (after (core_watch_reload w res k))"
proof -
  obtain r k1 where l: "engine_load w Op_watch res (core_dynamic k) = (r, k1)" by fastforce
  then have k1: "k_cache k1 = k_cache k" "k_generation k1 = k_generation k" "k_hooks k1 = k_hooks k"
    using engine_load_frame [of w Op_watch res "core_dynamic k"] by simp_all
  show ?thesis
  proof (cases r)
    case (Inl e)
    with l k1 show ?thesis by (simp add: core_watch_reload_def publishes_nothing)
  next
    case (Inr tree)
    with l publishes_engine_install [of k1 w tree] publishes_same_view [OF k1]
    show ?thesis by (simp add: core_watch_reload_def)
  qed
qed

lemma publishes_prepare:
  "publishes k (calls_of (core_prepare w res k)) (after (core_prepare w res k))"
proof -
  obtain r k1 where l: "engine_load w Op_prepare res (core_dynamic k) = (r, k1)" by fastforce
  then have k1: "k_cache k1 = k_cache k" "k_generation k1 = k_generation k"
    using engine_load_frame [of w Op_prepare res "core_dynamic k"] by simp_all
  show ?thesis
    using l k1 by (cases r) (simp_all add: core_prepare_def publishes_nothing)
qed

lemmas layer_defs = core_set_defaults_def core_set_assignments_def core_clear_defaults_def
  core_clear_assignments_def core_bind_env_def core_alias_def

lemma core_step_publishes: "core_step w k calls k' \<Longrightarrow> publishes k calls k'"
proof (induction rule: core_step.induct)
  case (step_init k res)
  show ?case by (simp add: core_init_def publishes_load_then_install)
next
  case (step_reload k res)
  show ?case by (simp add: core_reload_def publishes_load_then_install)
next
  case (step_replace k m)
  show ?case using core_publish_once [of k m] by (simp add: core_replace_def publishes_def)
qed (simp_all add: publishes_prepare publishes_core_commit publishes_watch publishes_nothing
      core_configure_def core_discard_def drop_prepared_def core_on_reload_def
      core_remove_hook_def Let_def core_set_default_def core_set_override_def
      core_clear_overrides_def layer_defs core_ask_def split_def
      split: engine.splits option.splits sum.splits)

lemma engine_install_frame [simp]:
  "k_prepared (fst (engine_install w tree k)) = k_prepared k"
  "k_hooks (fst (engine_install w tree k)) = k_hooks k"
  "(\<exists>srcs previous. k_engine (fst (engine_install w tree k)) = Ready srcs previous) =
     (\<exists>srcs previous. k_engine k = Ready srcs previous)"
  by (auto simp: engine_install_def Let_def split: engine.splits)

lemma core_inv_hooks:
  "core_inv k \<Longrightarrow> core_inv (snd (core_on_reload h k))"
  "core_inv k \<Longrightarrow> core_inv (snd (core_remove_hook token k))"
  by (auto simp: core_inv_def core_on_reload_def core_remove_hook_def Let_def less_Suc_eq
      intro!: distinct_map_filter)

lemma core_inv_watch: "core_inv k \<Longrightarrow> core_inv (after (core_watch_reload w res k))"
  using core_inv_engine_load [of "core_dynamic k" w Op_watch res]
  by (cases "engine_load w Op_watch res (core_dynamic k)")
    (auto simp: core_watch_reload_def core_inv_install split: sum.splits)

lemma core_inv_step: "core_step w k calls k' \<Longrightarrow> core_inv k \<Longrightarrow> core_inv k'"
  by (induction rule: core_step.induct)
    (simp_all add: core_init_def core_reload_def core_inv_load_then_install core_inv_load
      core_inv_prepare core_inv_core_commit core_discard_def core_inv_drop core_inv_watch core_inv_hooks,
     simp_all add: core_configure_def core_replace_def core_publish_def core_set_default_def
      core_set_override_def core_clear_overrides_def layer_defs core_ask_def core_inv_raised Let_def split_def
      split: engine.splits option.splits sum.splits)


text \<open>Loading, installing and committing leave the registrations and the layers alone.\<close>

definition registrations :: "('t, 'm, 'h) core \<Rightarrow> (nat \<times> 'h) list \<times> nat \<times> (string \<times> 't) list" where
  "registrations k = (k_hooks k, k_next_hook k, k_overrides k)"

lemma registrations_update [simp]:
  "registrations (k\<lparr>k_engine := e\<rparr>) = registrations k"
  "registrations (core_dynamic k) = registrations k"
  "registrations (snd (core_validate w tree k)) = registrations k"
  "registrations (after (core_publish m k)) = registrations k"
  "registrations (claim p k) = registrations k"
  "registrations (after (raised err k)) = registrations k"
  "registrations (drop_prepared token k) = registrations k"
  by (simp_all add: registrations_def core_dynamic_def core_validate_def core_publish_def claim_def
      raised_def core_raise_def drop_prepared_def
      split: engine.splits sum.splits prod.splits core_error.splits)

lemma registrations_commit [simp]: "registrations (after (inner_commit w tree k)) = registrations k"
  by (simp add: inner_commit_def core_validate_def core_publish_staged_def core_publish_def claim_def
      registrations_def split: option.splits sum.splits prod.splits)

lemma registrations_load [simp]: "registrations (snd (engine_load w op res k)) = registrations k"
  by (simp add: engine_load_def core_validate_def Let_def registrations_def split: sum.splits prod.splits)

lemma registrations_install [simp]:
  "registrations (fst (engine_install w tree k)) = registrations k"
  "registrations (after (publish_current w k)) = registrations k"
  "registrations (after (install_and_publish w tree k)) = registrations k"
proof -
  show i: "registrations (fst (engine_install w tree k)) = registrations k" for k
    by (simp add: engine_install_def Let_def split: engine.splits)
  show p: "registrations (after (publish_current w k)) = registrations k" for k
    by (simp add: publish_current_def split: option.splits)
  show "registrations (after (install_and_publish w tree k)) = registrations k"
    by (simp add: install_and_publish_eq Let_def i p)
qed

lemma registrations_operation [simp]:
  "registrations (after (core_init w res k)) = registrations k"
  "registrations (after (core_reload w res k)) = registrations k"
  "registrations (after (core_load w res k)) = registrations k"
  "registrations (after (core_replace m k)) = registrations k"
  "registrations (after (core_watch_reload w res k)) = registrations k"
proof -
  have l: "registrations (snd (engine_load w op res (core_dynamic k))) = registrations k" for op by simp
  have "registrations (after (load_then_install w op res k)) = registrations k" for op
    using l [of op] by (cases "engine_load w op res (core_dynamic k)")
      (auto simp: load_then_install_def split: sum.splits)
  then show "registrations (after (core_init w res k)) = registrations k"
    "registrations (after (core_reload w res k)) = registrations k"
    by (simp_all add: core_init_def core_reload_def)
  show "registrations (after (core_load w res k)) = registrations k"
    using core_load_after [of w res k] l by (auto simp: Let_def)
  show "registrations (after (core_replace m k)) = registrations k"
    by (simp add: core_replace_def)
  show "registrations (after (core_watch_reload w res k)) = registrations k"
    using l [of Op_watch] by (cases "engine_load w Op_watch res (core_dynamic k)")
      (auto simp: core_watch_reload_def split: sum.splits)
qed

lemma core_ask_after: "after (core_ask (map_sum id f outcome) k) = after (core_ask outcome k)"
  by (cases outcome) (simp_all add: core_ask_def raised_def)

lemma core_step_ask: "core_step w k (calls_of (core_ask outcome k)) (after (core_ask outcome k))"
  using step_ask [of w k "map_sum id (\<lambda>_. ()) outcome"]
  by (cases outcome) (simp_all add: core_ask_def raised_def)

lemma registrations_ask [simp]: "registrations (after (core_ask outcome k)) = registrations k"
  by (cases outcome) (simp_all add: core_ask_def)

lemma core_inv_reach: "core_reach w k \<Longrightarrow> core_inv k"
  by (induction rule: core_reach.induct) (simp_all add: core_inv_step)

subsection \<open>Properties\<close>

text \<open>C1: From every reachable state, \<open>init\<close> or \<open>reload\<close> of a document that validates succeeds and
  publishes exactly once: one generation, one call of each hook in registration order with the
  outgoing model and the new one, and the engine's snapshot, the cache and the hooks agree; no
  prepared commit or override is touched.\<close>

theorem reload_publishes_exactly_once:
  assumes "core_reach w k" "w_validate w tree = Inr m"
    "r = core_init w (Inr tree) k \<or> r = core_reload w (Inr tree) k"
  shows "answer_of r = Inr () \<and> calls_of r = map (\<lambda>(_, h). (h, k_cache k, m)) (k_hooks k) \<and>
    k_generation (after r) = k_generation k + 1 \<and> k_cache (after r) = Some m \<and>
    engine_current (after r) = Some tree \<and> k_hooks (after r) = k_hooks k \<and>
    k_prepared (after r) = k_prepared k \<and> k_overrides (after r) = k_overrides k"
proof -
  obtain op where r: "r = load_then_install w op (Inr tree) k"
    using assms(3) by (auto simp: core_init_def core_reload_def)
  show ?thesis
    using load_then_install_ok [OF core_inv_reach [OF assms(1)] assms(2), of op]
    by (simp add: r run_hooks_def)
qed

definition sample_world :: "(nat, nat) world" where
  "sample_world = \<lparr>w_validate = (\<lambda>t. if t < 100 then Inr (t + 1) else Inl (''too big'', Some [''t''])),
                   w_announces = (\<lambda>op. op = Op_reload)\<rparr>"

definition sample_core :: "(nat, nat, string) core" where
  "sample_core = after (core_init sample_world (Inr 5)
     (snd (core_on_reload ''publish'' (core_new ''db'' (Some []) [''port'']))))"

lemma sample_core_reach: "core_reach sample_world sample_core"
  unfolding sample_core_def
  by (rule core_next [OF core_next [OF core_here step_on_reload] step_init])

lemmas core_evals =
  sample_world_def sample_core_def core_init_def core_reload_def load_then_install_def
  engine_load_def core_validate_def install_and_publish_eq engine_install_def publish_current_def
  Let_def engine_current_def core_dynamic_def core_new_def core_on_reload_def inner_commit_def
  staged_for_def core_publish_staged_def core_publish_def claim_def run_hooks_def core_prepare_def

lemma sample_reload:
  "k_generation (after (core_reload sample_world (Inr 7) sample_core)) = 2"
  "k_generation sample_core = 1" "k_hooks sample_core = [(1, ''publish'')]"
  "k_cache sample_core = Some 6"
  by (simp_all add: core_evals)

theorem reload_publishes_exactly_once_witness:
  "let r = core_reload sample_world (Inr 7) sample_core in
     answer_of r = Inr () \<and> calls_of r = [(''publish'', Some 6, 8)] \<and> k_generation (after r) = 2"
  using reload_publishes_exactly_once [OF sample_core_reach, of 7 8
      "core_reload sample_world (Inr 7) sample_core"]
  by (simp add: sample_reload Let_def sample_world_def)

text \<open>An \<open>init\<close> or \<open>reload\<close> that the sources or the schema refuse raises and changes nothing a
  reader sees: no hook runs, and the cache, the generation, the engine's snapshot, the hooks and
  the last committed sequence stay.\<close>

theorem refused_reload_changes_nothing:
  assumes "case res of Inl _ \<Rightarrow> True | Inr tree \<Rightarrow> (\<exists>e. w_validate w tree = Inl e)"
    "r = core_init w res k \<or> r = core_reload w res k"
  shows "(\<exists>e. answer_of r = Inl e) \<and> calls_of r = [] \<and> k_cache (after r) = k_cache k \<and>
    k_generation (after r) = k_generation k \<and> engine_current (after r) = engine_current k \<and>
    k_hooks (after r) = k_hooks k \<and> k_last_committed (after r) = k_last_committed k"
proof -
  obtain op where r: "r = load_then_install w op res k"
    using assms(2) by (auto simp: core_init_def core_reload_def)
  show ?thesis using load_then_install_refused [OF assms(1), of op k] by (simp add: r)
qed

theorem refused_reload_changes_nothing_witness:
  "let r = core_reload sample_world (Inr 500) sample_core in
     (\<exists>e. answer_of r = Inl e) \<and> k_cache (after r) = k_cache sample_core"
  using refused_reload_changes_nothing [where res = "Inr 500" and w = sample_world and
      r = "core_reload sample_world (Inr 500) sample_core" and k = sample_core]
  by (simp add: sample_world_def Let_def)

text \<open>Publishing is atomic for every operation of the native object, whatever its outcome: it
  either leaves the cache and the generation alone and calls no hook, or stores one model, adds
  one to the generation and calls each registered hook once with the outgoing model.\<close>

theorem every_step_publishes_at_most_once:
  assumes "core_step w k calls k'"
  shows "k_cache k' = k_cache k \<and> k_generation k' = k_generation k \<and> calls = [] \<or>
    (\<exists>m. k_cache k' = Some m \<and> k_generation k' = k_generation k + 1 \<and>
       calls = map (\<lambda>(_, h). (h, k_cache k, m)) (k_hooks k))"
  using core_step_publishes [OF assms]
  by (simp add: publishes_def published_nothing_def published_once_def run_hooks_def)

theorem every_step_publishes_at_most_once_witness:
  "let r = core_reload sample_world (Inr 7) sample_core in
     \<exists>m. k_cache (after r) = Some m \<and> calls_of r = [(''publish'', Some 6, m)] \<and> k_generation (after r) = 2"
  using every_step_publishes_at_most_once [OF step_reload [of sample_world sample_core "Inr 7"]]
  by (auto simp: sample_reload Let_def)

text \<open>The claim on the sequence number makes a commit idempotent: committing the same tree
  again answers the same, changes nothing further and calls no hook, which is how the engine's
  hook and the explicit commit after an install are one publication.\<close>

theorem commit_is_idempotent:
  "let first = inner_commit w tree k; second = inner_commit w tree (after first) in
     answer_of second = answer_of first \<and> after second = after first \<and> calls_of second = []"
  by (simp add: inner_commit_twice Let_def)

text \<open>C4: Preparing a document and committing the token is a reload: the same answer, hook calls,
  cache, generation and engine snapshot, and the token is spent.\<close>

theorem prepare_then_commit_is_reload:
  assumes "core_reach w k" "w_validate w tree = Inr m" "p = core_prepare w (Inr tree) k"
    "answer_of p = Inr token" "c = core_commit w token (after p)" "r = core_reload w (Inr tree) k"
  shows "calls_of p = [] \<and> k_cache (after p) = k_cache k \<and> k_generation (after p) = k_generation k \<and>
    answer_of c = answer_of r \<and> calls_of c = calls_of r \<and> k_cache (after c) = k_cache (after r) \<and>
    k_generation (after c) = k_generation (after r) \<and>
    engine_current (after c) = engine_current (after r) \<and> k_prepared (after c) = k_prepared k"
proof -
  let ?k1 = "snd (core_validate w tree (core_dynamic k))"
  have inv: "core_inv k" by (rule core_inv_reach [OF assms(1)])
  obtain srcs previous where e: "k_engine (core_dynamic k) = Ready srcs previous"
    using core_dynamic_ready by blast
  have p: "after p = ?k1\<lparr>k_next_prepared := Suc (k_next_prepared k),
      k_prepared := k_prepared k @ [(k_next_prepared k, tree)]\<rparr>" "calls_of p = []"
    "token = k_next_prepared k"
    using assms(3,4) by (simp_all add: core_prepare_ok [OF assms(2)] Let_def)
  let ?k2 = "?k1\<lparr>k_next_prepared := Suc (k_next_prepared k), k_prepared := k_prepared k\<rparr>"
  have k2: "drop_prepared token (after p) = ?k2"
    by (simp add: drop_prepared_def p filter_fresh_token fresh_token [OF inv])
  have "c = install_and_publish w tree ?k2"
    using k2 by (simp add: assms(5) core_commit_def p map_of_fresh_token fresh_token [OF inv])
  also have "\<dots> = inner_commit w tree (?k2\<lparr>k_engine := Ready srcs (Some tree)\<rparr>)"
    by (rule install_and_publish_one_commit) (simp add: e)
  also have "\<dots> = core_publish m
      (claim \<lparr>st_sequence = Suc (k_next_sequence k), st_tree = tree, st_model = m\<rparr>
        (?k2\<lparr>k_engine := Ready srcs (Some tree)\<rparr>))"
    using inv by (subst inner_commit_fresh
        [of _ _ "\<lparr>st_sequence = Suc (k_next_sequence k), st_tree = tree, st_model = m\<rparr>"])
      (simp_all add: staged_for_def core_validate_ok [OF assms(2)] core_inv_def)
  finally have c: "c = \<dots>" .
  show ?thesis
    using load_then_install_ok [OF inv assms(2), of Op_reload]
    by (simp add: assms(6) core_reload_def c p core_publish_def claim_def run_hooks_def
        engine_current_def core_validate_ok [OF assms(2)])
qed

theorem prepare_then_commit_is_reload_witness:
  "let p = core_prepare sample_world (Inr 7) sample_core; c = core_commit sample_world 1 (after p) in
     calls_of c = calls_of (core_reload sample_world (Inr 7) sample_core) \<and> k_cache (after p) = Some 6"
  using prepare_then_commit_is_reload [OF sample_core_reach, of 7 8 _ 1 _ _, OF _ refl _ refl refl]
  by (simp add: core_evals)

text \<open>A watcher's reload that is the first install of all reaches the engine and not Python:
  the engine's hook is not called for a first install and nothing else commits, so the document
  is in force in the engine while the cache stays empty and the generation zero.\<close>

theorem first_watched_install_is_not_published:
  assumes "w_validate w tree = Inr m" "engine_current k = None"
  shows "engine_current (after (core_watch_reload w (Inr tree) k)) = Some tree \<and>
    calls_of (core_watch_reload w (Inr tree) k) = [] \<and>
    k_cache (after (core_watch_reload w (Inr tree) k)) = k_cache k \<and>
    k_generation (after (core_watch_reload w (Inr tree) k)) = k_generation k"
proof -
  have "\<exists>srcs. k_engine (core_dynamic k) = Ready srcs None"
    using assms(2) by (auto simp: core_dynamic_def engine_current_def split: engine.splits)
  then obtain srcs where e: "k_engine (snd (core_validate w tree (core_dynamic k))) = Ready srcs None"
    by auto
  show ?thesis
    using e by (simp add: core_watch_reload_def engine_load_ok [OF assms(1)] engine_install_def
        engine_current_def Let_def)
qed

theorem first_watched_install_is_not_published_witness:
  "let r = core_watch_reload sample_world (Inr 5) (core_new ''db'' None [] :: (nat, nat, string) core) in
     engine_current (after r) = Some 5 \<and> k_cache (after r) = None"
  using first_watched_install_is_not_published
    [of sample_world 5 6 "core_new ''db'' None [] :: (nat, nat, string) core"]
  by (simp add: sample_world_def core_new_def engine_current_def Let_def)

end
