(* ===== verification/Lifetime.thy ===== *)
theory Lifetime
  imports Core Dispatch
begin

section \<open>Handles and the sweep at exit: \<open>_lifetime.py\<close>\<close>

text \<open>
  \<open>Watch\<close> wraps the native handle of \<open>handles.rs\<close>, which is there until it is stopped or
  detached. \<open>HookGuard\<close> holds a token of the native object and the hook. The two weak sets of
  live objects are lists; the watches are named by their place in the list, and a stop or a
  release may raise, which the sweep suppresses. The finalization gate is a flag: once closed,
  no background thread reaches Python.
\<close>

subsection \<open>Watch\<close>

datatype watch = Watching | Stopped | Detached

definition watch_running :: "watch \<Rightarrow> bool" where
  "watch_running self \<longleftrightarrow> self = Watching"

definition watch_stop :: "watch \<Rightarrow> watch" where
  "watch_stop self = (if self = Watching then Stopped else self)"

definition watch_detach :: "watch \<Rightarrow> watch" where
  "watch_detach self = (if self = Watching then Detached else self)"

definition watch_enter :: "watch \<Rightarrow> watch" where
  "watch_enter self = self"

definition watch_exit :: "watch \<Rightarrow> watch" where
  "watch_exit self = watch_stop self"

lemma watch_stop_idem [simp]: "watch_stop (watch_stop self) = watch_stop self"
  by (simp add: watch_stop_def)

lemma watch_stop_not_running [simp]: "\<not> watch_running (watch_stop self)"
  by (simp add: watch_running_def watch_stop_def)

lemma watch_stop_detached [simp]: "watch_stop Detached = Detached"
  by (simp add: watch_stop_def)

subsection \<open>HookGuard\<close>

record 'w guard =
  hg_token :: nat
  hg_hook :: "'w option"

definition guard_close :: "'w guard \<Rightarrow> ('t, 'm, 'h) core \<Rightarrow> ('t, 'm, 'h) core" where
  "guard_close self k = snd (core_remove_hook (hg_token self) k)"

definition guard_exit :: "'w guard \<Rightarrow> ('t, 'm, 'h) core \<Rightarrow> ('t, 'm, 'h) core" where
  "guard_exit self k = guard_close self k"

definition guard_repr :: "'w guard \<Rightarrow> string" where
  "guard_repr self = ''<HookGuard token='' @ str_of_nat (hg_token self) @ ''>''"

text \<open>Closing is idempotent and removes the one registration it is about.\<close>

lemma guard_close_twice: "guard_close g (guard_close g k) = guard_close g k"
  by (simp add: guard_close_def core_remove_hook_def Let_def)

lemma guard_close_hooks:
  "k_hooks (guard_close g k) = filter (\<lambda>(t, _). t \<noteq> hg_token g) (k_hooks k)"
  by (simp add: guard_close_def core_remove_hook_def Let_def)

lemma on_reload_then_close:
  assumes "core_inv k"
  shows "k_hooks (guard_close \<lparr>hg_token = fst (core_on_reload h k), hg_hook = w\<rparr>
    (snd (core_on_reload h k))) = k_hooks k"
proof -
  have "k_next_hook k \<notin> fst ` set (k_hooks k)" using assms by (auto simp: core_inv_def)
  then show ?thesis
    by (simp add: guard_close_hooks core_on_reload_def filter_fresh_token)
qed

subsection \<open>The sweep\<close>

record ('t, 'm, 'h) process =
  p_gate_closed :: bool
  p_watches :: "watch list"
  p_configs :: "('t, 'm, 'h) core list"

definition register_watch :: "watch \<Rightarrow> ('t, 'm, 'h) process \<Rightarrow> ('t, 'm, 'h) process" where
  "register_watch live p = p\<lparr>p_watches := p_watches p @ [live]\<rparr>"

definition register_config :: "('t, 'm, 'h) core \<Rightarrow> ('t, 'm, 'h) process \<Rightarrow> ('t, 'm, 'h) process" where
  "register_config live p = p\<lparr>p_configs := p_configs p @ [live]\<rparr>"

text \<open>A background reload reaches Python only through the gate.\<close>

definition delivers :: "('t, 'm, 'h) process \<Rightarrow> watch \<Rightarrow> bool" where
  "delivers p live \<longleftrightarrow> \<not> p_gate_closed p \<and> live \<noteq> Stopped"

definition release_everything ::
  "(watch \<Rightarrow> bool) \<Rightarrow> ('t, 'm, 'h) process \<Rightarrow> ('t, 'm, 'h) process" where
  "release_everything stop_raises p =
     p\<lparr>p_gate_closed := True,
       p_watches := map (\<lambda>live. if stop_raises live then live else watch_stop live) (p_watches p),
       p_configs := map core_release (p_configs p)\<rparr>"

subsection \<open>Properties\<close>

text \<open>After the exit sweep no watcher delivers a reload, detached ones and ones whose
  \<open>stop()\<close> raised included, and every registered configuration has dropped its model, its hooks
  and its prepared commits and has woken its waiters, who are told there is nothing to read.\<close>

theorem exit_sweep_is_total:
  "list_all (\<lambda>live. \<not> delivers (release_everything stop_raises p) live)
     (p_watches (release_everything stop_raises p)) \<and>
   list_all (\<lambda>k. k_cache k = None \<and> k_hooks k = [] \<and> k_prepared k = [] \<and>
       wait_ready seen k \<and> wait_answer seen k = None)
     (p_configs (release_everything stop_raises p))"
  by (auto simp: release_everything_def delivers_def core_release_def wait_ready_def wait_answer_def
      list_all_iff)

text \<open>A guard gives back exactly what its registration took: registering a hook on any
  reachable configuration and closing the guard, once or twice, restores the list of hooks.\<close>

theorem guard_undoes_its_registration:
  assumes "core_reach w k" "g = \<lparr>hg_token = fst (core_on_reload h k), hg_hook = f\<rparr>"
  shows "k_hooks (guard_close g (snd (core_on_reload h k))) = k_hooks k \<and>
    guard_close g (guard_close g (snd (core_on_reload h k))) = guard_close g (snd (core_on_reload h k))"
  using on_reload_then_close [OF core_inv_reach [OF assms(1)], of h f]
  by (simp add: assms(2) guard_close_twice)

theorem guard_undoes_its_registration_witness:
  "k_hooks (guard_close \<lparr>hg_token = 2, hg_hook = Some ''resize''\<rparr>
     (snd (core_on_reload ''resize'' sample_core))) = [(1, ''publish'')]"
proof -
  have "fst (core_on_reload ''resize'' sample_core) = 2" by (simp add: core_evals)
  then show ?thesis
    using guard_undoes_its_registration [OF sample_core_reach refl, of "''resize''" "Some ''resize''"]
    by (simp add: sample_reload)
qed

end
