(* ===== verification/Config.thy ===== *)
theory Config
  imports Lifetime Diagnostics
begin

section \<open>\<open>DynamicConfig\<close>\<close>

text \<open>
  The Python object of \<open>_config.py\<close> over the native one: the attribute \<open>_cached\<close>, filled by the
  hook \<open>publish\<close> that the constructor registers first, the mirror \<open>_overrides\<close>, the executor, and
  the operations, each of which calls the native object and lets it run the hooks. A hook is
  the constructor's \<open>publish\<close>, a wrapped function, or a wrapped function behind the filter of
  \<open>on_change\<close>. Each call that reaches a user's hook is logged with what \<open>current()\<close> answers
  then, and whether the hook raised, which the engine reports and nobody sees. A hook that
  calls back into the configuration is not modelled.
\<close>

subsection \<open>State\<close>

datatype config_error =
    CoreExn core_error
  | HookExn hook_error
  | NotInitialised string
  | ConfigTypeError string
  | ConfigValueError string
  | BlockRaised string

datatype pyhook =
    Publish
  | Hook wrapped
  | Filtered "string list" wrapped

record 'm delivery =
  dl_hook :: wrapped
  dl_old :: "'m option"
  dl_new :: 'm
  dl_current :: "'m option"
  dl_raised :: bool

record ('t, 'm) config =
  c_model :: string
  c_core :: "('t, 'm, pyhook) core"
  c_cached :: "'m option"
  c_overrides :: "(string, 't) dict"
  c_executor :: "nat option"
  c_log :: "'m delivery list"
  c_watches :: "watch list"
  c_offloaded :: "nat option list"

text \<open>What the object runs against: the schema and the engine (\<open>e_world\<close>), which sources resolve
  to what is an argument of each load, the comparison of two models, the user's hooks, the
  judgement of a default, a pin, an alias, a binding, a mapping of defaults and a list of
  assignments, and the starting of a watcher.\<close>

record ('t, 'm) env =
  e_world :: "('t, 'm) world"
  e_differ :: "'m \<Rightarrow> 'm \<Rightarrow> (string \<times> string) list"
  e_hook_raises :: "wrapped \<Rightarrow> 'm option \<Rightarrow> 'm \<Rightarrow> bool"
  e_refuses :: "string \<Rightarrow> 't \<Rightarrow> core_error option"
  e_spreads :: "'t \<Rightarrow> core_error option \<times> (string \<times> 't) list"
  e_parses :: "string list \<Rightarrow> core_error option \<times> string list"
  e_refuses_alias :: "string \<Rightarrow> string \<Rightarrow> core_error option"
  e_refuses_binding :: "string \<Rightarrow> string \<Rightarrow> core_error option"
  e_is_instance :: "'m \<Rightarrow> bool"
  e_watch_fails :: "core_error option"

subsection \<open>Hooks\<close>

definition reach_hook ::
  "('t, 'm) env \<Rightarrow> wrapped \<Rightarrow> 'm option \<Rightarrow> 'm \<Rightarrow> ('t, 'm) config \<Rightarrow> ('t, 'm) config" where
  "reach_hook env h old new c =
     c\<lparr>c_log := c_log c @ [\<lparr>dl_hook = h, dl_old = old, dl_new = new, dl_current = c_cached c,
                              dl_raised = e_hook_raises env h old new\<rparr>]\<rparr>"

text \<open>\<open>filtered\<close>, the closure \<open>on_change\<close> registers.\<close>

definition passes_filter :: "('t, 'm) env \<Rightarrow> string list \<Rightarrow> 'm option \<Rightarrow> 'm \<Rightarrow> bool" where
  "passes_filter env paths old new =
     (case old of None \<Rightarrow> True
      | Some previous \<Rightarrow> touches paths (changed_paths (e_differ env) previous new))"

definition deliver ::
  "('t, 'm) env \<Rightarrow> (pyhook, 'm) call \<Rightarrow> ('t, 'm) config \<Rightarrow> ('t, 'm) config" where
  "deliver env call c =
     (case call of (hook, old, new) \<Rightarrow>
        (case hook of
           Publish \<Rightarrow> c\<lparr>c_cached := Some new\<rparr>
         | Hook h \<Rightarrow> reach_hook env h old new c
         | Filtered paths h \<Rightarrow>
             if passes_filter env paths old new then reach_hook env h old new c else c))"

definition deliver_all ::
  "('t, 'm) env \<Rightarrow> (pyhook, 'm) call list \<Rightarrow> ('t, 'm) config \<Rightarrow> ('t, 'm) config" where
  "deliver_all env calls c = fold (deliver env) calls c"

text \<open>A call of the native object, with the hooks it runs.\<close>

definition run_core ::
  "('t, 'm) env \<Rightarrow> (('t, 'm, pyhook) core \<Rightarrow> ('a, 't, 'm, pyhook) answer) \<Rightarrow> ('t, 'm) config \<Rightarrow>
   (config_error, 'a) result \<times> ('t, 'm) config" where
  "run_core env op c =
     (let r = op (c_core c) in
      (case answer_of r of Inl e \<Rightarrow> Inl (CoreExn e) | Inr x \<Rightarrow> Inr x,
       deliver_all env (calls_of r) (c\<lparr>c_core := after r\<rparr>)))"

subsection \<open>Building\<close>

record schema =
  sc_secret_paths :: "string list"
  sc_field_names :: "string list"
  sc_is_values :: bool

definition known_secrets :: "schema \<Rightarrow> string list \<Rightarrow> string list option" where
  "known_secrets schema secrets =
     (let secret_paths = sort (remdups (sc_secret_paths schema @ secrets)) in
      if secret_paths \<noteq> [] \<or> \<not> sc_is_values schema then Some secret_paths else None)"

definition config_new ::
  "string \<Rightarrow> string \<Rightarrow> nat option \<Rightarrow> schema \<Rightarrow> string list \<Rightarrow> ('t, 'm) config" where
  "config_new model key executor schema secrets =
     \<lparr>c_model = model,
      c_core = snd (core_on_reload Publish (core_new key (known_secrets schema secrets) (sc_field_names schema))),
      c_cached = None, c_overrides = [], c_executor = executor, c_log = [], c_watches = [],
      c_offloaded = []\<rparr>"

definition config_key :: "('t, 'm) config \<Rightarrow> string" where
  "config_key self = k_key (c_core self)"

definition config_source ::
  "source \<Rightarrow> ('t, 'm) config \<Rightarrow> (config_error, unit) result \<times> ('t, 'm) config" where
  "config_source src self =
     (let r = core_configure src (c_core self) in
      (case answer_of r of Inl e \<Rightarrow> Inl (CoreExn e) | Inr x \<Rightarrow> Inr x, self\<lparr>c_core := after r\<rparr>))"

type_synonym ('t, 'm) fluent =
  "('t, 'm) config \<Rightarrow> (config_error, unit) result \<times> ('t, 'm) config"

definition config_file :: "string \<Rightarrow> ('t, 'm) fluent" where
  "config_file path self = config_source (Src_file path) self"

definition config_discover :: "string \<Rightarrow> string list \<Rightarrow> ('t, 'm) fluent" where
  "config_discover name paths self = config_source (Src_discover name paths) self"

definition config_env :: "string \<Rightarrow> ('t, 'm) fluent" where
  "config_env pre self = config_source (Src_env pre) self"

definition config_nest :: "string \<Rightarrow> ('t, 'm) fluent" where
  "config_nest separator self = config_source (Src_nest separator) self"

definition config_allow_empty_env :: "('t, 'm) fluent" where
  "config_allow_empty_env self = config_source Src_allow_empty_env self"

definition config_strict_env :: "('t, 'm) fluent" where
  "config_strict_env self = config_source Src_strict_env self"

definition config_whole_document :: "('t, 'm) fluent" where
  "config_whole_document self = config_source Src_whole_document self"

definition config_env_file :: "string \<Rightarrow> ('t, 'm) fluent" where
  "config_env_file path self = config_source (Src_env_file path) self"

definition config_secrets_dir :: "string \<Rightarrow> ('t, 'm) fluent" where
  "config_secrets_dir path self = config_source (Src_secrets_dir path) self"

definition config_profile_env :: "string \<Rightarrow> ('t, 'm) fluent" where
  "config_profile_env variable self = config_source (Src_profile_env variable) self"

definition config_cache :: "string \<Rightarrow> string \<Rightarrow> ('t, 'm) fluent" where
  "config_cache path mode self =
     (let r = core_cache path mode (c_core self) in
      (case answer_of r of Inl e \<Rightarrow> Inl (CoreExn e) | Inr x \<Rightarrow> Inr x, self\<lparr>c_core := after r\<rparr>))"

subsection \<open>Loading and reading\<close>

definition config_init :: "('t, 'm) env \<Rightarrow> 't resolution \<Rightarrow> ('t, 'm) fluent" where
  "config_init env res self = run_core env (core_init (e_world env) res) self"

definition config_current :: "('t, 'm) config \<Rightarrow> (config_error, 'm) result" where
  "config_current self =
     (case c_cached self of
        None \<Rightarrow> Inl (NotInitialised (c_model self @ '' has not been loaded yet; call init() first''))
      | Some model \<Rightarrow> Inr model)"

definition config_try_current :: "('t, 'm) config \<Rightarrow> 'm option" where
  "config_try_current self = c_cached self"

definition config_init_and_current ::
  "('t, 'm) env \<Rightarrow> 't resolution \<Rightarrow> ('t, 'm) config \<Rightarrow> (config_error, 'm) result \<times> ('t, 'm) config" where
  "config_init_and_current env res self =
     (let (r, self1) = config_init env res self in
      (case r of Inl e \<Rightarrow> Inl e | Inr _ \<Rightarrow> config_current self1, self1))"

definition config_load ::
  "('t, 'm) env \<Rightarrow> 't resolution \<Rightarrow> ('t, 'm) config \<Rightarrow> (config_error, 'm) result \<times> ('t, 'm) config" where
  "config_load env res self = run_core env (core_load (e_world env) res) self"

definition config_reload :: "('t, 'm) env \<Rightarrow> 't resolution \<Rightarrow> ('t, 'm) fluent" where
  "config_reload env res self = run_core env (core_reload (e_world env) res) self"

definition config_replace :: "('t, 'm) env \<Rightarrow> 'm \<Rightarrow> ('t, 'm) fluent" where
  "config_replace env model self =
     (if \<not> e_is_instance env model
      then (Inl (ConfigTypeError (''expected a '' @ c_model self)), self)
      else run_core env (core_replace model) self)"

definition config_generation :: "('t, 'm) config \<Rightarrow> nat" where
  "config_generation self = k_generation (c_core self)"

text \<open>The watcher's thread reloads through the native object alone.\<close>

definition config_watcher_fires :: "('t, 'm) env \<Rightarrow> 't resolution \<Rightarrow> ('t, 'm) fluent" where
  "config_watcher_fires env res self = run_core env (core_watch_reload (e_world env) res) self"

subsection \<open>The pool, and the awaited calls\<close>

definition config_pool :: "nat option \<Rightarrow> ('t, 'm) config \<Rightarrow> nat option" where
  "config_pool dflt self = (case c_executor self of Some e \<Rightarrow> Some e | None \<Rightarrow> dflt)"

text \<open>\<open>await loop.run_in_executor(self._pool, work)\<close>: the work runs on that pool and its outcome is
  the awaiter's.\<close>

definition in_executor ::
  "nat option \<Rightarrow> (('t, 'm) config \<Rightarrow> 'r \<times> ('t, 'm) config) \<Rightarrow> ('t, 'm) config \<Rightarrow> 'r \<times> ('t, 'm) config" where
  "in_executor pool work self = work (self\<lparr>c_offloaded := c_offloaded self @ [pool]\<rparr>)"

definition config_init_async :: "nat option \<Rightarrow> ('t, 'm) env \<Rightarrow> 't resolution \<Rightarrow> ('t, 'm) fluent" where
  "config_init_async dflt env res self =
     in_executor (config_pool dflt self) (run_core env (core_init (e_world env) res)) self"

definition config_init_and_current_async ::
  "nat option \<Rightarrow> ('t, 'm) env \<Rightarrow> 't resolution \<Rightarrow> ('t, 'm) config \<Rightarrow>
   (config_error, 'm) result \<times> ('t, 'm) config" where
  "config_init_and_current_async dflt env res self =
     (let (r, self1) = config_init_async dflt env res self in
      (case r of Inl e \<Rightarrow> Inl e | Inr _ \<Rightarrow> config_current self1, self1))"

definition config_load_async ::
  "nat option \<Rightarrow> ('t, 'm) env \<Rightarrow> 't resolution \<Rightarrow> ('t, 'm) config \<Rightarrow>
   (config_error, 'm) result \<times> ('t, 'm) config" where
  "config_load_async dflt env res self =
     in_executor (config_pool dflt self) (run_core env (core_load (e_world env) res)) self"

definition config_reload_async :: "nat option \<Rightarrow> ('t, 'm) env \<Rightarrow> 't resolution \<Rightarrow> ('t, 'm) fluent" where
  "config_reload_async dflt env res self =
     in_executor (config_pool dflt self) (run_core env (core_reload (e_world env) res)) self"

subsection \<open>Watching\<close>

text \<open>A started watcher is named by its place among the configuration's watches.\<close>

definition config_watch ::
  "('t, 'm) env \<Rightarrow> ('t, 'm) config \<Rightarrow> (config_error, nat) result \<times> ('t, 'm) config" where
  "config_watch env self =
     (let self1 = self\<lparr>c_core := core_dynamic (c_core self)\<rparr> in
      case e_watch_fails env of
        Some e \<Rightarrow> (Inl (CoreExn e), self1)
      | None \<Rightarrow> (Inr (length (c_watches self1)), self1\<lparr>c_watches := c_watches self1 @ [Watching]\<rparr>))"

definition config_watch_async ::
  "nat option \<Rightarrow> ('t, 'm) env \<Rightarrow> ('t, 'm) config \<Rightarrow> (config_error, nat) result \<times> ('t, 'm) config" where
  "config_watch_async dflt env self = in_executor (config_pool dflt self) (config_watch env) self"

definition stop_watch :: "nat \<Rightarrow> ('t, 'm) config \<Rightarrow> ('t, 'm) config" where
  "stop_watch i self = self\<lparr>c_watches := (c_watches self)[i := watch_stop (c_watches self ! i)]\<rparr>"

text \<open>A \<open>with\<close> block's body is a function: it may do anything to the configuration, and raise.\<close>

type_synonym ('r, 't, 'm) body =
  "('t, 'm) config \<Rightarrow> (config_error, 'r) result \<times> ('t, 'm) config"

definition stopping_on_the_way_out ::
  "nat \<Rightarrow> ('r, 't, 'm) body \<Rightarrow> ('r, 't, 'm) body" where
  "stopping_on_the_way_out i body self = (let (r, self1) = body self in (r, stop_watch i self1))"

definition config_watching ::
  "('t, 'm) env \<Rightarrow> (nat \<Rightarrow> ('r, 't, 'm) body) \<Rightarrow> ('r, 't, 'm) body" where
  "config_watching env body self =
     (case config_watch env self of
        (Inl e, self1) \<Rightarrow> (Inl e, self1)
      | (Inr i, self1) \<Rightarrow> stopping_on_the_way_out i (body i) self1)"

definition config_watching_async ::
  "nat option \<Rightarrow> ('t, 'm) env \<Rightarrow> (nat \<Rightarrow> ('r, 't, 'm) body) \<Rightarrow> ('r, 't, 'm) body" where
  "config_watching_async dflt env body self =
     (case config_watch_async dflt env self of
        (Inl e, self1) \<Rightarrow> (Inl e, self1)
      | (Inr i, self1) \<Rightarrow> stopping_on_the_way_out i (body i) self1)"

definition config_running ::
  "('t, 'm) env \<Rightarrow> 't resolution \<Rightarrow> bool \<Rightarrow> ('m \<Rightarrow> ('r, 't, 'm) body) \<Rightarrow> ('r, 't, 'm) body" where
  "config_running env res watch body self =
     (case config_init_and_current env res self of
        (Inl e, self1) \<Rightarrow> (Inl e, self1)
      | (Inr model, self1) \<Rightarrow>
          if \<not> watch then body model self1 else config_watching env (\<lambda>_. body model) self1)"

definition config_running_async ::
  "nat option \<Rightarrow> ('t, 'm) env \<Rightarrow> 't resolution \<Rightarrow> bool \<Rightarrow> ('m \<Rightarrow> ('r, 't, 'm) body) \<Rightarrow> ('r, 't, 'm) body" where
  "config_running_async dflt env res watch body self =
     (case config_init_and_current_async dflt env res self of
        (Inl e, self1) \<Rightarrow> (Inl e, self1)
      | (Inr model, self1) \<Rightarrow>
          if \<not> watch then body model self1 else config_watching_async dflt env (\<lambda>_. body model) self1)"

subsection \<open>Registering hooks\<close>

definition register_hook ::
  "pyhook \<Rightarrow> wrapped \<Rightarrow> ('t, 'm) config \<Rightarrow> wrapped guard \<times> ('t, 'm) config" where
  "register_hook hook shown self =
     (let (token, k) = core_on_reload hook (c_core self) in
      (\<lparr>hg_token = token, hg_hook = Some shown\<rparr>, self\<lparr>c_core := k\<rparr>))"

definition config_on_reload ::
  "bool \<Rightarrow> callable \<Rightarrow> string option \<Rightarrow> string option \<Rightarrow> ('t, 'm) config \<Rightarrow>
   (config_error, wrapped guard) result \<times> ('t, 'm) config" where
  "config_on_reload loop_running hook dispatch_arg backpressure_arg self =
     (case wrap_hook loop_running hook dispatch_arg backpressure_arg of
        Inl e \<Rightarrow> (Inl (HookExn e), self)
      | Inr w \<Rightarrow> (let (g, self1) = register_hook (Hook w) (Run_inline hook) self in (Inr g, self1)))"

definition config_on_reload_async ::
  "bool \<Rightarrow> callable \<Rightarrow> string \<Rightarrow> ('t, 'm) config \<Rightarrow>
   (config_error, wrapped guard) result \<times> ('t, 'm) config" where
  "config_on_reload_async loop_running hook backpressure_arg self =
     config_on_reload loop_running hook (Some (dispatch_value Asyncio)) (Some backpressure_arg) self"

definition config_on_change ::
  "string list \<Rightarrow> wrapped \<Rightarrow> ('t, 'm) config \<Rightarrow>
   (config_error, wrapped guard) result \<times> ('t, 'm) config" where
  "config_on_change paths hook self =
     (if paths = [] then (Inl (ConfigValueError ''on_change needs at least one path to watch''), self)
      else (let (g, self1) = register_hook (Filtered paths hook) hook self in (Inr g, self1)))"

definition config_on_change_async ::
  "bool \<Rightarrow> string list \<Rightarrow> callable \<Rightarrow> string \<Rightarrow> ('t, 'm) config \<Rightarrow>
   (config_error, wrapped guard) result \<times> ('t, 'm) config" where
  "config_on_change_async loop_running paths hook backpressure_arg self =
     (if paths = [] then (Inl (ConfigValueError ''on_change needs at least one path to watch''), self)
      else case wrap_hook loop_running hook (Some (dispatch_value Asyncio)) (Some backpressure_arg) of
          Inl e \<Rightarrow> (Inl (HookExn e), self)
        | Inr w \<Rightarrow> config_on_change paths w self)"

definition config_close_guard :: "wrapped guard \<Rightarrow> ('t, 'm) config \<Rightarrow> ('t, 'm) config" where
  "config_close_guard g self = self\<lparr>c_core := guard_close g (c_core self)\<rparr>"


subsection \<open>The runtime layers\<close>

definition config_set_default :: "('t, 'm) env \<Rightarrow> string \<Rightarrow> 't \<Rightarrow> ('t, 'm) fluent" where
  "config_set_default env path v self = run_core env (core_set_default (e_refuses env) path v) self"

definition config_set_override :: "('t, 'm) env \<Rightarrow> string \<Rightarrow> 't \<Rightarrow> ('t, 'm) fluent" where
  "config_set_override env path v self =
     (case run_core env (core_set_override (e_refuses env) path v) self of
        (Inl e, self1) \<Rightarrow> (Inl e, self1)
      | (Inr _, self1) \<Rightarrow> (Inr (), self1\<lparr>c_overrides := dict_set path v (c_overrides self1)\<rparr>))"

definition config_clear_overrides :: "('t, 'm) config \<Rightarrow> ('t, 'm) config" where
  "config_clear_overrides self =
     self\<lparr>c_core := core_clear_overrides (c_core self), c_overrides := []\<rparr>"

definition config_clear_defaults :: "('t, 'm) config \<Rightarrow> ('t, 'm) config" where
  "config_clear_defaults self = self\<lparr>c_core := core_clear_defaults (c_core self)\<rparr>"

definition config_set_defaults :: "('t, 'm) env \<Rightarrow> 't \<Rightarrow> ('t, 'm) fluent" where
  "config_set_defaults env values self = run_core env (core_set_defaults (e_spreads env) values) self"

definition config_set_assignments :: "('t, 'm) env \<Rightarrow> string list \<Rightarrow> ('t, 'm) fluent" where
  "config_set_assignments env assignments self =
     run_core env (core_set_assignments (e_parses env) assignments) self"

definition config_clear_assignments :: "('t, 'm) config \<Rightarrow> ('t, 'm) config" where
  "config_clear_assignments self = self\<lparr>c_core := core_clear_assignments (c_core self)\<rparr>"

definition config_alias :: "('t, 'm) env \<Rightarrow> string \<Rightarrow> string \<Rightarrow> ('t, 'm) fluent" where
  "config_alias env old new self = run_core env (core_alias (e_refuses_alias env) old new) self"

definition config_bind_env :: "('t, 'm) env \<Rightarrow> string \<Rightarrow> string \<Rightarrow> ('t, 'm) fluent" where
  "config_bind_env env path variable self =
     run_core env (core_bind_env (e_refuses_binding env) path variable) self"

fun set_overrides :: "('t, 'm) env \<Rightarrow> (string, 't) dict \<Rightarrow> ('t, 'm) fluent" where
  "set_overrides env [] self = (Inr (), self)"
| "set_overrides env ((path, v) # rest) self =
     (case config_set_override env path v self of
        (Inl e, self1) \<Rightarrow> (Inl e, self1)
      | (Inr _, self1) \<Rightarrow> set_overrides env rest self1)"

text \<open>\<open>overrides(**values)\<close>: the pins are set before the \<open>try\<close>; the \<open>finally\<close> clears, replays
  what the mirror held and reloads, and an exception there replaces the block's. What the
  sources resolve to depends on the layers, so a resolution is a function of the configuration.\<close>

definition config_overrides ::
  "('t, 'm) env \<Rightarrow> (string, 't) dict \<Rightarrow> (('t, 'm) config \<Rightarrow> 't resolution) \<Rightarrow>
   (('t, 'm) config \<Rightarrow> 't resolution) \<Rightarrow> ('r, 't, 'm) body \<Rightarrow> ('r, 't, 'm) body" where
  "config_overrides env values resolve_in resolve_out body self =
     (let previous = c_overrides self in
      case set_overrides env (map (\<lambda>(name, v). (py_replace ''__'' ''.'' name, v)) values) self of
        (Inl e, self1) \<Rightarrow> (Inl e, self1)
      | (Inr _, self1) \<Rightarrow>
          (let (r, self2) =
             (case config_reload env (resolve_in self1) self1 of
                (Inl e, s) \<Rightarrow> (Inl e, s)
              | (Inr _, s) \<Rightarrow> body s)
           in case set_overrides env previous (config_clear_overrides self2) of
                (Inl e, self3) \<Rightarrow> (Inl e, self3)
              | (Inr _, self3) \<Rightarrow>
                  (case config_reload env (resolve_out self3) self3 of
                     (Inl e, s) \<Rightarrow> (Inl e, s)
                   | (Inr _, s) \<Rightarrow> (r, s))))"

subsection \<open>Diagnostics\<close>

text \<open>The engine's raw answers, with the keys \<open>mod.rs\<close> gives their dictionaries.\<close>

record raw_row =
  rr_layer :: string
  rr_value :: "string option"
  rr_origin_kind :: "string option"
  rr_origin :: "string option"

record raw_explanation =
  re_raw_path :: string
  re_raw_rows :: "raw_row list"
  re_raw_winner :: "string option"
  re_raw_rendered :: string

definition config_source_of :: "(string \<times> string option) option \<Rightarrow> origin option" where
  "config_source_of raw = origin_of raw"

definition config_explain :: "raw_explanation \<Rightarrow> explanation" where
  "config_explain raw =
     \<lparr>ex_path = re_raw_path raw,
      ex_rows = map (\<lambda>row. \<lparr>co_layer = rr_layer row, co_value = rr_value row,
          co_origin = origin_of (case rr_origin_kind row of None \<Rightarrow> None
            | Some kind \<Rightarrow> Some (kind, rr_origin row))\<rparr>) (re_raw_rows raw),
      ex_winner = re_raw_winner raw, ex_rendered = re_raw_rendered raw\<rparr>"

record raw_report =
  rw_key :: string
  rw_resolved :: "(string \<times> string \<times> string option) list"
  rw_unknown :: "(string \<times> string option) list"
  rw_failure :: "string option"
  rw_unknown_checked :: bool

definition config_check :: "raw_report \<Rightarrow> report" where
  "config_check raw =
     \<lparr>rp_key = rw_key raw,
      rp_resolved = map (\<lambda>(path, kind, detail).
        \<lparr>re_path = path, re_origin = \<lparr>o_kind = kind, o_detail = detail\<rparr>\<rparr>) (rw_resolved raw),
      rp_unknown = map (\<lambda>(path, suggestion). \<lparr>uk_path = path, uk_suggestion = suggestion\<rparr>) (rw_unknown raw),
      rp_failure = rw_failure raw, rp_unknown_checked = rw_unknown_checked raw\<rparr>"

definition config_repr :: "('t, 'm) config \<Rightarrow> string" where
  "config_repr self =
     ''<DynamicConfig '' @ c_model self @ '' key='' @ py_repr_str (config_key self) @
     '' generation='' @ str_of_nat (config_generation self) @ ''>''"

subsection \<open>Which hooks an install reaches\<close>

definition heard :: "('t, 'm) env \<Rightarrow> 'm option \<Rightarrow> 'm \<Rightarrow> pyhook list \<Rightarrow> wrapped list" where
  "heard env old new hooks =
     concat (map (\<lambda>h. case h of Publish \<Rightarrow> [] | Hook w \<Rightarrow> [w]
        | Filtered paths w \<Rightarrow> if passes_filter env paths old new then [w] else []) hooks)"

lemma heard_simps [simp]:
  "heard env old new [] = []"
  "heard env old new (Publish # hs) = heard env old new hs"
  "heard env old new (Hook w # hs) = w # heard env old new hs"
  "heard env old new (Filtered paths w # hs) =
     (if passes_filter env paths old new then w # heard env old new hs else heard env old new hs)"
  by (simp_all add: heard_def)

definition deliveries :: "('t, 'm) env \<Rightarrow> 'm option \<Rightarrow> 'm \<Rightarrow> wrapped list \<Rightarrow> 'm delivery list" where
  "deliveries env old new ws =
     map (\<lambda>w. \<lparr>dl_hook = w, dl_old = old, dl_new = new, dl_current = Some new,
               dl_raised = e_hook_raises env w old new\<rparr>) ws"

lemma deliver_rest:
  assumes "Publish \<notin> set hs" "c_cached c = Some new"
  shows "deliver_all env (map (\<lambda>h. (h, old, new)) hs) c =
    c\<lparr>c_log := c_log c @ deliveries env old new (heard env old new hs)\<rparr>"
  using assms
proof (induction hs arbitrary: c)
  case Nil
  show ?case by (simp add: deliver_all_def deliveries_def)
next
  case (Cons h hs)
  show ?case
  proof (cases h)
    case Publish
    with Cons.prems show ?thesis by simp
  next
    case (Hook w)
    with Cons.prems Cons.IH [of "reach_hook env w old new c"] show ?thesis
      by (simp add: deliver_all_def deliver_def reach_hook_def deliveries_def)
  next
    case (Filtered paths w)
    with Cons.prems Cons.IH [of "reach_hook env w old new c"] Cons.IH [of c] show ?thesis
      by (auto simp: deliver_all_def deliver_def reach_hook_def deliveries_def)
  qed
qed

lemma deliver_frame [simp]:
  "c_core (deliver env call c) = c_core c" "c_overrides (deliver env call c) = c_overrides c"
  "c_watches (deliver env call c) = c_watches c" "c_executor (deliver env call c) = c_executor c"
  by (simp_all add: deliver_def reach_hook_def split: prod.splits pyhook.splits)

lemma deliver_all_frame [simp]:
  "c_core (deliver_all env calls c) = c_core c"
  "c_overrides (deliver_all env calls c) = c_overrides c"
  "c_watches (deliver_all env calls c) = c_watches c"
  "c_executor (deliver_all env calls c) = c_executor c"
  by (induction calls arbitrary: c) (simp_all add: deliver_all_def)

lemma deliver_all_Nil [simp]: "deliver_all env [] c = c"
  by (simp add: deliver_all_def)

lemma run_core_frame [simp]:
  "c_core (snd (run_core env op c)) = after (op (c_core c))"
  "c_overrides (snd (run_core env op c)) = c_overrides c"
  "c_watches (snd (run_core env op c)) = c_watches c"
  by (simp_all add: run_core_def Let_def)

subsection \<open>The invariant\<close>

text \<open>\<open>publish\<close> is the first hook and the only one of its kind, its token is never handed to a
  guard, and the attribute agrees with the native cache.\<close>

definition hooks_ok :: "('t, 'm, pyhook) core \<Rightarrow> bool" where
  "hooks_ok k \<longleftrightarrow> 1 < k_next_hook k \<and>
     (\<exists>rest. k_hooks k = (1, Publish) # rest \<and> Publish \<notin> snd ` set rest)"

definition config_inv :: "('t, 'm) config \<Rightarrow> bool" where
  "config_inv c \<longleftrightarrow> core_inv (c_core c) \<and> hooks_ok (c_core c) \<and> c_cached c = k_cache (c_core c)"

lemma config_inv_new: "config_inv (config_new model key executor schema secrets)"
  by (simp add: config_inv_def config_new_def core_inv_hooks hooks_ok_def)
    (simp add: core_on_reload_def core_new_def)

lemma deliver_published:
  assumes "hooks_ok k"
  shows "deliver_all env (run_hooks old new k) c =
    c\<lparr>c_cached := Some new,
      c_log := c_log c @ deliveries env old new (heard env old new (map snd (k_hooks k)))\<rparr>"
proof -
  obtain rest where rest: "k_hooks k = (1, Publish) # rest" "Publish \<notin> set (map snd rest)"
    using assms by (auto simp: hooks_ok_def)
  have "run_hooks old new k = (Publish, old, new) # map (\<lambda>h. (h, old, new)) (map snd rest)"
    by (simp add: run_hooks_def rest(1) split_def)
  then have "deliver_all env (run_hooks old new k) c =
      deliver_all env (map (\<lambda>h. (h, old, new)) (map snd rest)) (c\<lparr>c_cached := Some new\<rparr>)"
    by (simp add: deliver_all_def deliver_def)
  also have "\<dots> = c\<lparr>c_cached := Some new,
      c_log := c_log c @ deliveries env old new (heard env old new (map snd rest))\<rparr>"
    using deliver_rest [OF rest(2), of "c\<lparr>c_cached := Some new\<rparr>" new env old] by simp
  finally show ?thesis by (simp add: rest(1))
qed

lemma run_core_published:
  assumes "hooks_ok (c_core c)" "published_once (c_core c) (calls_of (op (c_core c))) (after (op (c_core c)))"
  shows "\<exists>new. k_cache (after (op (c_core c))) = Some new \<and>
    snd (run_core env op c) = c\<lparr>c_core := after (op (c_core c)), c_cached := Some new,
      c_log := c_log c @ deliveries env (k_cache (c_core c)) new
        (heard env (k_cache (c_core c)) new (map snd (k_hooks (c_core c))))\<rparr>"
proof -
  obtain new where new: "k_cache (after (op (c_core c))) = Some new"
    "calls_of (op (c_core c)) = run_hooks (k_cache (c_core c)) new (c_core c)"
    using assms(2) by (auto simp: published_once_def)
  then show ?thesis
    using deliver_published [OF assms(1), of env "k_cache (c_core c)" new "c\<lparr>c_core := after (op (c_core c))\<rparr>"]
    by (simp add: run_core_def Let_def)
qed

text \<open>A native step that leaves the hooks alone keeps the invariant.\<close>

lemma config_inv_run_core:
  assumes "config_inv c" "core_step w (c_core c) (calls_of (op (c_core c))) (after (op (c_core c)))"
    "k_hooks (after (op (c_core c))) = k_hooks (c_core c)"
    "k_next_hook (after (op (c_core c))) = k_next_hook (c_core c)"
  shows "config_inv (snd (run_core env op c))"
proof -
  have ok: "core_inv (after (op (c_core c)))" "hooks_ok (after (op (c_core c)))"
    using assms core_inv_step [OF assms(2)] by (simp_all add: config_inv_def hooks_ok_def)
  have h: "hooks_ok (c_core c)" using assms(1) by (simp add: config_inv_def)
  show ?thesis
  proof (cases "published_once (c_core c) (calls_of (op (c_core c))) (after (op (c_core c)))")
    case True
    from run_core_published [of c op env, OF h this] ok show ?thesis
      by (auto simp: config_inv_def)
  next
    case False
    with core_step_publishes [OF assms(2)]
    have "published_nothing (c_core c) (calls_of (op (c_core c))) (after (op (c_core c)))"
      by (simp add: publishes_def)
    with assms(1) ok show ?thesis
      by (simp add: config_inv_def run_core_def Let_def published_nothing_def)
  qed
qed


subsection \<open>Every operation as a step\<close>

text \<open>The mirror is the layer's calls folded into a dictionary, and it holds accepted pins only.\<close>

definition replay :: "(string \<times> 't) list \<Rightarrow> (string, 't) dict \<Rightarrow> (string, 't) dict" where
  "replay calls d = fold (\<lambda>(path, v). dict_set path v) calls d"

definition mirror_ok :: "('t, 'm) env \<Rightarrow> ('t, 'm) config \<Rightarrow> bool" where
  "mirror_ok env c \<longleftrightarrow> distinct (map fst (c_overrides c)) \<and>
     (\<forall>(path, v) \<in> set (c_overrides c). e_refuses env path v = None) \<and>
     replay (k_overrides (c_core c)) [] = c_overrides c"

inductive config_step :: "('t, 'm) env \<Rightarrow> ('t, 'm) config \<Rightarrow> ('t, 'm) config \<Rightarrow> bool" for env where
  cs_source: "config_step env c (snd (config_source src c))"
| cs_cache: "config_step env c (snd (config_cache path mode c))"
| cs_init: "config_step env c (snd (config_init env res c))"
| cs_load: "config_step env c (snd (config_load env res c))"
| cs_reload: "config_step env c (snd (config_reload env res c))"
| cs_replace: "config_step env c (snd (config_replace env m c))"
| cs_watcher: "config_step env c (snd (config_watcher_fires env res c))"
| cs_watch: "config_step env c (snd (config_watch env c))"
| cs_stop: "config_step env c (stop_watch i c)"
| cs_on_reload: "config_step env c (snd (config_on_reload loop hook da ba c))"
| cs_on_change: "config_step env c (snd (config_on_change paths w c))"
| cs_close: "1 < hg_token g \<Longrightarrow> config_step env c (config_close_guard g c)"
| cs_set_default: "config_step env c (snd (config_set_default env path v c))"
| cs_set_override: "config_step env c (snd (config_set_override env path v c))"
| cs_clear_overrides: "config_step env c (config_clear_overrides c)"
| cs_clear_defaults: "config_step env c (config_clear_defaults c)"
| cs_set_defaults: "config_step env c (snd (config_set_defaults env v c))"
| cs_set_assignments: "config_step env c (snd (config_set_assignments env assignments c))"
| cs_clear_assignments: "config_step env c (config_clear_assignments c)"
| cs_alias: "config_step env c (snd (config_alias env old new c))"
| cs_bind_env: "config_step env c (snd (config_bind_env env path variable c))"
| cs_ask: "config_step env c (snd (run_core env (core_ask (outcome :: (core_error, unit) result)) c))"

inductive config_reach :: "('t, 'm) env \<Rightarrow> ('t, 'm) config \<Rightarrow> bool" for env where
  config_here: "config_reach env (config_new model key executor schema secrets)"
| config_next: "config_reach env c \<Longrightarrow> config_step env c c' \<Longrightarrow> config_reach env c'"

lemma registrations_hooks:
  "registrations k' = registrations k \<Longrightarrow>
   k_hooks k' = k_hooks k \<and> k_next_hook k' = k_next_hook k \<and> k_overrides k' = k_overrides k"
  by (simp add: registrations_def)

lemma config_inv_operation:
  assumes "config_inv c"
  shows "config_inv (snd (run_core env (core_init w res) c))"
    "config_inv (snd (run_core env (core_reload w res) c))"
    "config_inv (snd (run_core env (core_load w res) c))"
    "config_inv (snd (run_core env (core_replace m) c))"
    "config_inv (snd (run_core env (core_watch_reload w res) c))"
proof -
  note regs = registrations_operation [THEN registrations_hooks, THEN conjunct1]
    registrations_operation [THEN registrations_hooks, THEN conjunct2, THEN conjunct1]
  show "config_inv (snd (run_core env (core_init w res) c))"
    by (rule config_inv_run_core [of c w "core_init w res" env, OF assms step_init]) (simp_all add: regs)
  show "config_inv (snd (run_core env (core_reload w res) c))"
    by (rule config_inv_run_core [of c w "core_reload w res" env, OF assms step_reload]) (simp_all add: regs)
  show "config_inv (snd (run_core env (core_load w res) c))"
    by (rule config_inv_run_core [of c w "core_load w res" env, OF assms step_load]) (simp_all add: regs)
  show "config_inv (snd (run_core env (core_replace m) c))"
    by (rule config_inv_run_core [of c w "core_replace m" env, OF assms step_replace]) (simp_all add: regs)
  show "config_inv (snd (run_core env (core_watch_reload w res) c))"
    by (rule config_inv_run_core [of c w "core_watch_reload w res" env, OF assms step_watch])
      (simp_all add: regs)
qed

lemmas config_layer_defs = config_set_defaults_def config_set_assignments_def
  config_clear_assignments_def config_alias_def config_bind_env_def

lemma config_inv_core_update:
  assumes "config_inv c" "core_inv k" "k_hooks k = k_hooks (c_core c)"
    "k_next_hook k = k_next_hook (c_core c)" "k_cache k = k_cache (c_core c)"
  shows "config_inv (c\<lparr>c_core := k\<rparr>)"
  using assms by (simp add: config_inv_def hooks_ok_def)

lemma config_inv_ignores [simp]:
  "config_inv (c\<lparr>c_overrides := d\<rparr>) = config_inv c"
  "config_inv (c\<lparr>c_watches := ws\<rparr>) = config_inv c"
  "config_inv (c\<lparr>c_offloaded := ps\<rparr>) = config_inv c"
  by (simp_all add: config_inv_def)

lemma config_inv_register:
  assumes "config_inv c" "hook \<noteq> Publish"
  shows "config_inv (snd (register_hook hook w c))"
  using assms core_inv_hooks(1) [of "c_core c" hook]
  by (auto simp: config_inv_def register_hook_def hooks_ok_def core_on_reload_def)

lemma config_inv_close:
  assumes "config_inv c" "1 < hg_token g"
  shows "config_inv (config_close_guard g c)"
  using assms core_inv_hooks(2) [of "c_core c" "hg_token g"]
  by (auto simp: config_inv_def config_close_guard_def guard_close_def hooks_ok_def
      core_remove_hook_def Let_def)

lemma config_inv_ask:
  assumes "config_inv c"
  shows "config_inv (snd (run_core env (core_ask outcome) c))"
  using registrations_ask [THEN registrations_hooks, of outcome "c_core c"]
  by (intro config_inv_run_core [where w = undefined, OF assms]) (simp_all add: core_step_ask)

lemma config_layers_inv:
  assumes "config_inv c"
  shows "config_inv (snd (config_set_defaults env v c))"
    "config_inv (snd (config_set_assignments env assignments c))"
    "config_inv (config_clear_assignments c)"
    "config_inv (snd (config_alias env old new c))"
    "config_inv (snd (config_bind_env env path variable c))"
  using assms
  by (simp_all add: config_layer_defs run_core_def layer_defs Let_def split_def config_inv_def
      hooks_ok_def split: option.splits)

lemma config_inv_step: "config_step env c c' \<Longrightarrow> config_inv c \<Longrightarrow> config_inv c'"
proof (induction rule: config_step.induct)
  case (cs_source c src)
  then show ?case
    by (simp add: config_source_def Let_def, intro config_inv_core_update)
      (simp_all add: core_configure_def config_inv_def split: engine.splits)
next
  case (cs_cache c path mode)
  then show ?case
    by (simp add: config_cache_def Let_def, intro config_inv_core_update)
      (simp_all add: core_cache_def core_configure_def config_inv_def split: engine.splits)
next
  case (cs_watch c)
  have "config_inv (c\<lparr>c_core := core_dynamic (c_core c)\<rparr>)"
    using cs_watch registrations_hooks [OF registrations_update(2), of "c_core c"]
    by (intro config_inv_core_update) (simp_all add: config_inv_def)
  then show ?case by (simp add: config_watch_def Let_def split: option.splits)
next
  case (cs_on_reload c loop hook da ba)
  then show ?case
    by (simp add: config_on_reload_def config_inv_register split_def Let_def split: sum.splits)
next
  case (cs_on_change c paths w)
  then show ?case by (simp add: config_on_change_def config_inv_register split_def Let_def)
next
  case (cs_set_override c path v)
  then show ?case
    by (simp add: config_set_override_def run_core_def core_set_override_def Let_def
        config_inv_def hooks_ok_def split: option.splits)
next
  case (cs_set_default c path v)
  then show ?case
    by (simp add: config_set_default_def run_core_def core_set_default_def Let_def
        config_inv_def hooks_ok_def split: option.splits)
next
  case (cs_clear_overrides c)
  then show ?case
    by (simp add: config_clear_overrides_def core_clear_overrides_def config_inv_def hooks_ok_def)
next
  case (cs_clear_defaults c)
  then show ?case by (simp add: config_clear_defaults_def core_clear_defaults_def config_inv_def hooks_ok_def)
next
  case (cs_ask c outcome)
  then show ?case by (rule config_inv_ask)
qed (simp_all add: config_layers_inv config_init_def config_load_def config_reload_def config_replace_def
      config_watcher_fires_def config_inv_operation stop_watch_def config_inv_close)

lemma config_inv_reach: "config_reach env c \<Longrightarrow> config_inv c"
  by (induction rule: config_reach.induct) (simp_all add: config_inv_new config_inv_step)


subsection \<open>The mirror of the override layer\<close>

lemma replay_Nil [simp]: "replay [] d = d"
  by (simp add: replay_def)

lemma replay_append [simp]: "replay (xs @ ys) d = replay ys (replay xs d)"
  by (simp add: replay_def)

lemma replay_distinct: "distinct (map fst (d @ xs)) \<Longrightarrow> replay xs d = d @ xs"
proof (induction xs arbitrary: d)
  case (Cons x xs)
  obtain p v where x: "x = (p, v)" by (cases x)
  with Cons.prems have "dict_set p v d = d @ [(p, v)]" by (intro dict_set_new) auto
  moreover have "replay xs (d @ [(p, v)]) = (d @ [(p, v)]) @ xs"
    using Cons.prems x by (intro Cons.IH) simp
  ultimately show ?case by (simp add: replay_def x)
qed simp

lemma set_override_ok:
  assumes "e_refuses env path v = None"
  shows "config_set_override env path v c =
    (Inr (), c\<lparr>c_core := (c_core c)\<lparr>k_overrides := k_overrides (c_core c) @ [(path, v)]\<rparr>,
               c_overrides := dict_set path v (c_overrides c)\<rparr>)"
  using assms by (simp add: config_set_override_def run_core_def core_set_override_def Let_def)

lemma set_override_refused:
  assumes "e_refuses env path v = Some e"
  shows "config_set_override env path v c = (Inl (CoreExn e), c)"
  using assms by (simp add: config_set_override_def run_core_def core_set_override_def Let_def)

lemma set_overrides_ok:
  assumes "\<forall>(path, v) \<in> set xs. e_refuses env path v = None"
  shows "set_overrides env xs c =
    (Inr (), c\<lparr>c_core := (c_core c)\<lparr>k_overrides := k_overrides (c_core c) @ xs\<rparr>,
               c_overrides := replay xs (c_overrides c)\<rparr>)"
  using assms by (induction xs arbitrary: c) (auto simp: set_override_ok replay_def)

lemma mirror_ok_operation [simp]:
  assumes "registrations (after (op (c_core c))) = registrations (c_core c)"
  shows "mirror_ok env (snd (run_core env op c)) = mirror_ok env c"
  using assms by (simp add: mirror_ok_def registrations_def)

lemma mirror_ok_ignores [simp]:
  "mirror_ok env (c\<lparr>c_watches := ws\<rparr>) = mirror_ok env c"
  "mirror_ok env (c\<lparr>c_offloaded := ps\<rparr>) = mirror_ok env c"
  by (simp_all add: mirror_ok_def)

lemma mirror_ok_core:
  "k_overrides k = k_overrides (c_core c) \<Longrightarrow> mirror_ok env (c\<lparr>c_core := k\<rparr>) = mirror_ok env c"
  by (simp add: mirror_ok_def)

lemma set_dict_setD: "(q, u) \<in> set (dict_set path v d) \<Longrightarrow> (q, u) = (path, v) \<or> (q, u) \<in> set d"
  by (induction d) (auto simp: dict_set_def split: if_splits)

lemma replay_single [simp]: "replay [(path, v)] d = dict_set path v d"
  by (simp add: replay_def)

lemma mirror_ok_set_override:
  assumes "mirror_ok env c"
  shows "mirror_ok env (snd (config_set_override env path v c))"
proof (cases "e_refuses env path v")
  case None
  have "e_refuses env q u = None" if "(q, u) \<in> set (dict_set path v (c_overrides c))" for q u
    using set_dict_setD [OF that] None assms by (auto simp: mirror_ok_def)
  with None assms show ?thesis
    by (auto simp: set_override_ok mirror_ok_def simp del: prod.case_eq_if)
next
  case (Some e)
  with assms show ?thesis by (simp add: set_override_refused)
qed

lemma mirror_ok_clear [simp]: "mirror_ok env (config_clear_overrides c)"
  by (simp add: mirror_ok_def config_clear_overrides_def core_clear_overrides_def)

lemma mirror_ok_layers [simp]:
  "mirror_ok env (snd (config_set_defaults env v c)) = mirror_ok env c"
  "mirror_ok env (snd (config_set_assignments env assignments c)) = mirror_ok env c"
  "mirror_ok env (config_clear_assignments c) = mirror_ok env c"
  "mirror_ok env (snd (config_alias env old new c)) = mirror_ok env c"
  "mirror_ok env (snd (config_bind_env env path variable c)) = mirror_ok env c"
  by (simp_all add: config_layer_defs run_core_def layer_defs Let_def split_def mirror_ok_core
      split: option.splits)

lemma mirror_ok_step: "config_step env c c' \<Longrightarrow> mirror_ok env c \<Longrightarrow> mirror_ok env c'"
proof (induction rule: config_step.induct)
  case (cs_source c src)
  then show ?case
    by (simp add: config_source_def core_configure_def mirror_ok_core Let_def split: engine.splits)
next
  case (cs_cache c path mode)
  then show ?case
    by (simp add: config_cache_def core_cache_def core_configure_def mirror_ok_core Let_def
        split: engine.splits)
next
  case (cs_watch c)
  then show ?case
    by (simp add: config_watch_def mirror_ok_core Let_def split: option.splits)
next
  case (cs_on_reload c loop hook da ba)
  then show ?case
    by (simp add: config_on_reload_def register_hook_def core_on_reload_def mirror_ok_core
        split_def Let_def split: sum.splits)
next
  case (cs_on_change c paths w)
  then show ?case
    by (simp add: config_on_change_def register_hook_def core_on_reload_def mirror_ok_core
        split_def Let_def)
next
  case (cs_close g c)
  then show ?case
    by (simp add: config_close_guard_def guard_close_def core_remove_hook_def mirror_ok_core Let_def)
next
  case (cs_set_default c path v)
  then show ?case
    by (simp add: config_set_default_def run_core_def core_set_default_def mirror_ok_core Let_def
        split: option.splits)
next
  case (cs_clear_defaults c)
  then show ?case by (simp add: config_clear_defaults_def core_clear_defaults_def mirror_ok_core)
qed (simp_all add: mirror_ok_layers config_init_def config_load_def config_reload_def config_replace_def
      config_watcher_fires_def stop_watch_def mirror_ok_set_override)

lemma mirror_ok_new: "mirror_ok env (config_new model key executor schema secrets)"
  by (simp add: mirror_ok_def config_new_def core_on_reload_def core_new_def)

lemma mirror_ok_reach: "config_reach env c \<Longrightarrow> mirror_ok env c"
  by (induction rule: config_reach.induct) (simp_all add: mirror_ok_new mirror_ok_step)

text \<open>The \<open>finally\<close> of the block, from whatever the body left behind.\<close>

lemma overrides_finally:
  assumes "mirror_ok env c"
  shows "set_overrides env (c_overrides c) (config_clear_overrides d) =
    (Inr (), d\<lparr>c_core := (c_core d)\<lparr>k_overrides := c_overrides c\<rparr>, c_overrides := c_overrides c\<rparr>)"
  using assms by (simp add: set_overrides_ok mirror_ok_def config_clear_overrides_def
      core_clear_overrides_def replay_distinct)

lemma config_reload_overrides [simp]:
  "c_overrides (snd (config_reload env res c)) = c_overrides c"
  "k_overrides (c_core (snd (config_reload env res c))) = k_overrides (c_core c)"
  using registrations_operation(2) [THEN registrations_hooks, of "e_world env" res "c_core c"]
  by (simp_all add: config_reload_def)

lemma overrides_restored:
  assumes "mirror_ok env c"
    "\<forall>(name, v) \<in> set values. e_refuses env (py_replace ''__'' ''.'' name) v = None"
    "c' = snd (config_overrides env values resolve_in resolve_out body c)"
  shows "c_overrides c' = c_overrides c \<and> k_overrides (c_core c') = c_overrides c"
proof -
  let ?pins = "map (\<lambda>(name, v). (py_replace ''__'' ''.'' name, v)) values"
  have "\<forall>(path, v) \<in> set ?pins. e_refuses env path v = None" using assms(2) by auto
  then obtain c1 where pins: "set_overrides env ?pins c = (Inr (), c1)"
    by (simp add: set_overrides_ok)
  obtain r c2 where block: "(case config_reload env (resolve_in c1) c1 of
      (Inl e, s) \<Rightarrow> (Inl e, s) | (Inr _, s) \<Rightarrow> body s) = (r, c2)" by fastforce
  let ?c3 = "c2\<lparr>c_core := (c_core c2)\<lparr>k_overrides := c_overrides c\<rparr>, c_overrides := c_overrides c\<rparr>"
  have "c' = snd (config_reload env (resolve_out ?c3) ?c3)"
    by (simp add: assms(3) config_overrides_def pins block overrides_finally [OF assms(1)] Let_def
        split: sum.splits prod.splits)
  then show ?thesis by simp
qed


subsection \<open>The engine, the log and the watches\<close>

definition frozen_with :: "source list \<Rightarrow> ('t, 'm, 'h) core \<Rightarrow> bool" where
  "frozen_with srcs k \<longleftrightarrow> (\<exists>current. k_engine k = Ready srcs current)"

lemma frozen_updates [simp]:
  "frozen_with srcs (k\<lparr>k_cache := a\<rparr>) = frozen_with srcs k"
  "frozen_with srcs (after (inner_commit w tree k)) = frozen_with srcs k"
  "frozen_with srcs (snd (core_validate w tree k)) = frozen_with srcs k"
  "frozen_with srcs (snd (engine_load w op res k)) = frozen_with srcs k"
  "frozen_with srcs (after (raised e k)) = frozen_with srcs k"
  "frozen_with srcs (drop_prepared token k) = frozen_with srcs k"
  "frozen_with srcs (after (core_publish m k)) = frozen_with srcs k"
  by (simp_all add: frozen_with_def drop_prepared_def core_publish_def)

lemma frozen_dynamic: "frozen_with srcs k \<Longrightarrow> frozen_with srcs (core_dynamic k)"
  by (auto simp: frozen_with_def core_dynamic_def)

lemma frozen_install: "frozen_with srcs k \<Longrightarrow> frozen_with srcs (fst (engine_install w tree k))"
  by (auto simp: frozen_with_def engine_install_def Let_def)

lemma frozen_install_and_publish:
  "frozen_with srcs k \<Longrightarrow> frozen_with srcs (after (install_and_publish w tree k))"
  using frozen_install [of srcs k w tree]
  by (simp add: install_and_publish_eq Let_def publish_current_def split: option.splits)

lemma frozen_operation:
  assumes "frozen_with srcs k"
  shows "frozen_with srcs (after (core_init w res k))"
    "frozen_with srcs (after (core_reload w res k))"
    "frozen_with srcs (after (core_load w res k))"
    "frozen_with srcs (after (core_watch_reload w res k))"
proof -
  have l: "frozen_with srcs (snd (engine_load w op res (core_dynamic k)))" for op
    using frozen_dynamic [OF assms] by simp
  have "frozen_with srcs (after (load_then_install w op res k))" for op
    using l [of op] by (cases "engine_load w op res (core_dynamic k)")
      (auto simp: load_then_install_def frozen_install_and_publish split: sum.splits)
  then show "frozen_with srcs (after (core_init w res k))"
    "frozen_with srcs (after (core_reload w res k))"
    by (simp_all add: core_init_def core_reload_def)
  show "frozen_with srcs (after (core_load w res k))"
    using core_load_after [of w res k] frozen_dynamic [OF assms] by (auto simp: Let_def)
  show "frozen_with srcs (after (core_watch_reload w res k))"
    using l [of Op_watch] by (cases "engine_load w Op_watch res (core_dynamic k)")
      (auto simp: core_watch_reload_def frozen_install split: sum.splits)
qed

lemma frozen_layers:
  "frozen_with srcs (c_core c) \<Longrightarrow> frozen_with srcs (c_core (snd (config_set_defaults env v c)))"
  "frozen_with srcs (c_core c) \<Longrightarrow> frozen_with srcs (c_core (snd (config_set_assignments env assignments c)))"
  "frozen_with srcs (c_core c) \<Longrightarrow> frozen_with srcs (c_core (config_clear_assignments c))"
  "frozen_with srcs (c_core c) \<Longrightarrow> frozen_with srcs (c_core (snd (config_alias env old new c)))"
  "frozen_with srcs (c_core c) \<Longrightarrow> frozen_with srcs (c_core (snd (config_bind_env env path variable c)))"
  by (simp_all add: config_layer_defs run_core_def layer_defs Let_def split_def frozen_with_def
      split: option.splits)

lemma frozen_ask: "frozen_with srcs k \<Longrightarrow> frozen_with srcs (after (core_ask outcome k))"
  by (cases outcome) (simp_all add: core_ask_def frozen_dynamic)

lemma frozen_step:
  "config_step env c c' \<Longrightarrow> frozen_with srcs (c_core c) \<Longrightarrow> frozen_with srcs (c_core c')"
proof (induction rule: config_step.induct)
  case (cs_source c src)
  then show ?case by (auto simp: config_source_def core_configure_def frozen_with_def Let_def)
next
  case (cs_cache c path mode)
  then show ?case
    by (auto simp: config_cache_def core_cache_def core_configure_def frozen_with_def Let_def)
next
  case (cs_watch c)
  then show ?case
    using frozen_dynamic [of srcs "c_core c"] by (simp add: config_watch_def Let_def split: option.splits)
next
  case (cs_on_reload c loop hook da ba)
  then show ?case
    by (simp add: config_on_reload_def register_hook_def core_on_reload_def frozen_with_def
        split_def Let_def split: sum.splits)
next
  case (cs_on_change c paths w)
  then show ?case
    by (simp add: config_on_change_def register_hook_def core_on_reload_def frozen_with_def
        split_def Let_def)
next
  case (cs_set_override c path v)
  then show ?case
    by (cases "e_refuses env path v")
      (simp_all add: set_override_ok set_override_refused frozen_with_def)
next
  case (cs_set_default c path v)
  then show ?case
    by (simp add: config_set_default_def run_core_def core_set_default_def frozen_with_def Let_def
        split: option.splits)
qed (simp_all add: config_init_def config_load_def config_reload_def config_replace_def
      config_watcher_fires_def stop_watch_def frozen_operation core_replace_def
      frozen_layers frozen_ask,
     simp_all add: config_close_guard_def guard_close_def core_remove_hook_def
      config_clear_overrides_def core_clear_overrides_def config_clear_defaults_def core_clear_defaults_def
      run_core_def frozen_with_def Let_def)

definition log_grows :: "('t, 'm) config \<Rightarrow> ('t, 'm) config \<Rightarrow> bool" where
  "log_grows c c' \<longleftrightarrow>
     (\<exists>new. c_log c' = c_log c @ new \<and> (\<forall>d \<in> set new. dl_current d = Some (dl_new d)))"

lemma log_grows_same: "c_log c' = c_log c \<Longrightarrow> log_grows c c'"
  by (simp add: log_grows_def)

lemma log_grows_run_core:
  assumes "config_inv c" "core_step w (c_core c) (calls_of (op (c_core c))) (after (op (c_core c)))"
  shows "log_grows c (snd (run_core env op c))"
proof (cases "published_once (c_core c) (calls_of (op (c_core c))) (after (op (c_core c)))")
  case True
  have "hooks_ok (c_core c)" using assms(1) by (simp add: config_inv_def)
  from run_core_published [of c op env, OF this True] show ?thesis
    by (auto simp: log_grows_def deliveries_def)
next
  case False
  with core_step_publishes [OF assms(2)]
  have "published_nothing (c_core c) (calls_of (op (c_core c))) (after (op (c_core c)))"
    by (simp add: publishes_def)
  then show ?thesis
    by (simp add: published_nothing_def run_core_def Let_def log_grows_same)
qed

lemma log_grows_operation:
  assumes "config_inv c"
  shows "log_grows c (snd (run_core env (core_init w res) c))"
    "log_grows c (snd (run_core env (core_reload w res) c))"
    "log_grows c (snd (run_core env (core_load w res) c))"
    "log_grows c (snd (run_core env (core_replace m) c))"
    "log_grows c (snd (run_core env (core_watch_reload w res) c))"
  using log_grows_run_core [of c w "core_init w res" env, OF assms step_init]
    log_grows_run_core [of c w "core_reload w res" env, OF assms step_reload]
    log_grows_run_core [of c w "core_load w res" env, OF assms step_load]
    log_grows_run_core [of c w "core_replace m" env, OF assms step_replace]
    log_grows_run_core [of c w "core_watch_reload w res" env, OF assms step_watch]
  by simp_all

lemma log_grows_ask:
  assumes "config_inv c"
  shows "log_grows c (snd (run_core env (core_ask outcome) c))"
  by (rule log_grows_run_core [where w = undefined, OF assms]) (rule core_step_ask)

lemma log_grows_layers:
  "log_grows c (snd (config_set_defaults env v c))"
  "log_grows c (snd (config_set_assignments env assignments c))"
  "log_grows c (config_clear_assignments c)"
  "log_grows c (snd (config_alias env old new c))"
  "log_grows c (snd (config_bind_env env path variable c))"
  by (simp_all add: config_layer_defs run_core_def layer_defs Let_def split_def log_grows_same
      split: option.splits)

lemma log_grows_step: "config_step env c c' \<Longrightarrow> config_inv c \<Longrightarrow> log_grows c c'"
proof (induction rule: config_step.induct)
  case (cs_on_reload c loop hook da ba)
  show ?case
    by (rule log_grows_same) (simp add: config_on_reload_def register_hook_def split_def Let_def
        split: sum.splits)
next
  case (cs_on_change c paths w)
  show ?case
    by (rule log_grows_same) (simp add: config_on_change_def register_hook_def split_def Let_def)
next
  case (cs_set_override c path v)
  show ?case
    by (rule log_grows_same, cases "e_refuses env path v")
      (simp_all add: set_override_ok set_override_refused)
next
  case (cs_set_default c path v)
  show ?case
    by (rule log_grows_same)
      (simp add: config_set_default_def run_core_def core_set_default_def Let_def split: option.splits)
next
  case (cs_watch c)
  show ?case
    by (rule log_grows_same) (simp add: config_watch_def Let_def split: option.splits)
qed (simp_all add: config_init_def config_load_def config_reload_def config_replace_def
      config_watcher_fires_def log_grows_operation log_grows_same config_source_def config_cache_def
      stop_watch_def config_close_guard_def config_clear_overrides_def config_clear_defaults_def
      log_grows_layers log_grows_ask Let_def)


subsection \<open>Properties\<close>

text \<open>What a \<open>reload()\<close> of a document that validates leaves behind.\<close>

lemma config_reload_ok:
  assumes "config_inv c" "w_validate (e_world env) tree = Inr m"
  shows "config_reload env (Inr tree) c =
    (Inr (), c\<lparr>c_core := after (load_then_install (e_world env) Op_reload (Inr tree) (c_core c)), c_cached := Some m,
       c_log := c_log c @ deliveries env (c_cached c) m (heard env (c_cached c) m (map snd (k_hooks (c_core c))))\<rparr>)"
proof -
  have ok: "core_inv (c_core c)" "hooks_ok (c_core c)" "c_cached c = k_cache (c_core c)"
    using assms(1) by (simp_all add: config_inv_def)
  let ?r = "load_then_install (e_world env) Op_reload (Inr tree) (c_core c)"
  note loaded = load_then_install_ok [OF ok(1) assms(2), of Op_reload]
  have "snd (run_core env (core_reload (e_world env) (Inr tree)) c) =
      deliver_all env (run_hooks (k_cache (c_core c)) m (c_core c)) (c\<lparr>c_core := after ?r\<rparr>)"
    using loaded(2) by (simp add: run_core_def core_reload_def Let_def)
  moreover have "fst (run_core env (core_reload (e_world env) (Inr tree)) c) = Inr ()"
    using loaded(1) by (auto simp: run_core_def core_reload_def Let_def)
  ultimately show ?thesis
    using deliver_published [OF ok(2), of env "k_cache (c_core c)" m "c\<lparr>c_core := after ?r\<rparr>"]
    by (simp add: config_reload_def ok(3) prod_eq_iff)
qed

text \<open>C6: A \<open>reload()\<close> of a document that validates, on any reachable configuration, answers
  normally, makes the model what \<open>current()\<close> reads, adds one to the generation, and calls in
  registration order exactly the hooks whose filter lets the change through, each with the old
  model, the new one, and \<open>current()\<close> already the new one.\<close>

theorem reload_reaches_exactly_the_touched_hooks:
  assumes "config_reach env c" "w_validate (e_world env) tree = Inr m"
    "config_reload env (Inr tree) c = (r, c')"
  shows "r = Inr () \<and> config_current c' = Inr m \<and> config_generation c' = config_generation c + 1 \<and>
    c_log c' = c_log c @
      map (\<lambda>h. \<lparr>dl_hook = h, dl_old = c_cached c, dl_new = m, dl_current = Some m,
                 dl_raised = e_hook_raises env h (c_cached c) m\<rparr>)
        (heard env (c_cached c) m (map snd (k_hooks (c_core c))))"
proof -
  have inv: "config_inv c" by (rule config_inv_reach [OF assms(1)])
  then have "core_inv (c_core c)" by (simp add: config_inv_def)
  from load_then_install_ok(4) [OF this assms(2), of Op_reload] config_reload_ok [OF inv assms(2)] assms(3) show ?thesis
    by (auto simp: config_current_def config_generation_def deliveries_def)
qed

definition sample_env :: "(nat, nat) env" where
  "sample_env = \<lparr>e_world = sample_world,
     e_differ = (\<lambda>a b. if a = b then [] else [(''pool.size'', ''changed'')]),
     e_hook_raises = (\<lambda>_ _ _. True),
     e_refuses = (\<lambda>path v. if v = 13 then Some (CoreValueError path) else None),
     e_spreads = (\<lambda>v. (None, [(''pool'', v)])), e_parses = Pair None,
     e_refuses_alias = (\<lambda>_ _. None), e_refuses_binding = (\<lambda>_ _. None),
     e_is_instance = (\<lambda>m. m \<noteq> 0), e_watch_fails = None\<rparr>"

definition sample_config :: "(nat, nat) config" where
  "sample_config =
     snd (config_on_change [''pool''] (Run_inline (Function ''resize'' False))
       (snd (config_on_change [''port''] (Run_inline (Function ''rebind'' False))
         (snd (config_init sample_env (Inr 5)
           (config_new ''Db'' ''db'' None \<lparr>sc_secret_paths = [], sc_field_names = [''port''],
             sc_is_values = False\<rparr> []))))))"

lemma sample_config_reach: "config_reach sample_env sample_config"
  unfolding sample_config_def
  by (rule config_next [OF config_next [OF config_next [OF config_here cs_init] cs_on_change] cs_on_change])

lemmas config_evals = sample_config_def sample_env_def config_on_change_def register_hook_def
  config_new_def config_init_def config_reload_def run_core_def deliver_all_def deliver_def
  passes_filter_def reach_hook_def core_evals

lemma sample_config_state:
  "c_cached sample_config = Some 6"
  "map snd (k_hooks (c_core sample_config)) =
     [Publish, Filtered [''port''] (Run_inline (Function ''rebind'' False)),
      Filtered [''pool''] (Run_inline (Function ''resize'' False))]"
  "c_log sample_config = []" "c_overrides sample_config = []"
  "k_overrides (c_core sample_config) = []"
  by (simp_all add: config_evals)

theorem reload_reaches_exactly_the_touched_hooks_witness:
  "map dl_hook (c_log (snd (config_reload sample_env (Inr 7) sample_config))) =
     [Run_inline (Function ''resize'' False)] \<and>
   config_current (snd (config_reload sample_env (Inr 7) sample_config)) = Inr 8"
proof -
  have filters: "passes_filter sample_env [''pool''] (Some 6) 8"
    "\<not> passes_filter sample_env [''port''] (Some 6) 8"
    by (simp_all add: passes_filter_def sample_env_def changed_paths_def changes_of_def touches_def
        py_startswith_def)
  show ?thesis
    using reload_reaches_exactly_the_touched_hooks [OF sample_config_reach, of 7 8, OF _ surjective_pairing]
    by (simp add: sample_config_state filters) (simp add: sample_env_def sample_world_def)
qed

text \<open>C31: In every reachable configuration the attribute \<open>current()\<close> reads is the native cache, the
  constructor's publish hook is the first hook and the only one of its kind, and whatever step
  follows, every call it makes to a user's hook finds \<open>current()\<close> answering the new model.\<close>

theorem hooks_read_the_new_model:
  assumes "config_reach env c" "config_step env c c'"
  shows "c_cached c' = k_cache (c_core c') \<and>
    (\<exists>rest. k_hooks (c_core c') = (1, Publish) # rest \<and> Publish \<notin> snd ` set rest) \<and>
    (\<exists>new. c_log c' = c_log c @ new \<and> (\<forall>d \<in> set new. dl_current d = Some (dl_new d)))"
proof -
  have inv: "config_inv c" by (rule config_inv_reach [OF assms(1)])
  show ?thesis
    using config_inv_step [OF assms(2) inv] log_grows_step [OF assms(2) inv]
    by (simp add: config_inv_def hooks_ok_def log_grows_def)
qed

theorem hooks_read_the_new_model_witness:
  "c_cached (snd (config_reload sample_env (Inr 7) sample_config)) =
     k_cache (c_core (snd (config_reload sample_env (Inr 7) sample_config)))"
  using hooks_read_the_new_model [OF sample_config_reach cs_reload [of sample_env sample_config "Inr 7"]]
  by blast

text \<open>The sources are fixed by the first load for good: once the engine is built with some
  sources, no sequence of operations changes them, and every fluent source call is refused and
  leaves the configuration as it was.\<close>

theorem sources_are_fixed_by_the_first_load:
  assumes "k_engine (c_core c) = Ready srcs current" "(config_step env)\<^sup>*\<^sup>* c c'"
  shows "(\<exists>current'. k_engine (c_core c') = Ready srcs current') \<and>
    (\<exists>e. config_source src c' = (Inl e, c')) \<and> (\<exists>e. config_cache path mode c' = (Inl e, c'))"
proof -
  have "frozen_with srcs (c_core c')"
    using assms(2) by (induction rule: rtranclp_induct)
      (use assms(1) in \<open>simp add: frozen_with_def\<close>, blast intro: frozen_step)
  then show ?thesis
    by (auto simp: frozen_with_def config_source_def core_configure_def config_cache_def core_cache_def)
qed

theorem sources_are_fixed_by_the_first_load_witness:
  "\<exists>e. config_source (Src_file ''late.toml'') sample_config = (Inl e, sample_config)"
proof -
  have "k_engine (c_core sample_config) = Ready [] (Some 5)" by (simp add: config_evals)
  from sources_are_fixed_by_the_first_load [OF this rtranclp.rtrancl_refl] show ?thesis by blast
qed



text \<open>The pins of an \<open>overrides()\<close> block are set before its \<open>try\<close>: when the engine refuses one of
  them the block raises without restoring, and the pins set before it stay.\<close>

theorem refused_pin_leaks_the_ones_before_it:
  "let (r, c') = config_overrides sample_env [(''host'', 4), (''port'', 13)] resolve_in resolve_out body
       sample_config in
     r = Inl (CoreExn (CoreValueError ''port'')) \<and> c_overrides sample_config = [] \<and>
     c_overrides c' = [(''host'', 4)] \<and> k_overrides (c_core c') = [(''host'', 4)]"
proof -
  have n: "py_replace ''__'' ''.'' ''host'' = ''host''" "py_replace ''__'' ''.'' ''port'' = ''port''"
    by (simp_all add: py_replace.simps)
  have a: "e_refuses sample_env ''host'' 4 = None"
    "e_refuses sample_env ''port'' 13 = Some (CoreValueError ''port'')"
    by (simp_all add: sample_env_def)
  show ?thesis
    by (simp add: config_overrides_def n set_override_ok [OF a(1)] set_override_refused [OF a(2)]
        sample_config_state dict_set_def)
qed

text \<open>The mirror keeps a path's first place when the path is set again, so a layer set to
  \<open>pool\<close>, \<open>pool.size\<close>, \<open>pool\<close> comes out of a block set to \<open>pool\<close>, \<open>pool.size\<close>: the pin below,
  which the last write had covered, is in force again.\<close>

theorem overrides_block_reorders_overlapping_pins:
  "let set = (\<lambda>path v c. snd (config_set_override sample_env path v c));
       c = set ''pool'' 3 (set ''pool.size'' 2 (set ''pool'' 1 sample_config));
       c' = snd (config_overrides sample_env [] (\<lambda>_. Inr 7) (\<lambda>_. Inr 7) body c) in
     k_overrides (c_core c) = [(''pool'', 1), (''pool.size'', 2), (''pool'', 3)] \<and>
     k_overrides (c_core c') = [(''pool'', 3), (''pool.size'', 2)]"
proof -
  let ?set = "\<lambda>path v c. snd (config_set_override sample_env path v c)"
  let ?c = "?set ''pool'' 3 (?set ''pool.size'' 2 (?set ''pool'' 1 sample_config))"
  have a: "e_refuses sample_env p v = None" if "v \<noteq> 13" for p v using that by (simp add: sample_env_def)
  have m: "mirror_ok sample_env ?c"
    by (intro mirror_ok_set_override mirror_ok_reach sample_config_reach)
  have k: "k_overrides (c_core ?c) = [(''pool'', 1), (''pool.size'', 2), (''pool'', 3)]"
    "c_overrides ?c = [(''pool'', 3), (''pool.size'', 2)]"
    by (simp_all add: set_override_ok [OF a] sample_config_state dict_set_def)
  show ?thesis
    using overrides_restored [OF m, of "[]" _ "\<lambda>_. Inr 7" "\<lambda>_. Inr 7" body, OF _ refl] k
    by (simp add: Let_def)
qed

lemma deliver_offloaded:
  "deliver env call (c\<lparr>c_offloaded := ps\<rparr>) = (deliver env call c)\<lparr>c_offloaded := ps\<rparr>"
  by (simp add: deliver_def reach_hook_def split: prod.splits pyhook.splits)

lemma deliver_all_offloaded:
  "deliver_all env calls (c\<lparr>c_offloaded := ps\<rparr>) = (deliver_all env calls c)\<lparr>c_offloaded := ps\<rparr>"
  by (induction calls arbitrary: c) (simp_all add: deliver_all_def deliver_offloaded)

lemma run_core_offloaded:
  "run_core env op (c\<lparr>c_offloaded := ps\<rparr>) =
     (fst (run_core env op c), (snd (run_core env op c))\<lparr>c_offloaded := ps\<rparr>)"
proof -
  have "c\<lparr>c_offloaded := ps, c_core := k\<rparr> = c\<lparr>c_core := k\<rparr>\<lparr>c_offloaded := ps\<rparr>" for k by simp
  then show ?thesis by (simp only: run_core_def Let_def deliver_all_offloaded) (simp add: deliver_all_offloaded)
qed

lemma config_current_offloaded:
  "config_current (c\<lparr>c_offloaded := ps\<rparr>) = config_current c"
  by (simp add: config_current_def split: option.splits)

text \<open>Every awaited load is its blocking twin, run on the pool \<open>_pool\<close> answers: the same result
  and the same configuration but for the record of the hand-over.\<close>

theorem async_twins_agree:
  "let pool = (case c_executor c of Some e \<Rightarrow> Some e | None \<Rightarrow> dflt);
       handed = (\<lambda>d. d\<lparr>c_offloaded := c_offloaded c @ [pool]\<rparr>) in
   config_init_async dflt env res c = map_prod id handed (config_init env res c) \<and>
   config_reload_async dflt env res c = map_prod id handed (config_reload env res c) \<and>
   config_load_async dflt env res c = map_prod id handed (config_load env res c) \<and>
   config_init_and_current_async dflt env res c =
     map_prod id handed (config_init_and_current env res c)"
  by (simp add: config_init_async_def config_reload_async_def config_load_async_def
      config_init_and_current_async_def config_init_and_current_def config_init_def config_reload_def
      config_load_def in_executor_def config_pool_def run_core_offloaded config_current_offloaded Let_def
      map_prod_def split_def split: sum.splits)

text \<open>A \<open>watching()\<close> block never leaves its watcher running: whatever the body does and however
  it ends, the watcher the block started is stopped (or was detached), the other watchers are as
  the body left them, and the body's outcome is the block's.\<close>

theorem watching_stops_its_watcher:
  assumes "e_watch_fails env = None"
    "config_watching env body c = (r, c')"
    "body (length (c_watches c)) (snd (config_watch env c)) = (r', d)"
  shows "r = r' \<and> c_watches c' =
    (c_watches d)[length (c_watches c) := watch_stop (c_watches d ! length (c_watches c))] \<and>
    (length (c_watches c) < length (c_watches d) \<longrightarrow>
       \<not> watch_running (c_watches c' ! length (c_watches c)))"
  using assms by (auto simp: config_watching_def config_watch_def stopping_on_the_way_out_def
      stop_watch_def Let_def)

theorem watching_stops_its_watcher_witness:
  "let body = (\<lambda>_ d. (Inl (BlockRaised ''boom''), d)) :: nat \<Rightarrow> (unit, nat, nat) body;
       (r, c') = config_watching sample_env body sample_config in
     r = Inl (BlockRaised ''boom'') \<and> c_watches c' = [Stopped]"
proof -
  let ?body = "(\<lambda>_ d. (Inl (BlockRaised ''boom''), d)) :: nat \<Rightarrow> (unit, nat, nat) body"
  have f: "e_watch_fails sample_env = None" by (simp add: sample_env_def)
  have w: "c_watches sample_config = []" by (simp add: config_evals)
  obtain r c' where b: "config_watching sample_env ?body sample_config = (r, c')" by fastforce
  show ?thesis
    using watching_stops_its_watcher [OF f b refl] b
    by (simp add: w config_watch_def f watch_stop_def Let_def)
qed

end
