(* ===== verification/Group.thy ===== *)
theory Group
  imports Config "HOL-Library.Multiset"
begin

section \<open>Several configurations, one lifecycle: \<open>_group.py\<close>\<close>

text \<open>
  A member is a configuration with what it runs against and what its sources resolve to; the
  members of one group share the model's type variables. \<open>reload_atomic\<close> is stated over any
  member with the two-phase interface \<open>prepare\<close>, \<open>commit\<close>, \<open>discard\<close>, and the interface is
  interpreted on the configuration. The threads of \<open>_in_parallel\<close> and the tasks of
  \<open>_each_async\<close> are step relations.
\<close>

subsection \<open>One member after another\<close>

text \<open>\<open>_each\<close> without concurrency: the failures in order, the first one raised.\<close>

fun each_member ::
  "('c \<Rightarrow> ('e, unit) result \<times> 'c) \<Rightarrow> bool \<Rightarrow> 'c list \<Rightarrow> 'e list \<times> 'c list" where
  "each_member work stop_on_failure [] = ([], [])"
| "each_member work stop_on_failure (c # cs) =
     (case work c of
        (Inl e, c') \<Rightarrow>
          if stop_on_failure then ([e], c' # cs)
          else (let (failures, cs') = each_member work stop_on_failure cs in (e # failures, c' # cs'))
      | (Inr _, c') \<Rightarrow>
          (let (failures, cs') = each_member work stop_on_failure cs in (failures, c' # cs')))"

definition raise_first :: "'e list \<times> 'c list \<Rightarrow> ('e, unit) result \<times> 'c list" where
  "raise_first r = (case fst r of [] \<Rightarrow> Inr () | e # _ \<Rightarrow> Inl e, snd r)"

lemma each_member_all:
  "each_member work False cs =
     (concat (map (\<lambda>c. case fst (work c) of Inl e \<Rightarrow> [e] | Inr _ \<Rightarrow> []) cs), map (\<lambda>c. snd (work c)) cs)"
  by (induction cs) (auto simp: Let_def split_def split: sum.splits prod.splits)

text \<open>Stopping: the members before the first failure have done their work, it has tried, and the
  ones after it are untouched.\<close>

lemma each_member_stop_never:
  "(\<And>c. c \<in> set cs \<Longrightarrow> \<exists>x. fst (work c) = Inr x) \<Longrightarrow>
   each_member work True cs = ([], map (\<lambda>c. snd (work c)) cs)"
proof (induction cs)
  case (Cons c cs)
  obtain x c' where "work c = (Inr x, c')" using Cons.prems [of c] by (cases "work c") auto
  with Cons show ?case by (simp add: Let_def)
qed simp

lemma each_member_stop_at:
  "(\<And>c. c \<in> set pre \<Longrightarrow> \<exists>x. fst (work c) = Inr x) \<Longrightarrow> fst (work c) = Inl e \<Longrightarrow>
   each_member work True (pre @ c # rest) =
     ([e], map (\<lambda>c. snd (work c)) pre @ snd (work c) # rest)"
proof (induction pre)
  case Nil
  then show ?case by (cases "work c") simp
next
  case (Cons d pre)
  obtain x d' where "work d = (Inr x, d')" using Cons.prems(1) [of d] by (cases "work d") auto
  with Cons show ?case by (simp add: Let_def)
qed

subsection \<open>All or nothing\<close>

fun prepare_each ::
  "('c \<Rightarrow> ('e, nat) result \<times> 'c) \<Rightarrow> 'c list \<Rightarrow> 'e option \<times> nat list \<times> 'c list" where
  "prepare_each prepare [] = (None, [], [])"
| "prepare_each prepare (c # cs) =
     (case prepare c of
        (Inl e, c') \<Rightarrow> (Some e, [], c' # cs)
      | (Inr token, c') \<Rightarrow>
          (let (failure, tokens, cs') = prepare_each prepare cs in (failure, token # tokens, c' # cs')))"

fun discard_each :: "(nat \<Rightarrow> 'c \<Rightarrow> 'c) \<Rightarrow> nat list \<Rightarrow> 'c list \<Rightarrow> 'c list" where
  "discard_each discard (token # tokens) (c # cs) = discard token c # discard_each discard tokens cs"
| "discard_each discard _ cs = cs"

fun commit_each ::
  "(nat \<Rightarrow> 'c \<Rightarrow> ('e, unit) result \<times> 'c) \<Rightarrow> (nat \<Rightarrow> 'c \<Rightarrow> 'c) \<Rightarrow> nat list \<Rightarrow> 'c list \<Rightarrow>
   ('e, unit) result \<times> 'c list" where
  "commit_each commit discard (token # tokens) (c # cs) =
     (case commit token c of
        (Inl e, c') \<Rightarrow> (Inl e, c' # discard_each discard tokens cs)
      | (Inr _, c') \<Rightarrow> (let (r, cs') = commit_each commit discard tokens cs in (r, c' # cs')))"
| "commit_each commit discard _ cs = (Inr (), cs)"

definition reload_atomic ::
  "('c \<Rightarrow> ('e, nat) result \<times> 'c) \<Rightarrow> (nat \<Rightarrow> 'c \<Rightarrow> ('e, unit) result \<times> 'c) \<Rightarrow> (nat \<Rightarrow> 'c \<Rightarrow> 'c) \<Rightarrow>
   'c list \<Rightarrow> ('e, unit) result \<times> 'c list" where
  "reload_atomic prepare commit discard cs =
     (case prepare_each prepare cs of
        (Some e, tokens, cs') \<Rightarrow> (Inl e, discard_each discard tokens cs')
      | (None, tokens, cs') \<Rightarrow> commit_each commit discard tokens cs')"

text \<open>What a member promises: preparing shows nothing, a prepared commit can be applied or
  dropped, and dropping it leaves the member as it was found.\<close>

locale two_phase =
  fixes prepare :: "'c \<Rightarrow> ('e, nat) result \<times> 'c"
    and commit :: "nat \<Rightarrow> 'c \<Rightarrow> ('e, unit) result \<times> 'c"
    and discard :: "nat \<Rightarrow> 'c \<Rightarrow> 'c"
    and shown :: "'c \<Rightarrow> 's"
    and held :: "'c \<Rightarrow> nat list"
    and ok :: "'c \<Rightarrow> bool"
    and applicable :: "'c \<Rightarrow> nat \<Rightarrow> 'c \<Rightarrow> bool"
    and installed :: "'c \<Rightarrow> 'c \<Rightarrow> bool"
  assumes prepare_refused: "ok c \<Longrightarrow> prepare c = (Inl e, c') \<Longrightarrow>
      shown c' = shown c \<and> held c' = held c \<and> ok c'"
    and prepare_done: "ok c \<Longrightarrow> prepare c = (Inr token, c') \<Longrightarrow>
      shown c' = shown c \<and> applicable c token c' \<and> ok c'"
    and discard_done: "applicable c token c' \<Longrightarrow> ok c' \<Longrightarrow>
      shown (discard token c') = shown c \<and> held (discard token c') = held c \<and> ok (discard token c')"
    and commit_done: "applicable c token c' \<Longrightarrow> ok c' \<Longrightarrow>
      \<exists>c''. commit token c' = (Inr (), c'') \<and> installed c c'' \<and> held c'' = held c \<and> ok c''"
begin

lemma prepare_each_refused:
  assumes "list_all ok cs" "prepare_each prepare cs = (Some e, tokens, cs')"
  shows "map shown (discard_each discard tokens cs') = map shown cs \<and>
    map held (discard_each discard tokens cs') = map held cs \<and>
    list_all ok (discard_each discard tokens cs')"
  using assms
proof (induction cs arbitrary: tokens cs')
  case (Cons c cs)
  obtain r c' where p: "prepare c = (r, c')" by fastforce
  show ?case
  proof (cases r)
    case (Inl e')
    with Cons.prems p prepare_refused [of c e' c'] show ?thesis by auto
  next
    case (Inr token)
    obtain ts ds where rest: "prepare_each prepare cs = (Some e, ts, ds)" "tokens = token # ts" "cs' = c' # ds"
      using Cons.prems(2) p Inr by (auto simp: Let_def split: prod.splits)
    moreover have "ok c" using Cons.prems(1) by simp
    ultimately show ?thesis
      using Cons.IH [of ts ds] Cons.prems(1) prepare_done [of c token c'] p Inr
        discard_done [of c token c'] by simp
  qed
qed simp

lemma prepare_each_done:
  assumes "list_all ok cs" "prepare_each prepare cs = (None, tokens, cs')"
  shows "\<exists>cs''. commit_each commit discard tokens cs' = (Inr (), cs'') \<and>
    list_all2 installed cs cs'' \<and> map held cs'' = map held cs \<and> list_all ok cs''"
  using assms
proof (induction cs arbitrary: tokens cs')
  case (Cons c cs)
  obtain r c' where p: "prepare c = (r, c')" by fastforce
  obtain token ts ds where rest: "r = Inr token" "prepare_each prepare cs = (None, ts, ds)"
    "tokens = token # ts" "cs' = c' # ds"
    using Cons.prems(2) p by (auto simp: Let_def split: prod.splits sum.splits)
  have c: "ok c" using Cons.prems(1) by simp
  from prepare_done [OF c, of token c'] p rest(1) have "applicable c token c'" "ok c'" by simp_all
  from commit_done [OF this] obtain c'' where "commit token c' = (Inr (), c'')" "installed c c''"
    "held c'' = held c" "ok c''" by blast
  moreover obtain cs'' where "commit_each commit discard ts ds = (Inr (), cs'')"
    "list_all2 installed cs cs''" "map held cs'' = map held cs" "list_all ok cs''"
    using Cons.IH [OF _ rest(2)] Cons.prems(1) by auto
  ultimately show ?case using rest by (intro exI [of _ "c'' # cs''"]) simp
qed simp

lemma all_or_nothing:
  assumes "list_all ok cs" "reload_atomic prepare commit discard cs = (r, cs')"
  shows "(\<exists>e. r = Inl e) \<and> map shown cs' = map shown cs \<and> map held cs' = map held cs \<and> list_all ok cs' \<or>
    r = Inr () \<and> list_all2 installed cs cs' \<and> map held cs' = map held cs \<and> list_all ok cs'"
proof -
  obtain failure tokens ds where p: "prepare_each prepare cs = (failure, tokens, ds)" by (cases "prepare_each prepare cs")
  show ?thesis
  proof (cases failure)
    case None
    with p prepare_each_done [OF assms(1)] assms(2) show ?thesis
      by (fastforce simp: reload_atomic_def)
  next
    case (Some e)
    with p prepare_each_refused [OF assms(1)] assms(2) show ?thesis
      by (auto simp: reload_atomic_def)
  qed
qed

end

subsection \<open>A configuration is such a member\<close>

record ('t, 'm) member =
  mb_env :: "('t, 'm) env"
  mb_resolve :: "('t, 'm) config \<Rightarrow> 't resolution"
  mb_config :: "('t, 'm) config"

definition on_member ::
  "(('t, 'm) env \<Rightarrow> ('t, 'm) config \<Rightarrow> 'r \<times> ('t, 'm) config) \<Rightarrow> ('t, 'm) member \<Rightarrow>
   'r \<times> ('t, 'm) member" where
  "on_member work m =
     (let (r, c) = work (mb_env m) (mb_config m) in (r, m\<lparr>mb_config := c\<rparr>))"

definition member_init :: "('t, 'm) member \<Rightarrow> (config_error, unit) result \<times> ('t, 'm) member" where
  "member_init m = on_member (\<lambda>env c. config_init env (mb_resolve m c) c) m"

definition member_reload :: "('t, 'm) member \<Rightarrow> (config_error, unit) result \<times> ('t, 'm) member" where
  "member_reload m = on_member (\<lambda>env c. config_reload env (mb_resolve m c) c) m"

definition member_prepare :: "('t, 'm) member \<Rightarrow> (config_error, nat) result \<times> ('t, 'm) member" where
  "member_prepare m = on_member (\<lambda>env c. run_core env (core_prepare (e_world env) (mb_resolve m c)) c) m"

definition member_commit :: "nat \<Rightarrow> ('t, 'm) member \<Rightarrow> (config_error, unit) result \<times> ('t, 'm) member" where
  "member_commit token m = on_member (\<lambda>env c. run_core env (core_commit (e_world env) token) c) m"

definition member_discard :: "nat \<Rightarrow> ('t, 'm) member \<Rightarrow> ('t, 'm) member" where
  "member_discard token m =
     m\<lparr>mb_config := (mb_config m)\<lparr>c_core := core_discard token (c_core (mb_config m))\<rparr>\<rparr>"

text \<open>What a reader of a member sees, and the commits it holds.\<close>

definition member_shown :: "('t, 'm) member \<Rightarrow> 'm option \<times> nat \<times> 't option \<times> 'm delivery list" where
  "member_shown m = (c_cached (mb_config m), config_generation (mb_config m),
     engine_current (c_core (mb_config m)), c_log (mb_config m))"

definition member_held :: "('t, 'm) member \<Rightarrow> nat list" where
  "member_held m = map fst (k_prepared (c_core (mb_config m)))"

definition member_ok :: "('t, 'm) member \<Rightarrow> bool" where
  "member_ok m \<longleftrightarrow> config_inv (mb_config m)"

text \<open>A commit just prepared: its tree is the one staged, and not claimed yet.\<close>

definition member_applicable :: "('t, 'm) member \<Rightarrow> nat \<Rightarrow> ('t, 'm) member \<Rightarrow> bool" where
  "member_applicable before token m \<longleftrightarrow>
     member_shown m = member_shown before \<and> mb_env m = mb_env before \<and>
     (let k = c_core (mb_config m) in
      \<exists>tree p srcs previous. k_prepared k = k_prepared (c_core (mb_config before)) @ [(token, tree)] \<and>
        token \<notin> fst ` set (k_prepared (c_core (mb_config before))) \<and>
        mb_resolve before (mb_config before) = Inr tree \<and>
        w_validate (e_world (mb_env before)) tree = Inr (st_model p) \<and>
        staged_for tree k = Some p \<and> k_last_committed k < st_sequence p \<and>
        k_engine k = Ready srcs previous)"

definition member_installed :: "('t, 'm) member \<Rightarrow> ('t, 'm) member \<Rightarrow> bool" where
  "member_installed before m \<longleftrightarrow>
     (\<exists>tree model. mb_resolve before (mb_config before) = Inr tree \<and>
        w_validate (e_world (mb_env before)) tree = Inr model \<and>
        c_cached (mb_config m) = Some model \<and>
        config_generation (mb_config m) = config_generation (mb_config before) + 1 \<and>
        engine_current (c_core (mb_config m)) = Some tree)"


lemma core_prepare_cases:
  assumes "core_prepare w res k = (r, k', calls)"
  shows "calls = [] \<and>
    ((\<exists>e. r = Inl e \<and> registrations k' = registrations k \<and> k_cache k' = k_cache k \<and>
        k_generation k' = k_generation k \<and> engine_current k' = engine_current k \<and>
        k_prepared k' = k_prepared k) \<or>
     (\<exists>tree m. r = Inr (k_next_prepared k) \<and> res = Inr tree \<and> w_validate w tree = Inr m \<and>
        registrations k' = registrations k \<and> k_cache k' = k_cache k \<and>
        k_generation k' = k_generation k \<and> engine_current k' = engine_current k \<and>
        k_prepared k' = k_prepared k @ [(k_next_prepared k, tree)] \<and>
        staged_for tree k' = Some \<lparr>st_sequence = Suc (k_next_sequence k), st_tree = tree, st_model = m\<rparr> \<and>
        k_last_committed k' = k_last_committed k \<and>
        (\<exists>srcs previous. k_engine k' = Ready srcs previous)))"
proof (cases "case res of Inl _ \<Rightarrow> True | Inr tree \<Rightarrow> (\<exists>e. w_validate w tree = Inl e)")
  case True
  then obtain e k1 where p: "core_prepare w res k = raised e k1"
    "k1 = snd (engine_load w Op_prepare res (core_dynamic k))"
    using core_prepare_refused [OF True, of k] by blast
  have k1: "registrations k1 = registrations k" "k_cache k1 = k_cache k" "k_generation k1 = k_generation k"
    "k_prepared k1 = k_prepared k"
    by (simp_all add: p(2))
  have "k_engine k1 = k_engine (core_dynamic k)" by (simp add: p(2))
  then have c: "engine_current k1 = engine_current k"
    using core_dynamic_frame(12) [of k] by (simp add: engine_current_def)
  have r: "r = Inl (fst (core_raise e k1))" "k' = snd (core_raise e k1)" "calls = []"
    using assms p(1) by (simp_all add: raised_def)
  have "registrations k' = registrations k1" "k_cache k' = k_cache k1" "k_generation k' = k_generation k1"
    "k_prepared k' = k_prepared k1" "k_engine k' = k_engine k1"
    by (simp_all add: r(2) core_raise_def registrations_def split: core_error.splits)
  then show ?thesis using k1 c r by (auto simp: engine_current_def)
next
  case False
  then obtain tree where tree: "res = Inr tree" "\<nexists>e. w_validate w tree = Inl e" by (cases res) auto
  then obtain m where "w_validate w tree = Inr m" by (cases "w_validate w tree") auto
  with tree have ok: "res = Inr tree" "w_validate w tree = Inr m" by simp_all
  obtain srcs previous where e: "k_engine (core_dynamic k) = Ready srcs previous"
    using core_dynamic_ready by blast
  have "engine_current (core_dynamic k) = engine_current k" by simp
  with e have "previous = engine_current k" by (simp add: engine_current_def)
  then show ?thesis
    using assms ok e core_prepare_ok [OF ok(2), of k] registrations_update(2) [of k]
    by (auto simp: Let_def core_validate_ok staged_for_def registrations_def engine_current_def)
qed


lemma drop_last_token:
  "token \<notin> fst ` set pre \<Longrightarrow> k_prepared k = pre @ [(token, tree)] \<Longrightarrow>
   k_prepared (drop_prepared token k) = pre"
  by (simp add: drop_prepared_def filter_fresh_token)

lemma core_commit_applicable:
  assumes "k_prepared k = pre @ [(token, tree)]" "token \<notin> fst ` set pre"
    "staged_for tree k = Some p" "k_last_committed k < st_sequence p" "k_engine k = Ready srcs previous"
  shows "core_commit w token k = core_publish (st_model p)
    (claim p ((drop_prepared token k)\<lparr>k_engine := Ready srcs (Some tree)\<rparr>))"
proof -
  let ?d = "(drop_prepared token k)\<lparr>k_engine := Ready srcs (Some tree)\<rparr>"
  have d: "k_engine (drop_prepared token k) = Ready srcs previous"
    using assms(5) by (simp add: drop_prepared_def)
  have "core_commit w token k = install_and_publish w tree (drop_prepared token k)"
    using map_of_fresh_token [OF assms(2)] by (simp add: core_commit_def assms(1))
  also have "\<dots> = inner_commit w tree ?d"
    by (rule install_and_publish_one_commit [OF d])
  also have "\<dots> = core_publish (st_model p) (claim p ?d)"
    using assms(3,4) by (intro inner_commit_fresh) (simp_all add: staged_for_def drop_prepared_def)
  finally show ?thesis .
qed

lemma config_inv_prepare: "config_inv c \<Longrightarrow> config_inv (snd (run_core env (core_prepare w res) c))"
proof -
  assume c: "config_inv c"
  obtain r k' calls where p: "core_prepare w res (c_core c) = (r, k', calls)" by (cases "core_prepare w res (c_core c)")
  then have "registrations k' = registrations (c_core c)" using core_prepare_cases [OF p] by auto
  then show ?thesis
    using p by (intro config_inv_run_core [of c w "core_prepare w res" env, OF c step_prepare])
      (simp_all add: registrations_def)
qed

lemma config_inv_commit:
  "config_inv c \<Longrightarrow> config_inv (snd (run_core env (core_commit w token) c))"
proof -
  assume c: "config_inv c"
  have "registrations (after (core_commit w token (c_core c))) = registrations (c_core c)"
    by (simp add: core_commit_def split: option.splits)
  then show ?thesis
    by (intro config_inv_run_core [of c w "core_commit w token" env, OF c step_commit])
      (simp_all add: registrations_def)
qed

definition member_core :: "('t, 'm) member \<Rightarrow> ('t, 'm, pyhook) core" where
  "member_core m = c_core (mb_config m)"

lemma member_prepare_run:
  assumes "member_prepare m = (r, m')"
  obtains q k' where
    "core_prepare (e_world (mb_env m)) (mb_resolve m (mb_config m)) (member_core m) = (q, k', [])"
    "m' = m\<lparr>mb_config := (mb_config m)\<lparr>c_core := k'\<rparr>\<rparr>"
    "r = (case q of Inl e \<Rightarrow> Inl (CoreExn e) | Inr t \<Rightarrow> Inr t)"
proof -
  obtain q k' calls where p: "core_prepare (e_world (mb_env m)) (mb_resolve m (mb_config m)) (member_core m) =
      (q, k', calls)" by (cases "core_prepare (e_world (mb_env m)) (mb_resolve m (mb_config m)) (member_core m)")
  moreover have "calls = []" using core_prepare_cases [OF p] by simp
  ultimately show thesis
    using assms that [of q k']
    by (simp add: member_prepare_def on_member_def run_core_def member_core_def Let_def)
qed

lemma member_prepare_ok: "member_ok m \<Longrightarrow> member_ok (snd (member_prepare m))"
  using config_inv_prepare [of "mb_config m" "mb_env m" "e_world (mb_env m)" "mb_resolve m (mb_config m)"]
  by (simp add: member_ok_def member_prepare_def on_member_def split_def Let_def)

lemma member_prepare_refused:
  assumes "member_ok m" "member_prepare m = (Inl e, m')"
  shows "member_shown m' = member_shown m \<and> member_held m' = member_held m \<and> member_ok m'"
proof -
  obtain q k' where p: "core_prepare (e_world (mb_env m)) (mb_resolve m (mb_config m)) (member_core m) = (q, k', [])"
    and m': "m' = m\<lparr>mb_config := (mb_config m)\<lparr>c_core := k'\<rparr>\<rparr>"
    and q: "Inl e = (case q of Inl e \<Rightarrow> Inl (CoreExn e) | Inr t \<Rightarrow> Inr t)"
    using member_prepare_run [OF assms(2)] by blast
  have "member_ok m'" using member_prepare_ok [OF assms(1)] assms(2) by simp
  moreover obtain e' where "q = Inl e'" using q by (cases q) auto
  ultimately show ?thesis
    using core_prepare_cases [OF p] m'
    by (simp add: member_shown_def member_held_def config_generation_def member_core_def)
qed

lemma member_prepare_done:
  assumes "member_ok m" "member_prepare m = (Inr token, m')"
  shows "member_shown m' = member_shown m \<and> member_applicable m token m' \<and> member_ok m'"
proof -
  obtain q k' where p: "core_prepare (e_world (mb_env m)) (mb_resolve m (mb_config m)) (member_core m) = (q, k', [])"
    and m': "m' = m\<lparr>mb_config := (mb_config m)\<lparr>c_core := k'\<rparr>\<rparr>"
    and q: "Inr token = (case q of Inl e \<Rightarrow> Inl (CoreExn e) | Inr t \<Rightarrow> Inr t)"
    using member_prepare_run [OF assms(2)] by blast
  have ok: "member_ok m'" using member_prepare_ok [OF assms(1)] assms(2) by simp
  have inv: "core_inv (member_core m)"
    using assms(1) by (simp add: member_ok_def config_inv_def member_core_def)
  have q': "q = Inr token" using q by (cases q) auto
  from core_prepare_cases [OF p] obtain tree v where k: "token = k_next_prepared (member_core m)"
    "mb_resolve m (mb_config m) = Inr tree" "w_validate (e_world (mb_env m)) tree = Inr v"
    "registrations k' = registrations (member_core m)" "k_cache k' = k_cache (member_core m)"
    "k_generation k' = k_generation (member_core m)" "engine_current k' = engine_current (member_core m)"
    "k_prepared k' = k_prepared (member_core m) @ [(token, tree)]"
    "staged_for tree k' = Some \<lparr>st_sequence = Suc (k_next_sequence (member_core m)), st_tree = tree, st_model = v\<rparr>"
    "k_last_committed k' = k_last_committed (member_core m)" "\<exists>srcs previous. k_engine k' = Ready srcs previous"
    using q' by auto
  have shown: "member_shown m' = member_shown m"
    using k m' by (simp add: member_shown_def config_generation_def member_core_def)
  have "k_last_committed k' < Suc (k_next_sequence (member_core m))"
    using k(10) inv by (simp add: core_inv_def)
  then have "member_applicable m token m'"
    unfolding member_applicable_def
    using shown k m' fresh_token [OF inv] by (auto simp: member_core_def Let_def)
  with shown ok show ?thesis by simp
qed

lemma member_discard_done:
  assumes "member_applicable m token m'" "member_ok m'"
  shows "member_shown (member_discard token m') = member_shown m \<and>
    member_held (member_discard token m') = member_held m \<and> member_ok (member_discard token m')"
  using assms drop_last_token [of token "k_prepared (c_core (mb_config m))" "c_core (mb_config m')"]
    core_inv_drop [of "c_core (mb_config m')" token]
  by (auto simp: member_applicable_def member_discard_def member_shown_def member_held_def Let_def
      config_generation_def core_discard_def member_ok_def config_inv_def hooks_ok_def)
    (auto simp: drop_prepared_def engine_current_def)

lemma member_commit_done:
  assumes "member_applicable m token m'" "member_ok m'"
  shows "\<exists>m''. member_commit token m' = (Inr (), m'') \<and> member_installed m m'' \<and>
    member_held m'' = member_held m \<and> member_ok m''"
proof -
  let ?k = "c_core (mb_config m')"
  obtain tree p srcs previous where a: "member_shown m' = member_shown m" "mb_env m' = mb_env m"
    "k_prepared ?k = k_prepared (c_core (mb_config m)) @ [(token, tree)]"
    "token \<notin> fst ` set (k_prepared (c_core (mb_config m)))" "mb_resolve m (mb_config m) = Inr tree"
    "w_validate (e_world (mb_env m)) tree = Inr (st_model p)"
    "staged_for tree ?k = Some p" "k_last_committed ?k < st_sequence p" "k_engine ?k = Ready srcs previous"
    using assms(1) by (auto simp: member_applicable_def Let_def)
  let ?d = "claim p ((drop_prepared token ?k)\<lparr>k_engine := Ready srcs (Some tree)\<rparr>)"
  have c: "core_commit w token ?k = core_publish (st_model p) ?d" for w
    by (rule core_commit_applicable [OF a(3,4,7,8,9)])
  let ?c = "snd (run_core (mb_env m') (core_commit (e_world (mb_env m')) token) (mb_config m'))"
  have ok: "config_inv ?c" using assms(2) by (simp add: member_ok_def config_inv_commit)
  have core: "c_core ?c = after (core_publish (st_model p) ?d)" by (simp add: c)
  have "member_commit token m' = (Inr (), m'\<lparr>mb_config := ?c\<rparr>)"
    by (simp add: member_commit_def on_member_def run_core_def c core_publish_def Let_def)
  moreover have "member_installed m (m'\<lparr>mb_config := ?c\<rparr>)"
    using a(1,5,6) ok core
    by (auto simp: member_installed_def member_shown_def config_generation_def config_inv_def
        core_publish_def claim_def engine_current_def drop_prepared_def)
  moreover have "k_prepared (c_core ?c) = k_prepared (c_core (mb_config m))"
    unfolding core using drop_last_token [OF a(4,3)] by (simp add: core_publish_def claim_def)
  then have "member_held (m'\<lparr>mb_config := ?c\<rparr>) = member_held m"
    by (simp add: member_held_def)
  ultimately show ?thesis using ok by (auto simp: member_ok_def)
qed

interpretation dc: two_phase member_prepare member_commit member_discard member_shown member_held
  member_ok member_applicable member_installed
proof unfold_locales
  fix m m' :: "('t, 'm) member" and e token
  show "member_ok m \<Longrightarrow> member_prepare m = (Inl e, m') \<Longrightarrow>
      member_shown m' = member_shown m \<and> member_held m' = member_held m \<and> member_ok m'"
    by (rule member_prepare_refused)
  show "member_ok m \<Longrightarrow> member_prepare m = (Inr token, m') \<Longrightarrow>
      member_shown m' = member_shown m \<and> member_applicable m token m' \<and> member_ok m'"
    by (rule member_prepare_done)
  show "member_applicable m token m' \<Longrightarrow> member_ok m' \<Longrightarrow>
      member_shown (member_discard token m') = member_shown m \<and>
      member_held (member_discard token m') = member_held m \<and> member_ok (member_discard token m')"
    by (rule member_discard_done)
  show "member_applicable m token m' \<Longrightarrow> member_ok m' \<Longrightarrow>
      \<exists>m''. member_commit token m' = (Inr (), m'') \<and> member_installed m m'' \<and>
        member_held m'' = member_held m \<and> member_ok m''"
    by (rule member_commit_done)
qed


subsection \<open>Threads: \<open>_in_parallel\<close>\<close>

text \<open>A worker takes the next job or leaves, under the lock; runs it; and, if it raised, appends the
  exception under the lock, and leaves too when a failure stops the group. A job is its index. The
  jobs taken and the jobs that returned are kept as history.\<close>

datatype worker = Looking | Working nat | Failing nat | Left

record pool =
  po_pending :: "nat list"
  po_errors :: "nat list"
  po_taken :: "nat list"
  po_done :: "nat list"
  po_workers :: "worker list"

definition pool_new :: "nat \<Rightarrow> int option \<Rightarrow> pool" where
  "pool_new jobs concurrency =
     (let n = (case concurrency of None \<Rightarrow> 1 | Some c \<Rightarrow> nat c) in
      \<lparr>po_pending = [0..<jobs], po_errors = [], po_taken = [], po_done = [],
       po_workers = replicate (min n jobs) Looking\<rparr>)"

definition worker_takes :: "bool \<Rightarrow> nat \<Rightarrow> pool \<Rightarrow> pool" where
  "worker_takes stop i p =
     (if po_pending p = [] \<or> (po_errors p \<noteq> [] \<and> stop) then p\<lparr>po_workers := (po_workers p)[i := Left]\<rparr>
      else p\<lparr>po_pending := tl (po_pending p), po_taken := po_taken p @ [hd (po_pending p)],
             po_workers := (po_workers p)[i := Working (hd (po_pending p))]\<rparr>)"

definition job_ends :: "(nat \<Rightarrow> bool) \<Rightarrow> nat \<Rightarrow> nat \<Rightarrow> pool \<Rightarrow> pool" where
  "job_ends raises i j p =
     (if raises j then p\<lparr>po_workers := (po_workers p)[i := Failing j]\<rparr>
      else p\<lparr>po_done := po_done p @ [j], po_workers := (po_workers p)[i := Looking]\<rparr>)"

definition worker_reports :: "bool \<Rightarrow> nat \<Rightarrow> nat \<Rightarrow> pool \<Rightarrow> pool" where
  "worker_reports stop i j p =
     p\<lparr>po_errors := po_errors p @ [j],
       po_workers := (po_workers p)[i := (if stop then Left else Looking)]\<rparr>"

inductive pool_step :: "bool \<Rightarrow> (nat \<Rightarrow> bool) \<Rightarrow> pool \<Rightarrow> pool \<Rightarrow> bool" for stop raises where
  pool_takes: "i < length (po_workers p) \<Longrightarrow> po_workers p ! i = Looking \<Longrightarrow>
     pool_step stop raises p (worker_takes stop i p)"
| pool_ends: "i < length (po_workers p) \<Longrightarrow> po_workers p ! i = Working j \<Longrightarrow>
     pool_step stop raises p (job_ends raises i j p)"
| pool_reports: "i < length (po_workers p) \<Longrightarrow> po_workers p ! i = Failing j \<Longrightarrow>
     pool_step stop raises p (worker_reports stop i j p)"

text \<open>The jobs in hand: running, or raised and not reported yet.\<close>

fun in_hand :: "worker \<Rightarrow> nat list" where
  "in_hand (Working j) = [j]"
| "in_hand (Failing j) = [j]"
| "in_hand _ = []"

definition hands :: "worker list \<Rightarrow> nat multiset" where
  "hands ws = mset (concat (map in_hand ws))"

lemma hands_update:
  "i < length ws \<Longrightarrow> hands (ws[i := w]) + mset (in_hand (ws ! i)) = hands ws + mset (in_hand w)"
proof (induction ws arbitrary: i)
  case (Cons x xs)
  then show ?case by (cases i) (auto simp: hands_def ac_simps)
qed simp

definition pool_inv :: "bool \<Rightarrow> (nat \<Rightarrow> bool) \<Rightarrow> nat \<Rightarrow> pool \<Rightarrow> bool" where
  "pool_inv stop raises n p \<longleftrightarrow>
     po_taken p @ po_pending p = [0..<n] \<and>
     mset (po_taken p) = mset (po_done p) + mset (po_errors p) + hands (po_workers p) \<and>
     (\<forall>j \<in> set (po_errors p). raises j) \<and> (\<forall>j \<in> set (po_done p). \<not> raises j) \<and>
     (\<forall>j. Failing j \<in> set (po_workers p) \<longrightarrow> raises j) \<and>
     (Left \<in> set (po_workers p) \<longrightarrow> po_pending p = [] \<or> (po_errors p \<noteq> [] \<and> stop))"

lemma hands_replicate [simp]: "hands (replicate n Looking) = {#}"
  by (induction n) (simp_all add: hands_def)

lemma pool_inv_new: "pool_inv stop raises n (pool_new n concurrency)"
  by (auto simp: pool_inv_def pool_new_def Let_def)

lemma in_set_update: "x \<in> set (ws[i := w]) \<Longrightarrow> x = w \<or> x \<in> set ws"
  by (metis insertE set_update_subset_insert subsetD)

lemma pool_inv_step:
  "pool_step stop raises p p' \<Longrightarrow> pool_inv stop raises n p \<Longrightarrow> pool_inv stop raises n p'"
proof (induction rule: pool_step.induct)
  case (pool_takes i p)
  then show ?case
    using hands_update [of i "po_workers p" Left]
      hands_update [of i "po_workers p" "Working (hd (po_pending p))"]
    by (cases "po_pending p")
      (auto simp: worker_takes_def pool_inv_def dest: in_set_update)
next
  case (pool_ends i p j)
  then show ?case
    using hands_update [of i "po_workers p" "Failing j"] hands_update [of i "po_workers p" Looking]
    by (auto simp: job_ends_def pool_inv_def dest: in_set_update)
next
  case (pool_reports i p j)
  then have "Failing j \<in> set (po_workers p)" by (metis nth_mem)
  with pool_reports show ?case
    using hands_update [of i "po_workers p" Left] hands_update [of i "po_workers p" Looking]
    by (auto simp: worker_reports_def pool_inv_def dest: in_set_update)
qed

lemma pool_inv_steps:
  "(pool_step stop raises)\<^sup>*\<^sup>* p p' \<Longrightarrow> pool_inv stop raises n p \<Longrightarrow> pool_inv stop raises n p'"
  by (induction rule: rtranclp_induct) (auto intro: pool_inv_step)

text \<open>What is left to do decreases with every step.\<close>

fun worker_weight :: "worker \<Rightarrow> nat" where
  "worker_weight Looking = 1"
| "worker_weight (Working _) = 3"
| "worker_weight (Failing _) = 2"
| "worker_weight Left = 0"

definition pool_measure :: "pool \<Rightarrow> nat" where
  "pool_measure p = 3 * length (po_pending p) + sum_list (map worker_weight (po_workers p))"

lemma sum_list_weight_update:
  "i < length ws \<Longrightarrow>
   sum_list (map worker_weight (ws[i := w])) + worker_weight (ws ! i) =
   sum_list (map worker_weight ws) + worker_weight w"
proof (induction ws arbitrary: i)
  case (Cons x xs)
  then show ?case by (cases i) auto
qed simp

lemma pool_step_decreases: "pool_step stop raises p p' \<Longrightarrow> pool_measure p' < pool_measure p"
proof (induction rule: pool_step.induct)
  case (pool_takes i p)
  then show ?case
    using sum_list_weight_update [of i "po_workers p" Left]
      sum_list_weight_update [of i "po_workers p" "Working (hd (po_pending p))"]
    by (cases "po_pending p") (auto simp: worker_takes_def pool_measure_def)
next
  case (pool_ends i p j)
  then show ?case
    using sum_list_weight_update [of i "po_workers p" "Failing j"]
      sum_list_weight_update [of i "po_workers p" Looking]
    by (auto simp: job_ends_def pool_measure_def)
next
  case (pool_reports i p j)
  then show ?case
    using sum_list_weight_update [of i "po_workers p" Left]
      sum_list_weight_update [of i "po_workers p" Looking]
    by (auto simp: worker_reports_def pool_measure_def)
qed

lemma pool_step_workers: "pool_step stop raises p p' \<Longrightarrow> length (po_workers p') = length (po_workers p)"
  by (induction rule: pool_step.induct) (auto simp: worker_takes_def job_ends_def worker_reports_def)


lemma pool_progress:
  assumes "\<not> (\<forall>w \<in> set (po_workers p). w = Left)"
  shows "\<exists>p'. pool_step stop raises p p'"
proof -
  obtain i where i: "i < length (po_workers p)" "po_workers p ! i \<noteq> Left"
    using assms by (auto simp: in_set_conv_nth)
  show ?thesis
  proof (cases "po_workers p ! i")
    case Looking
    with i show ?thesis by (blast intro: pool_takes)
  next
    case (Working j)
    with i show ?thesis by (blast intro: pool_ends)
  next
    case (Failing j)
    with i show ?thesis by (blast intro: pool_reports)
  qed (use i in simp)
qed

lemma pool_finishes:
  "\<exists>q. (pool_step stop raises)\<^sup>*\<^sup>* p q \<and> (\<forall>w \<in> set (po_workers q). w = Left)"
proof (induction "pool_measure p" arbitrary: p rule: less_induct)
  case less
  show ?case
  proof (cases "\<forall>w \<in> set (po_workers p). w = Left")
    case True
    then show ?thesis by blast
  next
    case False
    then obtain p' where s: "pool_step stop raises p p'" using pool_progress by blast
    with less [OF pool_step_decreases [OF s]] show ?thesis
      by (meson converse_rtranclp_into_rtranclp)
  qed
qed

lemma all_left_hands: "(\<forall>w \<in> set ws. w = Left) \<Longrightarrow> hands ws = {#}"
  by (induction ws) (auto simp: hands_def)

lemma pool_final:
  assumes "(pool_step stop raises)\<^sup>*\<^sup>* (pool_new n (Some c)) p" "1 \<le> c" "\<forall>w \<in> set (po_workers p). w = Left"
  shows "mset (po_errors p) = filter_mset raises (mset (po_taken p))"
    "po_errors p = [] \<or> \<not> stop \<Longrightarrow> po_taken p = [0..<n]"
proof -
  have inv: "pool_inv stop raises n p" by (rule pool_inv_steps [OF assms(1) pool_inv_new])
  have len: "length (po_workers p) = min (nat c) n"
    using assms(1) by (induction rule: rtranclp_induct) (simp_all add: pool_new_def pool_step_workers)
  have t: "mset (po_taken p) = mset (po_done p) + mset (po_errors p)"
    using inv all_left_hands [OF assms(3)] by (simp add: pool_inv_def)
  have "filter_mset raises (mset (po_done p)) = {#}"
    using inv by (simp add: pool_inv_def filter_empty_conv flip: mset_filter)
  moreover have "filter_mset raises (mset (po_errors p)) = mset (po_errors p)"
    using inv by (simp add: pool_inv_def filter_id_conv flip: mset_filter)
  ultimately show "mset (po_errors p) = filter_mset raises (mset (po_taken p))" by (simp add: t)
  show "po_taken p = [0..<n]" if "po_errors p = [] \<or> \<not> stop"
  proof (cases "n = 0")
    case True
    then show ?thesis using inv by (simp add: pool_inv_def)
  next
    case False
    then have "po_workers p \<noteq> []" using len assms(2) by auto
    then have "Left \<in> set (po_workers p)" using assms(3) by (cases "po_workers p") auto
    with that inv show ?thesis by (auto simp: pool_inv_def)
  qed
qed

text \<open>What the finished threads have done to the members, and what \<open>_in_parallel\<close> raises.\<close>

definition run_threads ::
  "pool \<Rightarrow> ('c \<Rightarrow> ('e, unit) result \<times> 'c) \<Rightarrow> 'c list \<Rightarrow> ('e, unit) result \<times> 'c list" where
  "run_threads p work cs =
     (case po_errors p of [] \<Rightarrow> Inr () | j # _ \<Rightarrow> fst (work (cs ! j)),
      map (\<lambda>(i, c). if i \<in> set (po_taken p) then snd (work c) else c) (enumerate 0 cs))"

definition each ::
  "pool \<Rightarrow> int option \<Rightarrow> bool \<Rightarrow> ('c \<Rightarrow> ('e, unit) result \<times> 'c) \<Rightarrow> 'c list \<Rightarrow>
   ('e, unit) result \<times> 'c list" where
  "each p concurrency stop_on_failure work cs =
     (case concurrency of
        None \<Rightarrow> raise_first (each_member work stop_on_failure cs)
      | Some _ \<Rightarrow> run_threads p work cs)"

definition refuses :: "('c \<Rightarrow> ('e, unit) result \<times> 'c) \<Rightarrow> 'c \<Rightarrow> bool" where
  "refuses work c = (case fst (work c) of Inl _ \<Rightarrow> True | Inr _ \<Rightarrow> False)"

definition threads_end :: "int option \<Rightarrow> bool \<Rightarrow> ('c \<Rightarrow> ('e, unit) result \<times> 'c) \<Rightarrow> 'c list \<Rightarrow> pool \<Rightarrow> bool" where
  "threads_end concurrency stop work cs p \<longleftrightarrow>
     (\<forall>c. concurrency = Some c \<longrightarrow> 1 \<le> c \<and> (\<forall>w \<in> set (po_workers p). w = Left) \<and>
       (pool_step stop (\<lambda>j. refuses work (cs ! j)))\<^sup>*\<^sup>* (pool_new (length cs) (Some c)) p)"

lemma each_reaches_all:
  assumes "threads_end concurrency False work cs p" "each p concurrency False work cs = (r, cs')"
  shows "cs' = map (\<lambda>c. snd (work c)) cs"
    "(r = Inr () \<and> filter (refuses work) cs = []) \<or> (\<exists>c \<in> set cs. refuses work c \<and> r = fst (work c))"
proof -
  have "cs' = map (\<lambda>c. snd (work c)) cs \<and>
    ((r = Inr () \<and> filter (refuses work) cs = []) \<or> (\<exists>c \<in> set cs. refuses work c \<and> r = fst (work c)))"
  proof (cases concurrency)
    case None
    have "(case concat (map (\<lambda>c. case fst (work c) of Inl e \<Rightarrow> [e] | Inr _ \<Rightarrow> []) cs) of
        [] \<Rightarrow> Inr () | e # _ \<Rightarrow> Inl e) = r \<Longrightarrow>
      (r = Inr () \<and> filter (refuses work) cs = []) \<or> (\<exists>c \<in> set cs. refuses work c \<and> r = fst (work c))"
      by (induction cs) (auto simp: refuses_def split: sum.splits)
    with None assms(2) show ?thesis by (auto simp: each_def raise_first_def each_member_all)
  next
    case (Some c)
    with assms(1) have p: "(pool_step False (\<lambda>j. refuses work (cs ! j)))\<^sup>*\<^sup>* (pool_new (length cs) (Some c)) p"
      "1 \<le> c" "\<forall>w \<in> set (po_workers p). w = Left"
      by (auto simp: threads_end_def)
    have taken: "po_taken p = [0..<length cs]" using pool_final(2) [OF p] by simp
    have "mset (po_errors p) = mset (filter (\<lambda>j. refuses work (cs ! j)) [0..<length cs])"
      unfolding mset_filter using pool_final(1) [OF p] taken by (simp only:)
    from mset_eq_setD [OF this] have e: "set (po_errors p) = {j. j < length cs \<and> refuses work (cs ! j)}"
      by auto
    have cs': "cs' = map (\<lambda>c. snd (work c)) cs"
      using Some assms(2) taken
      by (auto simp: each_def run_threads_def enumerate_eq_zip intro!: nth_equalityI)
    show ?thesis
    proof (cases "po_errors p")
      case Nil
      with e have "filter (refuses work) cs = []"
        by (auto simp: filter_empty_conv in_set_conv_nth)
      with Nil cs' Some assms(2) show ?thesis by (simp add: each_def run_threads_def)
    next
      case (Cons j js)
      with e have "j < length cs \<and> refuses work (cs ! j)" by auto
      with Cons cs' Some assms(2) show ?thesis by (auto simp: each_def run_threads_def)
    qed
  qed
  then show "cs' = map (\<lambda>c. snd (work c)) cs"
    "(r = Inr () \<and> filter (refuses work) cs = []) \<or> (\<exists>c \<in> set cs. refuses work c \<and> r = fst (work c))"
    by simp_all
qed

lemma threads_can_end: "1 \<le> c \<Longrightarrow> \<exists>p. threads_end (Some c) stop work cs p"
  unfolding threads_end_def
  using pool_finishes [of stop "\<lambda>j. refuses work (cs ! j)" "pool_new (length cs) (Some c)"] by auto

subsection \<open>The group\<close>

text \<open>A started watcher is the member's place and the watcher's place in that member.\<close>

record ('t, 'm) group =
  g_members :: "('t, 'm) member list"
  g_concurrency :: "int option"
  g_watches :: "(nat \<times> nat) list"

definition member_key :: "('t, 'm) member \<Rightarrow> string" where
  "member_key m = config_key (mb_config m)"

definition duplicate_keys :: "string list \<Rightarrow> string list" where
  "duplicate_keys keys = sort (remdups (filter (\<lambda>key. 1 < count_list keys key) keys))"

definition group_new ::
  "('t, 'm) member list \<Rightarrow> int option \<Rightarrow> (config_error, ('t, 'm) group) result" where
  "group_new configs concurrency =
     (let duplicates = duplicate_keys (map member_key configs) in
      if configs = [] then Inl (ConfigValueError ''a group of no configurations has nothing to do'')
      else if duplicates \<noteq> [] then
        Inl (ConfigValueError (''two configurations in one group share a key, and a group reports per key: '' @
          py_join '', '' duplicates))
      else (case concurrency of
          Some n \<Rightarrow> if n < 1
            then Inl (ConfigValueError ''concurrency is how many may load at once, so at least 1'')
            else Inr \<lparr>g_members = configs, g_concurrency = concurrency, g_watches = []\<rparr>
        | None \<Rightarrow> Inr \<lparr>g_members = configs, g_concurrency = concurrency, g_watches = []\<rparr>))"

definition over_members ::
  "(('t, 'm) member list \<Rightarrow> 'r \<times> ('t, 'm) member list) \<Rightarrow> ('t, 'm) group \<Rightarrow> 'r \<times> ('t, 'm) group" where
  "over_members work self = (let (r, ms) = work (g_members self) in (r, self\<lparr>g_members := ms\<rparr>))"

text \<open>\<open>init\<close> and \<open>reload\<close>; with a concurrency, \<open>p\<close> is what the threads came to.\<close>

definition group_init :: "pool \<Rightarrow> ('t, 'm) group \<Rightarrow> (config_error, unit) result \<times> ('t, 'm) group" where
  "group_init p self = over_members (each p (g_concurrency self) True member_init) self"

definition group_reload :: "pool \<Rightarrow> ('t, 'm) group \<Rightarrow> (config_error, unit) result \<times> ('t, 'm) group" where
  "group_reload p self = over_members (each p (g_concurrency self) False member_reload) self"

definition group_reload_atomic :: "('t, 'm) group \<Rightarrow> (config_error, unit) result \<times> ('t, 'm) group" where
  "group_reload_atomic self =
     over_members (reload_atomic member_prepare member_commit member_discard) self"

text \<open>\<open>watch\<close>: one watcher after the other; an exception leaves the ones started before it.\<close>

fun watch_members ::
  "nat \<Rightarrow> ('t, 'm) member list \<Rightarrow> config_error option \<times> (nat \<times> nat) list \<times> ('t, 'm) member list" where
  "watch_members i [] = (None, [], [])"
| "watch_members i (m # ms) =
     (case on_member config_watch m of
        (Inl e, m') \<Rightarrow> (Some e, [], m' # ms)
      | (Inr w, m') \<Rightarrow>
          (let (failure, started, ms') = watch_members (Suc i) ms in (failure, (i, w) # started, m' # ms')))"

definition group_watch :: "('t, 'm) group \<Rightarrow> (config_error, unit) result \<times> ('t, 'm) group" where
  "group_watch self =
     (let (failure, started, ms) = watch_members 0 (g_members self) in
      (case failure of None \<Rightarrow> Inr () | Some e \<Rightarrow> Inl e,
       self\<lparr>g_members := ms, g_watches := g_watches self @ started\<rparr>))"

text \<open>\<open>stop\<close>: the last started first, until the list is empty.\<close>

definition stop_one :: "nat \<times> nat \<Rightarrow> ('t, 'm) member list \<Rightarrow> ('t, 'm) member list" where
  "stop_one w ms =
     (if fst w < length ms
      then ms[fst w := (ms ! fst w)\<lparr>mb_config := stop_watch (snd w) (mb_config (ms ! fst w))\<rparr>] else ms)"

definition group_stop :: "('t, 'm) group \<Rightarrow> ('t, 'm) group" where
  "group_stop self = self\<lparr>g_members := foldr stop_one (g_watches self) (g_members self), g_watches := []\<rparr>"

type_synonym ('r, 't, 'm) group_body = "('t, 'm) group \<Rightarrow> (config_error, 'r) result \<times> ('t, 'm) group"

definition group_watching :: "('r, 't, 'm) group_body \<Rightarrow> ('r, 't, 'm) group_body" where
  "group_watching body self =
     (case group_watch self of
        (Inl e, self1) \<Rightarrow> (Inl e, self1)
      | (Inr _, self1) \<Rightarrow> (let (r, self2) = body self1 in (r, group_stop self2)))"

definition group_running :: "pool \<Rightarrow> bool \<Rightarrow> ('r, 't, 'm) group_body \<Rightarrow> ('r, 't, 'm) group_body" where
  "group_running p watch body self =
     (case group_init p self of
        (Inl e, self1) \<Rightarrow> (Inl e, self1)
      | (Inr _, self1) \<Rightarrow> if watch then group_watching body self1 else body self1)"

definition group_generations :: "('t, 'm) group \<Rightarrow> (string \<times> nat) list" where
  "group_generations self =
     fold (\<lambda>m. dict_set (member_key m) (config_generation (mb_config m))) (g_members self) []"

definition group_len :: "('t, 'm) group \<Rightarrow> nat" where
  "group_len self = length (g_members self)"

definition group_repr :: "('t, 'm) group \<Rightarrow> string" where
  "group_repr self = ''ConfigGroup('' @ py_join '', '' (map member_key (g_members self)) @ '')''"

subsection \<open>Tasks: \<open>_each_async\<close>\<close>

text \<open>Every task is gathered at once: it looks at \<open>stopping\<close>, then waits for the semaphore, then
  awaits the work. A member's place is its task.\<close>

datatype task = Created | Waiting | Awaiting | Skipped | Returned_ok | Raised_exn

record tasks =
  t_permits :: nat
  t_stopping :: bool
  t_tasks :: "task list"

definition tasks_new :: "nat \<Rightarrow> nat \<Rightarrow> tasks" where
  "tasks_new n concurrency = \<lparr>t_permits = concurrency, t_stopping = False, t_tasks = replicate n Created\<rparr>"

definition task_looks :: "bool \<Rightarrow> nat \<Rightarrow> tasks \<Rightarrow> tasks" where
  "task_looks stop i s =
     s\<lparr>t_tasks := (t_tasks s)[i := (if stop \<and> t_stopping s then Skipped else Waiting)]\<rparr>"

definition task_acquires :: "nat \<Rightarrow> tasks \<Rightarrow> tasks" where
  "task_acquires i s = s\<lparr>t_permits := t_permits s - 1, t_tasks := (t_tasks s)[i := Awaiting]\<rparr>"

definition task_ends :: "bool \<Rightarrow> bool \<Rightarrow> nat \<Rightarrow> tasks \<Rightarrow> tasks" where
  "task_ends stop failed i s =
     s\<lparr>t_permits := Suc (t_permits s), t_stopping := (t_stopping s \<or> (failed \<and> stop)),
       t_tasks := (t_tasks s)[i := (if failed then Raised_exn else Returned_ok)]\<rparr>"

inductive tasks_step :: "bool \<Rightarrow> (nat \<Rightarrow> bool) \<Rightarrow> tasks \<Rightarrow> tasks \<Rightarrow> bool" for stop raises where
  ts_looks: "i < length (t_tasks s) \<Longrightarrow> t_tasks s ! i = Created \<Longrightarrow>
     tasks_step stop raises s (task_looks stop i s)"
| ts_acquires: "i < length (t_tasks s) \<Longrightarrow> t_tasks s ! i = Waiting \<Longrightarrow> 0 < t_permits s \<Longrightarrow>
     tasks_step stop raises s (task_acquires i s)"
| ts_ends: "i < length (t_tasks s) \<Longrightarrow> t_tasks s ! i = Awaiting \<Longrightarrow>
     tasks_step stop raises s (task_ends stop (raises i) i s)"

definition awaiting :: "tasks \<Rightarrow> nat" where
  "awaiting s = length (filter (\<lambda>w. w = Awaiting) (t_tasks s))"

lemma length_filter_update:
  "i < length xs \<Longrightarrow> length (filter P (xs[i := x])) + (if P (xs ! i) then 1 else 0) =
     length (filter P xs) + (if P x then 1 else 0)"
proof (induction xs arbitrary: i)
  case (Cons y ys)
  then show ?case by (cases i) auto
qed simp

lemma tasks_step_permits:
  "tasks_step stop raises s s' \<Longrightarrow> t_permits s' + awaiting s' = t_permits s + awaiting s"
proof (induction rule: tasks_step.induct)
  case (ts_looks i s)
  then show ?case
    using length_filter_update [of i "t_tasks s" "\<lambda>w. w = Awaiting" Skipped]
      length_filter_update [of i "t_tasks s" "\<lambda>w. w = Awaiting" Waiting]
    by (simp add: task_looks_def awaiting_def)
next
  case (ts_acquires i s)
  then show ?case
    using length_filter_update [of i "t_tasks s" "\<lambda>w. w = Awaiting" Awaiting]
    by (simp add: task_acquires_def awaiting_def)
next
  case (ts_ends i s)
  then show ?case
    using length_filter_update [of i "t_tasks s" "\<lambda>w. w = Awaiting" Raised_exn]
      length_filter_update [of i "t_tasks s" "\<lambda>w. w = Awaiting" Returned_ok]
    by (simp add: task_ends_def awaiting_def)
qed

subsection \<open>Properties\<close>

text \<open>C5: \<open>reload_atomic()\<close> is all or nothing: on members in reachable states, either it raises and
  every member shows what it showed (the model \<open>current()\<close> reads, the generation, the engine's
  snapshot, the hook log) and holds the prepared commits it held, or it answers normally and every
  member has installed what its own sources resolved to, one generation further on.\<close>

theorem reload_atomic_is_all_or_nothing:
  assumes "\<forall>m \<in> set (g_members self). config_reach (mb_env m) (mb_config m)"
    "group_reload_atomic self = (r, self')"
  shows "(\<exists>e. r = Inl e) \<and> map member_shown (g_members self') = map member_shown (g_members self) \<and>
      map member_held (g_members self') = map member_held (g_members self) \<or>
    r = Inr () \<and> list_all2 member_installed (g_members self) (g_members self') \<and>
      map member_held (g_members self') = map member_held (g_members self)"
proof -
  have ok: "list_all member_ok (g_members self)"
    using assms(1) config_inv_reach by (auto simp: list_all_iff member_ok_def)
  obtain ms where ms: "reload_atomic member_prepare member_commit member_discard (g_members self) = (r, ms)"
    and g: "g_members self' = ms"
    using assms(2) by (auto simp: group_reload_atomic_def over_members_def Let_def split: prod.splits)
  from dc.all_or_nothing [OF ok ms] g show ?thesis by auto
qed

definition sample_member :: "nat resolution \<Rightarrow> (nat, nat) member" where
  "sample_member res = \<lparr>mb_env = sample_env, mb_resolve = (\<lambda>_. res), mb_config = sample_config\<rparr>"

definition sample_group :: "(nat, nat) group" where
  "sample_group = \<lparr>g_members = [sample_member (Inr 7), sample_member (Inr 500)],
     g_concurrency = None, g_watches = []\<rparr>"

theorem reload_atomic_is_all_or_nothing_witness:
  "let (r, g) = group_reload_atomic sample_group in
     (\<exists>e. r = Inl e) \<and> map member_shown (g_members g) = map member_shown (g_members sample_group) \<or>
     r = Inr () \<and> list_all2 member_installed (g_members sample_group) (g_members g)"
proof -
  obtain r g where g: "group_reload_atomic sample_group = (r, g)" by fastforce
  have "\<forall>m \<in> set (g_members sample_group). config_reach (mb_env m) (mb_config m)"
    by (simp add: sample_group_def sample_member_def sample_config_reach)
  from reload_atomic_is_all_or_nothing [OF this g] g show ?thesis by auto
qed

text \<open>\<open>reload()\<close> gives every member its turn, whatever the others do and in whatever order the
  threads run: afterwards every member has reloaded, and either none refused and the call answers
  normally, or the call raises the error of a member that refused.\<close>

theorem reload_reaches_every_member:
  assumes "threads_end (g_concurrency self) False member_reload (g_members self) p"
    "group_reload p self = (r, self')"
  shows "g_members self' = map (\<lambda>m. snd (member_reload m)) (g_members self) \<and>
    (r = Inr () \<and> filter (refuses member_reload) (g_members self) = [] \<or>
     (\<exists>m \<in> set (g_members self). refuses member_reload m \<and> r = fst (member_reload m)))"
proof -
  obtain ms where ms: "each p (g_concurrency self) False member_reload (g_members self) = (r, ms)"
    and g: "g_members self' = ms"
    using assms(2) by (auto simp: group_reload_def over_members_def Let_def split: prod.splits)
  from each_reaches_all [OF assms(1) ms] g show ?thesis by simp
qed

theorem reload_reaches_every_member_witness:
  "let g = sample_group\<lparr>g_concurrency := Some 2\<rparr> in
     \<exists>p. g_members (snd (group_reload p g)) = map (\<lambda>m. snd (member_reload m)) (g_members g)"
proof -
  let ?g = "sample_group\<lparr>g_concurrency := Some 2\<rparr>"
  obtain p where p: "threads_end (g_concurrency ?g) False member_reload (g_members ?g) p"
    using threads_can_end [of 2 False member_reload "g_members ?g"] by auto
  from reload_reaches_every_member [OF p surjective_pairing] show ?thesis by (auto simp: Let_def)
qed

text \<open>Without concurrency, \<open>init()\<close> stops at the first member that refuses: the members before it
  have loaded, it has tried and its error is raised, and the members after it are as they were.\<close>

theorem init_stops_at_the_first_failure:
  assumes "g_concurrency self = None" "g_members self = before @ m # rest"
    "\<forall>b \<in> set before. \<exists>x. fst (member_init b) = Inr x" "fst (member_init m) = Inl e"
  shows "group_init p self =
    (Inl e, self\<lparr>g_members := map (\<lambda>b. snd (member_init b)) before @ snd (member_init m) # rest\<rparr>)"
proof -
  have "each_member member_init True (before @ m # rest) =
      ([e], map (\<lambda>b. snd (member_init b)) before @ snd (member_init m) # rest)"
    using assms(3,4) by (intro each_member_stop_at) auto
  then show ?thesis by (simp add: group_init_def each_def over_members_def raise_first_def assms(1,2))
qed

lemma sample_refuses: "\<exists>e. fst (member_init (sample_member (Inr 500))) = Inl e"
  by (simp add: member_init_def on_member_def sample_member_def config_init_def run_core_def
      core_init_def load_then_install_def engine_load_def core_validate_def sample_env_def
      sample_world_def raised_def Let_def split_def)

theorem init_stops_at_the_first_failure_witness:
  "let g = \<lparr>g_members = [sample_member (Inr 500), sample_member (Inr 7)], g_concurrency = None, g_watches = []\<rparr> in
     (\<exists>e. fst (group_init (pool_new 2 None) g) = Inl e) \<and> g_members (snd (group_init (pool_new 2 None) g)) ! 1 = sample_member (Inr 7)"
proof -
  let ?g = "\<lparr>g_members = [sample_member (Inr 500), sample_member (Inr 7)], g_concurrency = None, g_watches = []\<rparr>"
  obtain e where e: "fst (member_init (sample_member (Inr 500))) = Inl e" using sample_refuses by blast
  from init_stops_at_the_first_failure [of ?g "[]" "sample_member (Inr 500)" "[sample_member (Inr 7)]", OF _ _ _ e]
  show ?thesis by simp
qed

text \<open>C35: \<open>_in_parallel\<close> runs each member at most once, in every interleaving of its threads: the jobs
  taken are a prefix of the members in order; when the threads have left, which a run can always
  come to and every step comes closer to, exactly the raising ones among the jobs taken are
  reported, and every job was taken unless a failure was to stop the group.\<close>

theorem parallel_runs_each_member_once:
  assumes "(pool_step stop raises)\<^sup>*\<^sup>* (pool_new n (Some c)) p" "1 \<le> c"
  shows "po_taken p @ po_pending p = [0..<n] \<and>
    (\<exists>q. (pool_step stop raises)\<^sup>*\<^sup>* p q \<and> (\<forall>w \<in> set (po_workers q). w = Left)) \<and>
    (\<forall>p'. pool_step stop raises p p' \<longrightarrow> pool_measure p' < pool_measure p) \<and>
    ((\<forall>w \<in> set (po_workers p). w = Left) \<longrightarrow>
       mset (po_errors p) = filter_mset raises (mset (po_taken p)) \<and>
       (po_errors p = [] \<or> \<not> stop \<longrightarrow> po_taken p = [0..<n]))"
proof -
  have "pool_inv stop raises n p" by (rule pool_inv_steps [OF assms(1) pool_inv_new])
  then show ?thesis
    using pool_final [OF assms(1,2)] pool_finishes pool_step_decreases by (simp add: pool_inv_def)
qed

theorem parallel_runs_each_member_once_witness:
  "\<exists>q. (pool_step True (\<lambda>j. j = 0))\<^sup>*\<^sup>* (pool_new 3 (Some 2)) q \<and> (\<forall>w \<in> set (po_workers q). w = Left)"
  using parallel_runs_each_member_once 
    [of True "\<lambda>j. j = 0" 3 2, OF rtranclp.rtrancl_refl] by simp

text \<open>The tasks of \<open>_each_async\<close> never have more than \<open>concurrency\<close> members in hand: permits and
  awaited members add up to the bound in every reachable state.\<close>

theorem async_concurrency_is_bounded:
  assumes "(tasks_step stop raises)\<^sup>*\<^sup>* (tasks_new n concurrency) s"
  shows "t_permits s + awaiting s = concurrency"
  using assms
  by (induction rule: rtranclp_induct) (simp_all add: tasks_step_permits, simp add: tasks_new_def awaiting_def)

theorem async_concurrency_is_bounded_witness:
  "let s = task_acquires 0 (task_looks True 0 (tasks_new 2 1)) in t_permits s + awaiting s = 1"
proof -
  let ?s1 = "task_looks True 0 (tasks_new 2 1)"
  have 1: "tasks_step True (\<lambda>_. True) (tasks_new 2 1) ?s1"
    by (rule ts_looks) (simp_all add: tasks_new_def)
  have 2: "tasks_step True (\<lambda>_. True) ?s1 (task_acquires 0 ?s1)"
    by (rule ts_acquires) (simp_all add: tasks_new_def task_looks_def)
  have "(tasks_step True (\<lambda>_. True))\<^sup>*\<^sup>* (tasks_new 2 1) (task_acquires 0 ?s1)"
    using 1 2 by (meson rtranclp.rtrancl_into_rtrancl rtranclp.rtrancl_refl)
  from async_concurrency_is_bounded [OF this] show ?thesis by (simp add: Let_def)
qed

text \<open>With a bound, \<open>init_async()\<close> does not stop at the first failure: \<open>stopping\<close> is looked at
  before the semaphore is waited for, and the gathered tasks have all looked by the time one
  fails, so with one permit and the first member refused, the second member still loads.\<close>

theorem async_init_goes_on_after_a_failure:
  "\<exists>s. (tasks_step True (\<lambda>i. i = 0))\<^sup>*\<^sup>* (tasks_new 2 1) s \<and> t_stopping s \<and>
     t_tasks s = [Raised_exn, Awaiting]"
proof -
  let ?R = "tasks_step True (\<lambda>i. i = (0::nat))"
  let ?s1 = "task_looks True 0 (tasks_new 2 1)"
  let ?s2 = "task_looks True 1 (task_acquires 0 ?s1)"
  let ?s3 = "task_ends True True 0 ?s2"
  let ?s4 = "task_acquires 1 ?s3"
  note defs = tasks_new_def task_looks_def task_acquires_def task_ends_def numeral_2_eq_2
  have 1: "?R (tasks_new 2 1) ?s1" by (rule ts_looks) (simp_all add: defs)
  have 2: "?R ?s1 (task_acquires 0 ?s1)" by (rule ts_acquires) (simp_all add: defs)
  have 3: "?R (task_acquires 0 ?s1) ?s2" by (rule ts_looks) (simp_all add: defs)
  have 4: "?R ?s2 ?s3"
    using ts_ends [of 0 ?s2 True "\<lambda>i. i = 0"] by (simp add: defs)
  have 5: "?R ?s3 ?s4" by (rule ts_acquires) (simp_all add: defs)
  have "?R\<^sup>*\<^sup>* (tasks_new 2 1) ?s4"
    using 1 2 3 4 5 by (meson rtranclp.rtrancl_into_rtrancl rtranclp.rtrancl_refl)
  moreover have "t_stopping ?s4 \<and> t_tasks ?s4 = [Raised_exn, Awaiting]" by (simp add: defs)
  ultimately show ?thesis by blast
qed


text \<open>\<open>watching()\<close> starts the watchers before its \<open>try\<close>: when a later member's watcher does not
  start, the block raises without running its body and leaves the earlier members' watchers
  running, remembered by the group but stopped by nobody on the way out.\<close>

theorem failed_watching_leaves_watchers_running:
  "let bad = (sample_member (Inr 7))\<lparr>mb_env := sample_env\<lparr>e_watch_fails := Some (CoreOSError ''inotify'')\<rparr>\<rparr>;
       (r, g) = group_watching body
         \<lparr>g_members = [sample_member (Inr 7), bad], g_concurrency = None, g_watches = []\<rparr> in
     r = Inl (CoreExn (CoreOSError ''inotify'')) \<and> g_watches g = [(0, 0)] \<and>
     c_watches (mb_config (g_members g ! 0)) = [Watching]"
proof -
  have w: "c_watches sample_config = []" by (simp add: config_evals)
  show ?thesis
    by (simp add: group_watching_def group_watch_def on_member_def config_watch_def sample_member_def
        sample_env_def w Let_def)
qed

end
