(* ===== verification/Executor.thy ===== *)
theory Executor
  imports Prelude
begin

section \<open>Which pool pays: \<open>_executor.py\<close>\<close>

text \<open>
  The two globals of the module under its lock, and the pools in existence: the ones the module
  built, numbered, and the caller's, named by the caller. \<open>shutdown(wait=False)\<close> adds a pool to
  the ones shut. The context manager's body is a function that may do anything the module
  offers, and raise.
\<close>

datatype pool = Built nat | Callers string

datatype executor_error = PoolValueError string | BodyRaised string

record executors =
  ex_default :: "pool option"
  ex_owned :: "pool option"
  ex_built :: nat
  ex_shut :: "pool list"

definition executors_init :: executors where
  "executors_init = \<lparr>ex_default = None, ex_owned = None, ex_built = 0, ex_shut = []\<rparr>"

definition shutdown :: "pool option \<Rightarrow> executors \<Rightarrow> executors" where
  "shutdown p s = (case p of None \<Rightarrow> s | Some q \<Rightarrow> s\<lparr>ex_shut := ex_shut s @ [q]\<rparr>)"

definition set_executor :: "pool option \<Rightarrow> executors \<Rightarrow> executors" where
  "set_executor executor s =
     (let previous = ex_owned s; s1 = s\<lparr>ex_default := executor, ex_owned := None\<rparr> in
      if previous \<noteq> None \<and> previous \<noteq> executor then shutdown previous s1 else s1)"

definition build_pool :: "executors \<Rightarrow> pool \<times> executors" where
  "build_pool s = (Built (ex_built s), s\<lparr>ex_built := Suc (ex_built s)\<rparr>)"

definition configure_executor ::
  "int \<Rightarrow> executors \<Rightarrow> (executor_error, pool) result \<times> executors" where
  "configure_executor workers s =
     (if workers < 1 then (Inl (PoolValueError ''a pool of no threads cannot run anything''), s)
      else (let (pool, s1) = build_pool s; previous = ex_owned s1 in
            (Inr pool, shutdown previous (s1\<lparr>ex_default := Some pool, ex_owned := Some pool\<rparr>))))"

definition executor_block ::
  "int \<Rightarrow> pool option \<Rightarrow> (executors \<Rightarrow> (executor_error, 'r) result \<times> executors) \<Rightarrow> executors \<Rightarrow>
   (executor_error, 'r) result \<times> executors" where
  "executor_block workers given body s =
     (if given = None \<and> workers < 1 then (Inl (PoolValueError ''max_workers must be greater than 0''), s)
      else let saved = ex_default s; saved_owned = ex_owned s;
          (chosen, s1) = (case given of None \<Rightarrow> build_pool s | Some p \<Rightarrow> (p, s));
          s2 = s1\<lparr>ex_default := Some chosen, ex_owned := (if given = None then Some chosen else None)\<rparr>;
          (r, s3) = body s2;
          s4 = s3\<lparr>ex_default := saved, ex_owned := saved_owned\<rparr>
      in (r, if given = None then shutdown (Some chosen) s4 else s4))"

definition default_executor :: "executors \<Rightarrow> pool option" where
  "default_executor s = ex_default s"

definition shutdown_owned :: "executors \<Rightarrow> executors" where
  "shutdown_owned s = shutdown (ex_owned s) (s\<lparr>ex_owned := None\<rparr>)"

subsection \<open>Only what was built is shut\<close>

definition built_by :: "executors \<Rightarrow> pool \<Rightarrow> bool" where
  "built_by s p \<longleftrightarrow> (\<exists>n < ex_built s. p = Built n)"

definition pools_ok :: "executors \<Rightarrow> bool" where
  "pools_ok s \<longleftrightarrow> (\<forall>p. ex_owned s = Some p \<longrightarrow> built_by s p) \<and> (\<forall>p \<in> set (ex_shut s). built_by s p)"

lemma built_by_mono: "ex_built s \<le> ex_built t \<Longrightarrow> built_by s p \<Longrightarrow> built_by t p"
  by (auto simp: built_by_def)

lemma built_by_updates [simp]:
  "built_by (s\<lparr>ex_default := d\<rparr>) p = built_by s p" "built_by (s\<lparr>ex_owned := d\<rparr>) p = built_by s p"
  "built_by (s\<lparr>ex_shut := ps\<rparr>) p = built_by s p"
  by (simp_all add: built_by_def)

lemma built_by_build [simp]: "built_by (s\<lparr>ex_built := Suc (ex_built s)\<rparr>) (Built (ex_built s))"
  by (simp add: built_by_def)

lemma pools_ok_set: "pools_ok s \<Longrightarrow> pools_ok (set_executor e s)"
  by (auto simp: pools_ok_def set_executor_def shutdown_def Let_def split: option.splits)

lemma pools_ok_configure: "pools_ok s \<Longrightarrow> pools_ok (snd (configure_executor workers s))"
  by (auto simp: pools_ok_def configure_executor_def build_pool_def shutdown_def Let_def
      intro: built_by_mono [of s] split: option.splits)

lemma pools_ok_shutdown_owned: "pools_ok s \<Longrightarrow> pools_ok (shutdown_owned s)"
  by (auto simp: pools_ok_def shutdown_owned_def shutdown_def split: option.splits)

text \<open>A body that uses the module keeps what the module keeps.\<close>

inductive uses :: "executors \<Rightarrow> executors \<Rightarrow> bool" where
  uses_nothing: "uses s s"
| uses_set: "uses s t \<Longrightarrow> uses s (set_executor e t)"
| uses_configure: "uses s t \<Longrightarrow> uses s (snd (configure_executor workers t))"
| uses_block: "uses s t \<Longrightarrow> (\<And>u. uses u (snd (body u))) \<Longrightarrow> uses s (snd (executor_block workers given (body :: executors \<Rightarrow> (executor_error, unit) result \<times> executors) t))"

lemma built_grows_set: "ex_built (set_executor e s) = ex_built s"
  by (simp add: set_executor_def shutdown_def Let_def split: option.splits)

lemma built_grows_configure: "ex_built s \<le> ex_built (snd (configure_executor workers s))"
  by (simp add: configure_executor_def build_pool_def shutdown_def Let_def split: option.splits)

lemma block_state:
  "given \<noteq> None \<or> 1 \<le> workers \<Longrightarrow> \<exists>chosen s1. snd (executor_block workers given body s) =
     (let s4 = (snd (body s1))\<lparr>ex_default := ex_default s, ex_owned := ex_owned s\<rparr>
      in if given = None then shutdown (Some chosen) s4 else s4) \<and>
     ex_built s \<le> ex_built s1 \<and> (given = None \<longrightarrow> built_by s1 chosen) \<and>
     (pools_ok s \<longrightarrow> pools_ok s1)"
proof (cases given)
  assume w: "given \<noteq> None \<or> 1 \<le> workers"
  case None
  let ?s2 = "s\<lparr>ex_built := Suc (ex_built s), ex_default := Some (Built (ex_built s)),
      ex_owned := Some (Built (ex_built s))\<rparr>"
  have "pools_ok s \<Longrightarrow> pools_ok ?s2"
    by (auto simp: pools_ok_def intro: built_by_mono [of s])
  with None w show ?thesis
    by (intro exI [of _ "Built (ex_built s)"] exI [of _ ?s2])
      (simp add: executor_block_def build_pool_def Let_def split_def built_by_def)
next
  case (Some p)
  let ?s2 = "s\<lparr>ex_default := Some p, ex_owned := None\<rparr>"
  have "pools_ok s \<Longrightarrow> pools_ok ?s2" by (simp add: pools_ok_def)
  with Some show ?thesis
    by (intro exI [of _ p] exI [of _ ?s2]) (simp add: executor_block_def Let_def split_def)
qed

lemma uses_keeps: "uses s t \<Longrightarrow> ex_built s \<le> ex_built t \<and> (pools_ok s \<longrightarrow> pools_ok t)"
proof (induction rule: uses.induct)
  case (uses_nothing s)
  show ?case by simp
next
  case (uses_set s t e)
  then show ?case by (simp add: built_grows_set pools_ok_set)
next
  case (uses_configure s t workers)
  then show ?case using built_grows_configure [of t workers] pools_ok_configure by (auto intro: le_trans)
next
  case (uses_block s t body workers given)
  show ?case
  proof (cases "given \<noteq> None \<or> 1 \<le> workers")
    case False
    with uses_block.IH(1) show ?thesis by (simp add: executor_block_def)
  next
    case True
    obtain chosen s1 where b: "snd (executor_block workers given body t) =
       (let s4 = (snd (body s1))\<lparr>ex_default := ex_default t, ex_owned := ex_owned t\<rparr>
        in if given = None then shutdown (Some chosen) s4 else s4)"
      "ex_built t \<le> ex_built s1" "given = None \<longrightarrow> built_by s1 chosen" "pools_ok t \<longrightarrow> pools_ok s1"
      using block_state [OF True] by blast
    let ?s3 = "snd (body s1)"
    have s3: "ex_built s1 \<le> ex_built ?s3" "pools_ok s1 \<longrightarrow> pools_ok ?s3"
      using uses_block.IH(2) [of s1] by simp_all
    have "built_by ?s3 p" if "built_by t p" for p
      using built_by_mono [OF le_trans [OF b(2) s3(1)] that] .
    moreover have "given = None \<longrightarrow> built_by ?s3 chosen"
      using b(3) built_by_mono [OF s3(1)] by blast
    ultimately show ?thesis
      using uses_block.IH(1) b s3
      by (auto simp: Let_def shutdown_def pools_ok_def)
  qed
qed

subsection \<open>Properties\<close>

text \<open>The library shuts down only pools it built: whatever a program does with \<open>set_executor\<close>,
  \<open>configure_executor\<close> and nested \<open>executor()\<close> blocks, exceptions included, and at exit, no pool
  a caller handed over is among the pools shut.\<close>

theorem callers_pool_is_never_shut:
  assumes "uses executors_init s"
  shows "Callers name \<notin> set (ex_shut (shutdown_owned s))"
proof -
  have "pools_ok executors_init" by (simp add: pools_ok_def executors_init_def)
  then have "pools_ok (shutdown_owned s)"
    using uses_keeps [OF assms] pools_ok_shutdown_owned by blast
  then show ?thesis by (auto simp: pools_ok_def built_by_def)
qed

theorem callers_pool_is_never_shut_witness:
  "let s = set_executor (Some (Callers ''mine'')) (snd (configure_executor 2 executors_init)) in
     ex_shut (shutdown_owned s) = [Built 0]"
proof -
  let ?s = "set_executor (Some (Callers ''mine'')) (snd (configure_executor 2 executors_init))"
  have "Callers ''mine'' \<notin> set (ex_shut (shutdown_owned ?s))"
    by (intro callers_pool_is_never_shut uses_set uses_configure uses_nothing)
  then show ?thesis
    by (simp add: set_executor_def configure_executor_def build_pool_def shutdown_def
        shutdown_owned_def executors_init_def Let_def)
qed

text \<open>A pool configured inside an \<open>executor()\<close> block is forgotten by the block's restore: nothing
  owns it afterwards and the sweep at exit does not shut it down.\<close>

theorem block_forgets_a_pool_configured_inside:
  "let (r, s) = executor_block 2 None (configure_executor 2) executors_init in
     r = Inr (Built 1) \<and> ex_owned s = None \<and> ex_built s = 2 \<and>
     Built 1 \<notin> set (ex_shut (shutdown_owned s))"
  by (simp add: executor_block_def configure_executor_def build_pool_def shutdown_def
      shutdown_owned_def executors_init_def Let_def)

end
