(* ===== verification/Notifier.thy ===== *)
theory Notifier
  imports Prelude
begin

section \<open>From an install to an awaiting task: \<open>_notify.py\<close> and \<open>changes()\<close>\<close>

text \<open>
  The installing thread, the notifier thread, the event loop's tasks and \<open>release()\<close> run
  concurrently; each step below is what one of them does between two points where another may
  run: the code under a lock, or one read of the native object. An install first bumps the
  generation with the new model in the native cache, and only then runs the hooks, of which the
  first copies the model to the attribute \<open>_cached\<close>; these are two steps. \<open>call_soon_threadsafe\<close>
  and \<open>_settle\<close> are one: a future that is done stays as it is.

  A future is its place in the list of futures, which also remembers the generation at its
  registration. \<open>is_alive()\<close> is true of a thread that has resolved everybody and not ended yet.
\<close>

type_synonym 'm wake = "(nat \<times> 'm) option"

datatype 'm future = Unresolved | Settled "'m wake" | Dropped

datatype 'm thread =
    No_thread
  | Parked nat
  | Reached nat
  | Woken "'m wake"
  | Checking nat
  | Dying

record 'm bridge =
  b_generation :: nat
  b_cache :: "'m option"
  b_cached :: "'m option"
  b_unpublished :: "'m list"
  b_released :: bool
  n_closed :: bool
  n_waiters :: "nat list"
  n_thread :: "'m thread"
  n_futures :: "(nat \<times> 'm future) list"

definition notifier_init :: "'m bridge" where
  "notifier_init =
     \<lparr>b_generation = 0, b_cache = None, b_cached = None, b_unpublished = [],
      b_released = False, n_closed = False, n_waiters = [], n_thread = No_thread, n_futures = []\<rparr>"

subsection \<open>The native side\<close>

definition bridge_install :: "'m \<Rightarrow> 'm bridge \<Rightarrow> 'm bridge" where
  "bridge_install m b =
     b\<lparr>b_generation := Suc (b_generation b), b_cache := Some m, b_unpublished := b_unpublished b @ [m]\<rparr>"

definition bridge_publish :: "'m bridge \<Rightarrow> 'm bridge" where
  "bridge_publish b =
     (case b_unpublished b of [] \<Rightarrow> b | m # rest \<Rightarrow> b\<lparr>b_cached := Some m, b_unpublished := rest\<rparr>)"

definition bridge_release :: "'m bridge \<Rightarrow> 'm bridge" where
  "bridge_release b = b\<lparr>b_cache := None, b_released := True\<rparr>"

subsection \<open>Waiting\<close>

definition is_alive :: "'m thread \<Rightarrow> bool" where
  "is_alive t \<longleftrightarrow> t \<noteq> No_thread"

text \<open>\<open>_start_locked\<close>: the baseline is read under the registration lock.\<close>

definition start_locked :: "'m bridge \<Rightarrow> 'm bridge" where
  "start_locked b =
     (if is_alive (n_thread b) then b else b\<lparr>n_thread := Parked (b_generation b)\<rparr>)"

definition notifier_wait :: "'m bridge \<Rightarrow> nat \<times> 'm bridge" where
  "notifier_wait b =
     (let f = length (n_futures b) in
      if n_closed b then (f, b\<lparr>n_futures := n_futures b @ [(b_generation b, Settled None)]\<rparr>)
      else (f, start_locked (b\<lparr>n_futures := n_futures b @ [(b_generation b, Unresolved)],
                              n_waiters := n_waiters b @ [f]\<rparr>)))"

text \<open>\<open>_settle\<close>, and \<open>_resolve_all\<close>: the waiters are taken under the lock.\<close>

definition settle :: "'m wake \<Rightarrow> nat \<times> 'm future \<Rightarrow> nat \<times> 'm future" where
  "settle w f = (if snd f = Unresolved then (fst f, Settled w) else f)"

definition resolve_all :: "'m wake \<Rightarrow> 'm bridge \<Rightarrow> 'm bridge" where
  "resolve_all w b =
     b\<lparr>n_waiters := [],
       n_futures := fold (\<lambda>i fs. fs[i := settle w (fs ! i)]) (n_waiters b) (n_futures b)\<rparr>"

definition notifier_close :: "'m bridge \<Rightarrow> 'm bridge" where
  "notifier_close b = resolve_all None (b\<lparr>n_closed := True\<rparr>)"

text \<open>\<open>future.cancel()\<close>.\<close>

definition drop_future :: "nat \<Rightarrow> 'm bridge \<Rightarrow> 'm bridge" where
  "drop_future f b =
     (if f < length (n_futures b) \<and> snd (n_futures b ! f) = Unresolved
      then b\<lparr>n_futures := (n_futures b)[f := (fst (n_futures b ! f), Dropped)]\<rparr> else b)"

text \<open>\<open>_run\<close>: the wait ends on an install or on release, the model is read, the waiters are
  resolved, and the thread parks again or ends.\<close>

inductive thread_step :: "'m bridge \<Rightarrow> 'm bridge \<Rightarrow> bool" where
  th_reached: "n_thread b = Parked seen \<Longrightarrow> seen < b_generation b \<Longrightarrow>
     thread_step b (b\<lparr>n_thread := Reached (b_generation b)\<rparr>)"
| th_released: "n_thread b = Parked seen \<Longrightarrow> \<not> seen < b_generation b \<Longrightarrow> b_released b \<Longrightarrow>
     thread_step b (b\<lparr>n_thread := Woken None\<rparr>)"
| th_read: "n_thread b = Reached g \<Longrightarrow>
     thread_step b (b\<lparr>n_thread := Woken (map_option (Pair g) (b_cache b))\<rparr>)"
| th_resolve: "n_thread b = Woken w \<Longrightarrow>
     thread_step b ((resolve_all w b)\<lparr>n_thread := (case w of None \<Rightarrow> Dying | Some (g, _) \<Rightarrow> Checking g)\<rparr>)"
| th_check: "n_thread b = Checking g \<Longrightarrow>
     thread_step b (b\<lparr>n_thread := (if n_waiters b = [] then No_thread else Parked g)\<rparr>)"
| th_ends: "n_thread b = Dying \<Longrightarrow> thread_step b (b\<lparr>n_thread := No_thread\<rparr>)"

inductive bridge_step :: "'m bridge \<Rightarrow> 'm bridge \<Rightarrow> bool" where
  br_install: "\<not> b_released b \<Longrightarrow> bridge_step b (bridge_install m b)"
| br_publish: "bridge_step b (bridge_publish b)"
| br_release: "bridge_step b (bridge_release b)"
| br_wait: "bridge_step b (snd (notifier_wait b))"
| br_drop: "bridge_step b (drop_future f b)"
| br_close: "bridge_step b (notifier_close b)"
| br_thread: "thread_step b c \<Longrightarrow> bridge_step b c"

inductive bridge_reach :: "'m bridge \<Rightarrow> bool" where
  br_here: "bridge_reach notifier_init"
| br_next: "bridge_reach b \<Longrightarrow> bridge_step b c \<Longrightarrow> bridge_reach c"

subsection \<open>The invariant\<close>

fun thread_seen :: "'m thread \<Rightarrow> nat option" where
  "thread_seen (Parked s) = Some s"
| "thread_seen (Checking s) = Some s"
| "thread_seen (Reached g) = Some g"
| "thread_seen (Woken (Some (g, _))) = Some g"
| "thread_seen _ = None"

definition unresolved_wait :: "'m bridge \<Rightarrow> bool" where
  "unresolved_wait b \<longleftrightarrow>
     (\<forall>f < length (n_futures b). snd (n_futures b ! f) = Unresolved \<longrightarrow> f \<in> set (n_waiters b)) \<and>
     (\<forall>f \<in> set (n_waiters b). f < length (n_futures b))"

definition seen_ok :: "'m bridge \<Rightarrow> bool" where
  "seen_ok b \<longleftrightarrow>
     (\<forall>s. thread_seen (n_thread b) = Some s \<longrightarrow> s \<le> b_generation b) \<and>
     (\<forall>f < length (n_futures b). fst (n_futures b ! f) \<le> b_generation b) \<and>
     (\<forall>f \<in> set (n_waiters b). \<forall>s. \<not> b_released b \<longrightarrow> n_thread b \<in> {Parked s, Checking s} \<longrightarrow> s \<le> fst (n_futures b ! f))"

definition live_ok :: "'m bridge \<Rightarrow> bool" where
  "live_ok b \<longleftrightarrow> (\<forall>g. n_thread b = Reached g \<longrightarrow> 0 < g) \<and>
     (\<not> b_released b \<longrightarrow> (0 < b_generation b \<longrightarrow> b_cache b \<noteq> None) \<and>
        (n_waiters b \<noteq> [] \<longrightarrow> is_alive (n_thread b)) \<and> n_thread b \<notin> {Dying, Woken None})"

definition bridge_inv :: "'m bridge \<Rightarrow> bool" where
  "bridge_inv b \<longleftrightarrow> unresolved_wait b \<and> seen_ok b \<and> live_ok b"

lemma settle_twice [simp]: "settle w (settle w f) = settle w f"
  by (simp add: settle_def)

lemma fst_settle [simp]: "fst (settle w f) = fst f"
  by (simp add: settle_def)

lemma settle_not_unresolved [simp]: "snd (settle w f) \<noteq> Unresolved"
  by (simp add: settle_def)

lemma fold_settle:
  "length (fold (\<lambda>i fs. fs[i := settle w (fs ! i)]) ws fs) = length fs \<and>
   (\<forall>j < length fs. fold (\<lambda>i fs. fs[i := settle w (fs ! i)]) ws fs ! j =
      (if j \<in> set ws then settle w (fs ! j) else fs ! j))"
proof (induction ws arbitrary: fs)
  case (Cons i ws)
  show ?case
    using Cons.IH [of "fs[i := settle w (fs ! i)]"]
    by (cases "i < length fs") (auto simp: nth_list_update list_update_beyond)
qed simp

lemma resolve_all_simps [simp]:
  "length (n_futures (resolve_all w b)) = length (n_futures b)"
  "j < length (n_futures b) \<Longrightarrow> n_futures (resolve_all w b) ! j =
     (if j \<in> set (n_waiters b) then settle w (n_futures b ! j) else n_futures b ! j)"
  "n_waiters (resolve_all w b) = []" "b_generation (resolve_all w b) = b_generation b"
  "b_cache (resolve_all w b) = b_cache b" "b_released (resolve_all w b) = b_released b"
  "n_thread (resolve_all w b) = n_thread b" "n_closed (resolve_all w b) = n_closed b"
  by (simp_all add: resolve_all_def fold_settle)

lemma bridge_inv_init: "bridge_inv notifier_init"
  by (simp add: bridge_inv_def unresolved_wait_def seen_ok_def live_ok_def notifier_init_def)

lemma unresolved_resolve_all: "unresolved_wait b \<Longrightarrow> unresolved_wait (resolve_all w b)"
  by (auto simp: unresolved_wait_def)

lemma seen_resolve_all: "seen_ok b \<Longrightarrow> seen_ok (resolve_all w b)"
  by (auto simp: seen_ok_def)

lemma unresolved_thread [simp]: "unresolved_wait (b\<lparr>n_thread := t\<rparr>) = unresolved_wait b"
  by (simp add: unresolved_wait_def)

lemma bridge_inv_thread: "thread_step b c \<Longrightarrow> bridge_inv b \<Longrightarrow> bridge_inv c"
proof (induction rule: thread_step.induct)
  case (th_reached b seen)
  then show ?case by (auto simp: bridge_inv_def seen_ok_def live_ok_def is_alive_def)
next
  case (th_released b seen)
  then show ?case by (auto simp: bridge_inv_def seen_ok_def live_ok_def is_alive_def)
next
  case (th_read b g)
  then show ?case
    by (cases "b_cache b") (auto simp: bridge_inv_def seen_ok_def live_ok_def is_alive_def)
next
  case (th_resolve b w)
  then have "unresolved_wait (resolve_all w b)" "seen_ok (resolve_all w b)" "live_ok b"
    by (simp_all add: bridge_inv_def unresolved_resolve_all seen_resolve_all)
  with th_resolve show ?case
    by (auto simp: bridge_inv_def seen_ok_def live_ok_def is_alive_def split: option.splits)
next
  case (th_check b g)
  then show ?case by (auto simp: bridge_inv_def seen_ok_def live_ok_def is_alive_def)
next
  case (th_ends b)
  then show ?case by (auto simp: bridge_inv_def seen_ok_def live_ok_def is_alive_def)
qed

lemma bridge_inv_wait: "bridge_inv b \<Longrightarrow> bridge_inv (snd (notifier_wait b))"
  by (auto simp: bridge_inv_def notifier_wait_def start_locked_def unresolved_wait_def seen_ok_def
      live_ok_def is_alive_def nth_append less_Suc_eq Let_def)

lemma bridge_inv_step: "bridge_step b c \<Longrightarrow> bridge_inv b \<Longrightarrow> bridge_inv c"
proof (induction rule: bridge_step.induct)
  case (br_install b m)
  then show ?case
    by (auto simp: bridge_inv_def bridge_install_def unresolved_wait_def seen_ok_def live_ok_def
        is_alive_def le_SucI)
next
  case (br_publish b)
  then show ?case
    by (auto simp: bridge_inv_def bridge_publish_def unresolved_wait_def seen_ok_def live_ok_def
        split: list.splits)
next
  case (br_release b)
  then show ?case
    by (auto simp: bridge_inv_def bridge_release_def unresolved_wait_def seen_ok_def live_ok_def)
next
  case (br_drop b f)
  then show ?case
    by (auto simp: bridge_inv_def drop_future_def unresolved_wait_def seen_ok_def live_ok_def
        nth_list_update)
next
  case (br_close b)
  have "bridge_inv (b\<lparr>n_closed := True\<rparr>)"
    using br_close by (simp add: bridge_inv_def unresolved_wait_def seen_ok_def live_ok_def)
  then show ?case
    by (auto simp: bridge_inv_def notifier_close_def unresolved_resolve_all seen_resolve_all
        live_ok_def)
qed (simp_all add: bridge_inv_wait bridge_inv_thread)

lemma bridge_inv_reach: "bridge_reach b \<Longrightarrow> bridge_inv b"
proof (induction rule: bridge_reach.induct)
  case br_here
  show ?case by (rule bridge_inv_init)
next
  case (br_next b c)
  then show ?case by (blast intro: bridge_inv_step)
qed


subsection \<open>A waiter is woken\<close>

lemma woken_settles:
  assumes "n_thread b = Woken w" "f < length (n_futures b)" "snd (n_futures b ! f) = Unresolved"
    "f \<in> set (n_waiters b)"
  shows "\<exists>c. thread_step b c \<and> snd (n_futures c ! f) = Settled w"
  using th_resolve [OF assms(1)] assms(2-4) by (intro exI conjI) (auto simp: settle_def)

lemma reached_settles:
  assumes "n_thread b = Reached g" "f < length (n_futures b)" "snd (n_futures b ! f) = Unresolved"
    "f \<in> set (n_waiters b)"
  shows "\<exists>c. thread_step\<^sup>*\<^sup>* b c \<and> snd (n_futures c ! f) = Settled (map_option (Pair g) (b_cache b))"
proof -
  let ?b1 = "b\<lparr>n_thread := Woken (map_option (Pair g) (b_cache b))\<rparr>"
  have "thread_step b ?b1" by (rule th_read [OF assms(1)])
  moreover obtain c where "thread_step ?b1 c"
    "snd (n_futures c ! f) = Settled (map_option (Pair g) (b_cache b))"
    using woken_settles [of ?b1 "map_option (Pair g) (b_cache b)" f] assms(2-4) by auto
  ultimately show ?thesis by (meson rtranclp.rtrancl_into_rtrancl rtranclp.rtrancl_refl)
qed

lemma parked_settles:
  assumes "n_thread b = Parked s" "s < b_generation b" "f < length (n_futures b)"
    "snd (n_futures b ! f) = Unresolved" "f \<in> set (n_waiters b)"
  shows "\<exists>c. thread_step\<^sup>*\<^sup>* b c \<and>
    snd (n_futures c ! f) = Settled (map_option (Pair (b_generation b)) (b_cache b))"
proof -
  let ?b1 = "b\<lparr>n_thread := Reached (b_generation b)\<rparr>"
  have "thread_step b ?b1" by (rule th_reached [OF assms(1,2)])
  moreover obtain c where "thread_step\<^sup>*\<^sup>* ?b1 c"
    "snd (n_futures c ! f) = Settled (map_option (Pair (b_generation b)) (b_cache b))"
    using reached_settles [of ?b1 "b_generation b" f] assms(3-5) by auto
  ultimately show ?thesis by (meson converse_rtranclp_into_rtranclp)
qed

lemma waiter_settles:
  assumes "bridge_inv b" "\<not> b_released b" "f < length (n_futures b)"
    "snd (n_futures b ! f) = Unresolved" "fst (n_futures b ! f) < b_generation b"
  shows "\<exists>c g m. thread_step\<^sup>*\<^sup>* b c \<and> snd (n_futures c ! f) = Settled (Some (g, m))"
proof -
  have w: "f \<in> set (n_waiters b)" using assms by (auto simp: bridge_inv_def unresolved_wait_def)
  then have alive: "is_alive (n_thread b)" "n_thread b \<noteq> Dying" "n_thread b \<noteq> Woken None"
    using assms(1,2) by (auto simp: bridge_inv_def live_ok_def)
  obtain m where m: "b_cache b = Some m"
    using assms(1,2,5) by (auto simp: bridge_inv_def live_ok_def)
  show ?thesis
  proof (cases "n_thread b")
    case No_thread
    with alive show ?thesis by (simp add: is_alive_def)
  next
    case (Parked s)
    with assms w have "s < b_generation b" by (fastforce simp: bridge_inv_def seen_ok_def)
    from parked_settles [OF Parked this assms(3,4) w] m show ?thesis by auto
  next
    case (Reached g)
    from reached_settles [OF this assms(3,4) w] m show ?thesis by auto
  next
    case (Woken u)
    then obtain g v where "u = Some (g, v)" using alive by (cases u) auto
    with woken_settles [OF Woken assms(3,4) w] show ?thesis by blast
  next
    case (Checking s)
    with assms w have s: "s < b_generation b" by (fastforce simp: bridge_inv_def seen_ok_def)
    let ?b1 = "b\<lparr>n_thread := Parked s\<rparr>"
    have "thread_step b ?b1"
      using th_check [OF Checking] w by (cases "n_waiters b") auto
    moreover obtain c where "thread_step\<^sup>*\<^sup>* ?b1 c"
      "snd (n_futures c ! f) = Settled (map_option (Pair (b_generation b)) (b_cache b))"
      using parked_settles [of ?b1 s f] s assms(3,4) w by auto
    ultimately show ?thesis using m by (auto intro: converse_rtranclp_into_rtranclp)
  next
    case Dying
    with alive show ?thesis by simp
  qed
qed

subsection \<open>\<open>changes()\<close>\<close>

text \<open>The iterator registers, reads the generation, and either takes what \<open>try_current()\<close> answers or
  awaits its future. A yield is recorded with the generation the iterator takes it to be.\<close>

datatype phase = Top | Registered nat | Moved nat nat | Awaiting nat | Finished

record 'm changes =
  ch_seen :: nat
  ch_phase :: phase
  ch_yielded :: "(nat \<times> 'm) list"

definition changes_start :: "'m bridge \<Rightarrow> 'm changes" where
  "changes_start b = \<lparr>ch_seen = b_generation b, ch_phase = Top, ch_yielded = []\<rparr>"

definition changes_yield :: "nat \<Rightarrow> 'm \<Rightarrow> 'm changes \<Rightarrow> 'm changes" where
  "changes_yield g m c = c\<lparr>ch_seen := g, ch_phase := Top, ch_yielded := ch_yielded c @ [(g, m)]\<rparr>"

inductive changes_step ::
  "'m bridge \<times> 'm changes \<Rightarrow> 'm bridge \<times> 'm changes \<Rightarrow> bool" where
  ch_wait: "ch_phase c = Top \<Longrightarrow>
     changes_step (b, c) (snd (notifier_wait b), c\<lparr>ch_phase := Registered (fst (notifier_wait b))\<rparr>)"
| ch_look: "ch_phase c = Registered f \<Longrightarrow>
     changes_step (b, c)
       (if ch_seen c < b_generation b
        then (drop_future f b, c\<lparr>ch_seen := b_generation b, ch_phase := Moved (ch_seen c) (b_generation b)\<rparr>)
        else (b, c\<lparr>ch_phase := Awaiting f\<rparr>))"
| ch_current: "ch_phase c = Moved before now \<Longrightarrow>
     changes_step (b, c)
       (b, case b_cached b of None \<Rightarrow> c\<lparr>ch_phase := Finished\<rparr> | Some m \<Rightarrow> changes_yield now m c)"
| ch_woken: "ch_phase c = Awaiting f \<Longrightarrow> f < length (n_futures b) \<Longrightarrow>
     snd (n_futures b ! f) = Settled w \<Longrightarrow>
     changes_step (b, c)
       (b, case w of None \<Rightarrow> c\<lparr>ch_phase := Finished\<rparr>
           | Some (g, m) \<Rightarrow> if g \<le> ch_seen c then c\<lparr>ch_phase := Top\<rparr> else changes_yield g m c)"

inductive changes_reach :: "'m bridge \<times> 'm changes \<Rightarrow> bool" where
  cr_here: "bridge_reach b \<Longrightarrow> changes_reach (b, changes_start b)"
| cr_bridge: "changes_reach (b, c) \<Longrightarrow> bridge_step b b' \<Longrightarrow> changes_reach (b', c)"
| cr_changes: "changes_reach s \<Longrightarrow> changes_step s t \<Longrightarrow> changes_reach t"

definition changes_inv :: "'m changes \<Rightarrow> bool" where
  "changes_inv c \<longleftrightarrow> sorted_wrt (<) (map fst (ch_yielded c)) \<and>
     (\<forall>g \<in> fst ` set (ch_yielded c). g \<le> ch_seen c) \<and>
     (\<forall>before now. ch_phase c = Moved before now \<longrightarrow> before < now \<and> now = ch_seen c \<and>
        (\<forall>g \<in> fst ` set (ch_yielded c). g \<le> before))"

lemma changes_inv_step: "changes_step s t \<Longrightarrow> changes_inv (snd s) \<Longrightarrow> changes_inv (snd t)"
proof (induction rule: changes_step.induct)
  case (ch_wait c b)
  then show ?case by (auto simp: changes_inv_def)
next
  case (ch_look c f b)
  then show ?case by (auto simp: changes_inv_def)
next
  case (ch_current c before now b)
  then show ?case
    by (auto simp: changes_inv_def changes_yield_def sorted_wrt_append split: option.splits)
next
  case (ch_woken c f b w)
  then show ?case
    by (auto simp: changes_inv_def changes_yield_def sorted_wrt_append split: option.splits)
qed

lemma changes_inv_reach: "changes_reach s \<Longrightarrow> changes_inv (snd s)"
proof (induction rule: changes_reach.induct)
  case (cr_here b)
  show ?case by (simp add: changes_inv_def changes_start_def)
next
  case (cr_changes s t)
  then show ?case by (blast intro: changes_inv_step)
qed simp

subsection \<open>Properties\<close>

text \<open>C19: No wake-up is lost: on a configuration that is not released, in every reachable state of
  the interleaved threads, a waiter that is still unresolved although the generation has moved
  past its registration is resolved with a model by the notifier thread's own next steps.\<close>

theorem no_wake_up_is_lost:
  assumes "bridge_reach b" "\<not> b_released b" "f < length (n_futures b)"
    "n_futures b ! f = (g, Unresolved)" "g < b_generation b"
  shows "\<exists>c g' m. thread_step\<^sup>*\<^sup>* b c \<and> snd (n_futures c ! f) = Settled (Some (g', m))"
  using waiter_settles [OF bridge_inv_reach [OF assms(1)] assms(2,3)] assms(4,5) by auto

lemmas bridge_evals = notifier_init_def notifier_wait_def start_locked_def is_alive_def
  bridge_install_def bridge_publish_def bridge_release_def resolve_all_def settle_def
  drop_future_def Let_def

definition one_waiter :: "nat bridge" where
  "one_waiter = snd (notifier_wait notifier_init)"

lemma one_waiter_reach: "bridge_reach one_waiter"
  unfolding one_waiter_def by (rule br_next [OF br_here br_wait])

theorem no_wake_up_is_lost_witness:
  "\<exists>c g m. thread_step\<^sup>*\<^sup>* (bridge_install (7::nat) one_waiter) c \<and>
     snd (n_futures c ! 0) = Settled (Some (g, m))"
proof -
  have nr: "\<not> b_released one_waiter" by (simp add: one_waiter_def bridge_evals)
  show ?thesis
    by (rule no_wake_up_is_lost [OF br_next [OF one_waiter_reach br_install [OF nr]], where f = 0 and g = 0])
      (simp_all add: one_waiter_def bridge_evals)
qed

text \<open>\<open>changes()\<close> never goes back and never repeats: the generations it takes its yields to be are
  strictly increasing, in every interleaving with installs, releases, other waiters and the
  notifier thread.\<close>

theorem changes_yields_strictly_newer:
  assumes "changes_reach (b, c)"
  shows "sorted_wrt (<) (map fst (ch_yielded c)) \<and> (\<forall>g \<in> fst ` set (ch_yielded c). g \<le> ch_seen c)"
  using changes_inv_reach [OF assms] by (simp add: changes_inv_def)

theorem changes_yields_strictly_newer_witness:
  "sorted_wrt (<) (map fst (ch_yielded (changes_start one_waiter)))"
  using changes_yields_strictly_newer [OF cr_here [OF one_waiter_reach]] by simp

text \<open>\<open>changes()\<close> can miss the newest model for good. The generation is bumped before the hook
  that fills \<open>_cached\<close> runs, and the iterator's short cut reads the generation and then
  \<open>_cached\<close>: it yields the previous model as the new generation, and then waits, with nothing
  left to wake it, while \<open>current()\<close> answers a model it never yielded.\<close>

theorem changes_can_miss_the_newest_model:
  "\<exists>b c f. changes_reach (b, c) \<and> ch_yielded c = [(2, 10)] \<and> b_cached b = Some (20::nat) \<and>
     b_unpublished b = [] \<and> ch_phase c = Awaiting f \<and> snd (n_futures b ! f) = Unresolved \<and>
     \<not> (\<exists>b'. thread_step b b') \<and> \<not> (\<exists>t. changes_step (b, c) t)"
proof -
  let ?b1 = "bridge_publish (bridge_install 10 notifier_init)"
  let ?c1 = "changes_start ?b1"
  let ?b2 = "bridge_install 20 ?b1"
  let ?b3 = "snd (notifier_wait ?b2)" and ?c3 = "?c1\<lparr>ch_phase := Registered 0\<rparr>"
  let ?b4 = "drop_future 0 ?b3" and ?c4 = "?c3\<lparr>ch_seen := 2, ch_phase := Moved 1 2\<rparr>"
  let ?c5 = "changes_yield 2 10 ?c4"
  let ?b6 = "bridge_publish ?b4"
  let ?b7 = "snd (notifier_wait ?b6)" and ?c7 = "?c5\<lparr>ch_phase := Registered 1\<rparr>"
  let ?c8 = "?c7\<lparr>ch_phase := Awaiting 1\<rparr>"
  note defs = bridge_evals changes_start_def changes_yield_def
  have r1: "bridge_reach ?b1"
    by (rule br_next [OF br_next [OF br_here br_install] br_publish]) (simp add: notifier_init_def)
  have r2: "changes_reach (?b2, ?c1)"
    by (rule cr_bridge [OF cr_here [OF r1] br_install]) (simp add: defs)
  have "changes_step (?b2, ?c1) (?b3, ?c3)"
    using ch_wait [of ?c1 ?b2] by (simp add: defs)
  from cr_changes [OF r2 this] have r3: "changes_reach (?b3, ?c3)" .
  have "changes_step (?b3, ?c3) (?b4, ?c4)"
    using ch_look [of ?c3 0 ?b3] by (simp add: defs numeral_2_eq_2)
  from cr_changes [OF r3 this] have r4: "changes_reach (?b4, ?c4)" .
  have "changes_step (?b4, ?c4) (?b4, ?c5)"
    using ch_current [of ?c4 1 2 ?b4] by (simp add: defs)
  from cr_bridge [OF cr_changes [OF r4 this] br_publish] have r6: "changes_reach (?b6, ?c5)" .
  have "changes_step (?b6, ?c5) (?b7, ?c7)"
    using ch_wait [of ?c5 ?b6] by (simp add: defs)
  from cr_changes [OF r6 this] have r7: "changes_reach (?b7, ?c7)" .
  have "changes_step (?b7, ?c7) (?b7, ?c8)"
    using ch_look [of ?c7 1 ?b7] by (simp add: defs numeral_2_eq_2)
  from cr_changes [OF r7 this] have r8: "changes_reach (?b7, ?c8)" .
  have stuck: "\<not> (\<exists>b'. thread_step ?b7 b')"
    by (auto simp: defs elim!: thread_step.cases)
  have idle: "\<not> (\<exists>t. changes_step (?b7, ?c8) t)"
    by (auto simp: defs elim!: changes_step.cases)
  show ?thesis
    using r8 stuck idle by (intro exI [of _ ?b7] exI [of _ ?c8] exI [of _ 1]) (simp add: defs)
qed

text \<open>A waiter that registers while the thread holds the wake of an install it already knows is
  resolved with that old install: \<open>changed_async\<close>, which unlike \<open>changes()\<close> does not compare the
  generation, answers the model that was installed before it was called.\<close>

theorem waiter_can_be_woken_for_an_old_install:
  "\<exists>b. bridge_reach b \<and> n_futures b ! 1 = (1, Settled (Some (1, 10::nat))) \<and> b_generation b = 1"
proof -
  let ?b1 = "bridge_install 10 one_waiter"
  let ?b2 = "?b1\<lparr>n_thread := Reached 1\<rparr>"
  let ?b3 = "?b2\<lparr>n_thread := Woken (Some (1, 10))\<rparr>"
  let ?b4 = "snd (notifier_wait ?b3)"
  let ?b5 = "(resolve_all (Some (1, 10)) ?b4)\<lparr>n_thread := Checking 1\<rparr>"
  note defs = bridge_evals one_waiter_def
  have r1: "bridge_reach ?b1"
    by (rule br_next [OF one_waiter_reach br_install]) (simp add: defs)
  have "thread_step ?b1 ?b2" using th_reached [of ?b1 0] by (simp add: defs)
  from br_next [OF r1 br_thread [OF this]] have r2: "bridge_reach ?b2" .
  have "thread_step ?b2 ?b3" using th_read [of ?b2 1] by (simp add: defs)
  from br_next [OF br_next [OF r2 br_thread [OF this]] br_wait] have r4: "bridge_reach ?b4" .
  have "thread_step ?b4 ?b5" using th_resolve [of ?b4 "Some (1, 10)"] by (simp add: defs)
  from br_next [OF r4 br_thread [OF this]] have "bridge_reach ?b5" .
  then show ?thesis by (intro exI [of _ ?b5]) (simp add: defs)
qed

text \<open>A waiter that registers between the thread's last \<open>_resolve_all(None)\<close> and its end, when the
  configuration has been released, is never resolved: the thread counts as alive, so none is
  started, and it ends without looking again.\<close>

theorem waiter_during_release_is_forgotten:
  "\<exists>b. bridge_reach b \<and> b_released b \<and> n_waiters b = [1] \<and> n_thread b = No_thread \<and>
     n_futures b ! 1 = (0, Unresolved :: nat future) \<and> \<not> (\<exists>b'. thread_step b b')"
proof -
  let ?b1 = "bridge_release one_waiter"
  let ?b2 = "?b1\<lparr>n_thread := Woken None\<rparr>"
  let ?b3 = "(resolve_all None ?b2)\<lparr>n_thread := Dying\<rparr>"
  let ?b4 = "snd (notifier_wait ?b3)"
  let ?b5 = "?b4\<lparr>n_thread := No_thread\<rparr>"
  note defs = bridge_evals one_waiter_def
  have r1: "bridge_reach ?b1" by (rule br_next [OF one_waiter_reach br_release])
  have "thread_step ?b1 ?b2" using th_released [of ?b1 0] by (simp add: defs)
  from br_next [OF r1 br_thread [OF this]] have r2: "bridge_reach ?b2" .
  have "thread_step ?b2 ?b3" using th_resolve [of ?b2 None] by (simp add: defs)
  from br_next [OF br_next [OF r2 br_thread [OF this]] br_wait] have r4: "bridge_reach ?b4" .
  have "thread_step ?b4 ?b5" by (rule th_ends) (simp add: defs)
  from br_next [OF r4 br_thread [OF this]] have "bridge_reach ?b5" .
  moreover have "\<not> (\<exists>b'. thread_step ?b5 b')" by (auto elim: thread_step.cases)
  ultimately show ?thesis by (intro exI [of _ ?b5]) (simp add: defs)
qed

subsection \<open>Built on the first await: \<open>_notifier\<close> and \<open>_event_notifier\<close>\<close>

text \<open>A configuration's notifiers, by number in the order of building. The test, the assignment and
  the read behind it are separate, for no lock is held.\<close>

record notifiers =
  nb_instance :: "nat option"
  nb_built :: nat

datatype finder = Looks | Makes | Returns | Holds nat

definition notifier_for :: "nat \<Rightarrow> notifiers \<times> finder list \<Rightarrow> notifiers \<times> finder list" where
  "notifier_for i = (\<lambda>(s, fs).
     case fs ! i of
       Looks \<Rightarrow> (s, fs[i := (if nb_instance s = None then Makes else Returns)])
     | Makes \<Rightarrow> (s\<lparr>nb_instance := Some (nb_built s), nb_built := Suc (nb_built s)\<rparr>, fs[i := Returns])
     | Returns \<Rightarrow> (s, fs[i := (case nb_instance s of None \<Rightarrow> Returns | Some n \<Rightarrow> Holds n)])
     | Holds n \<Rightarrow> (s, fs))"

definition no_notifier :: notifiers where
  "no_notifier = \<lparr>nb_instance = None, nb_built = 0\<rparr>"

definition finds :: "nat list \<Rightarrow> nat \<Rightarrow> notifiers \<times> finder list" where
  "finds steps n = fold notifier_for steps (no_notifier, replicate n Looks)"

text \<open>On one loop, one call after the other, there is one.\<close>

lemma one_loop_one_notifier:
  "nb_instance s = Some n \<Longrightarrow> fs ! i = Looks \<Longrightarrow> i < length fs \<Longrightarrow>
   fold notifier_for [i, i] (s, fs) = (s, fs[i := Holds n])"
  "finds [0, 0, 0] 1 = (\<lparr>nb_instance = Some 0, nb_built = 1\<rparr>, [Holds 0])"
  by (simp_all add: notifier_for_def finds_def no_notifier_def)

text \<open>Two loops on two threads that await for the first time at once: two are built, each waits on its
  own, and the configuration knows one of them.\<close>

lemma two_loops_build_two_notifiers:
  "finds [0, 1, 0, 0, 1, 1] 2 = (\<lparr>nb_instance = Some 1, nb_built = 2\<rparr>, [Holds 0, Holds 1])"
  by (simp add: finds_def notifier_for_def no_notifier_def numeral_2_eq_2)

end
