(* ===== verification/Dataclasses.thy ===== *)
theory Dataclasses
  imports PyValue
begin

section \<open>A dataclass as a schema: \<open>_dataclasses.py\<close>, with \<open>_unwrap\<close> of \<open>_schema.py\<close>\<close>

text \<open>
  An annotation is what \<open>typing.get_type_hints\<close> answers: a class, a union, a parameterised
  container, a \<open>Literal\<close>, or something that is not a type. The record \<open>classes\<close> is the world of
  classes the annotations name: the declared dataclasses and enumerations as data, and as
  functions what classes outside the repository do when they parse text, are constructed or
  asked about an instance, the \<open>repr\<close> of an integer made a float, and the name a message gives an
  annotation. A validation error is its message. Constructing an instance stores the arguments;
  fields that take their default, and a constructor that raises, are not in the model, and a set
  is built of hashable elements.
\<close>

subsection \<open>Annotations and classes\<close>

datatype cls =
    C_bool | C_int | C_float | C_str | C_bytes
  | C_list | C_set | C_frozenset | C_tuple | C_dict
  | C_dataclass string
  | C_enum string
  | C_secret string
  | C_iso string
  | C_foreign string

datatype type_origin = O_list | O_set | O_frozenset | O_tuple | O_dict | O_other string

datatype annot =
    A_class cls
  | A_none
  | A_any
  | A_union "annot list"
  | A_annotated annot
  | A_generic type_origin "annot list"
  | A_literal "pyval list"
  | A_ellipsis
  | A_typevar string

record field =
  fd_name :: string
  fd_required :: bool
  fd_annotation :: annot
  fd_secret :: bool

record classes =
  cl_dataclasses :: "(string \<times> field list) list"
  cl_enums :: "(string \<times> (string \<times> pyval) list) list"
  cl_isinstance :: "string \<Rightarrow> pyval \<Rightarrow> bool"
  cl_iso :: "string \<Rightarrow> string \<Rightarrow> pyval option"
  cl_construct :: "string \<Rightarrow> pyval \<Rightarrow> pyval option"
  cl_float :: "int \<Rightarrow> string"
  cl_name :: "annot \<Rightarrow> string"

definition fields_of :: "classes \<Rightarrow> string \<Rightarrow> field list" where
  "fields_of k n = (case map_of (cl_dataclasses k) n of None \<Rightarrow> [] | Some fs \<Rightarrow> fs)"

fun cls_name :: "cls \<Rightarrow> string" where
  "cls_name C_bool = ''bool''"
| "cls_name C_int = ''int''"
| "cls_name C_float = ''float''"
| "cls_name C_str = ''str''"
| "cls_name C_bytes = ''bytes''"
| "cls_name C_list = ''list''"
| "cls_name C_set = ''set''"
| "cls_name C_frozenset = ''frozenset''"
| "cls_name C_tuple = ''tuple''"
| "cls_name C_dict = ''dict''"
| "cls_name (C_dataclass n) = n"
| "cls_name (C_enum n) = n"
| "cls_name (C_secret n) = n"
| "cls_name (C_iso n) = n"
| "cls_name (C_foreign n) = n"

fun origin_name :: "type_origin \<Rightarrow> string" where
  "origin_name O_list = ''list''"
| "origin_name O_set = ''set''"
| "origin_name O_frozenset = ''frozenset''"
| "origin_name O_tuple = ''tuple''"
| "origin_name O_dict = ''dict''"
| "origin_name (O_other n) = n"

text \<open>\<open>_members\<close>: a union's members, flattened; containers stay.\<close>

fun members :: "annot \<Rightarrow> annot list" where
  "members (A_union as) = concat (map members as)"
| "members (A_annotated a) = members a"
| "members a = [a]"

text \<open>\<open>_unwrap\<close> flattens through everything that has an origin.\<close>

fun unwrap :: "annot \<Rightarrow> annot list" where
  "unwrap (A_union as) = concat (map unwrap as)"
| "unwrap (A_annotated a) = unwrap a"
| "unwrap (A_generic _ as) = concat (map unwrap as)"
| "unwrap (A_literal _) = []"
| "unwrap a = [a]"

subsection \<open>One value against one class\<close>

text \<open>\<open>isinstance(value, candidate)\<close>, with \<open>bool\<close> a subclass of \<open>int\<close>.\<close>

fun isinstance :: "classes \<Rightarrow> cls \<Rightarrow> pyval \<Rightarrow> bool" where
  "isinstance k C_bool v = (case v of PBool _ \<Rightarrow> True | _ \<Rightarrow> False)"
| "isinstance k C_int v = (case v of PInt _ \<Rightarrow> True | PBool _ \<Rightarrow> True | _ \<Rightarrow> False)"
| "isinstance k C_float v = (case v of PFloat _ \<Rightarrow> True | _ \<Rightarrow> False)"
| "isinstance k C_str v = (case v of PStr _ \<Rightarrow> True | _ \<Rightarrow> False)"
| "isinstance k C_bytes v = False"
| "isinstance k C_list v = (case v of PList _ \<Rightarrow> True | _ \<Rightarrow> False)"
| "isinstance k C_set v = (case v of PSet _ \<Rightarrow> True | _ \<Rightarrow> False)"
| "isinstance k C_frozenset v = (case v of PFrozen _ \<Rightarrow> True | _ \<Rightarrow> False)"
| "isinstance k C_tuple v = (case v of PTuple _ \<Rightarrow> True | _ \<Rightarrow> False)"
| "isinstance k C_dict v = (case v of PDict _ \<Rightarrow> True | _ \<Rightarrow> False)"
| "isinstance k (C_dataclass n) v = (case v of PInst m _ \<Rightarrow> m = n | _ \<Rightarrow> False)"
| "isinstance k (C_enum n) v = (case v of PEnum m _ \<Rightarrow> m = n | _ \<Rightarrow> False)"
| "isinstance k (C_secret n) v = (case v of PObj m _ \<Rightarrow> m = n | _ \<Rightarrow> False)"
| "isinstance k (C_iso n) v = cl_isinstance k n v"
| "isinstance k (C_foreign n) v = cl_isinstance k n v"

text \<open>\<open>==\<close> between scalars: \<open>True == 1 == 1.0\<close>.\<close>

definition py_eq :: "classes \<Rightarrow> pyval \<Rightarrow> pyval \<Rightarrow> bool" where
  "py_eq k a b =
     (let num = (\<lambda>v. case v of PBool t \<Rightarrow> Some (cl_float k (if t then 1 else 0))
        | PInt n \<Rightarrow> Some (cl_float k n) | PFloat s \<Rightarrow> Some s | _ \<Rightarrow> None) in
      case (a, b) of
        (PInt m, PInt n) \<Rightarrow> m = n
      | _ \<Rightarrow> (case (num a, num b) of (Some x, Some y) \<Rightarrow> x = y | _ \<Rightarrow> a = b))"

definition enum_member :: "classes \<Rightarrow> string \<Rightarrow> pyval \<Rightarrow> pyval option" where
  "enum_member k n v =
     (if (case v of PEnum m _ \<Rightarrow> m = n | _ \<Rightarrow> False) then Some v
      else case map_of (cl_enums k) n of
          None \<Rightarrow> None
        | Some ms \<Rightarrow> map_option (\<lambda>(name, _). PEnum n name) (find (\<lambda>(_, value). py_eq k value v) ms))"

text \<open>What iterating a value gives the constructor of a built-in container.\<close>

fun iterated :: "pyval \<Rightarrow> pyval list option" where
  "iterated (PStr s) = Some (map (\<lambda>c. PStr [c]) s)"
| "iterated (PList xs) = Some xs"
| "iterated (PTuple xs) = Some xs"
| "iterated (PSet xs) = Some xs"
| "iterated (PFrozen xs) = Some xs"
| "iterated (PDict d) = Some (map (\<lambda>(key, _). PStr key) d)"
| "iterated _ = None"

text \<open>\<open>candidate(value)\<close>, or \<open>None\<close> where it raises. A \<open>dict\<close> of pairs does not come from a tree.\<close>

fun construct :: "classes \<Rightarrow> cls \<Rightarrow> pyval \<Rightarrow> pyval option" where
  "construct k C_list v = map_option PList (iterated v)"
| "construct k C_set v = map_option (\<lambda>xs. PSet (from_keys xs)) (iterated v)"
| "construct k C_frozenset v = map_option (\<lambda>xs. PFrozen (from_keys xs)) (iterated v)"
| "construct k C_tuple v = map_option PTuple (iterated v)"
| "construct k (C_iso n) v = cl_construct k n v"
| "construct k (C_foreign n) v = cl_construct k n v"
| "construct k _ v = None"

definition expected :: "string \<Rightarrow> string \<Rightarrow> pyval \<Rightarrow> string" where
  "expected path name v = path @ '': expected '' @ name @ '', got '' @ type_name v"

text \<open>\<open>_one\<close> for a class that is not a dataclass.\<close>

definition constructed :: "classes \<Rightarrow> cls \<Rightarrow> pyval \<Rightarrow> string \<Rightarrow> (string, pyval) result" where
  "constructed k c v path =
     (case construct k c v of
        Some r \<Rightarrow> Inr r
      | None \<Rightarrow> Inl (expected path (cls_name c) v @ '' and '' @ cls_name c @ '' does not build from one''))"

fun int_value :: "pyval \<Rightarrow> int option" where
  "int_value (PInt n) = Some n"
| "int_value _ = None"

definition parsed_or_constructed :: "classes \<Rightarrow> cls \<Rightarrow> pyval \<Rightarrow> string \<Rightarrow> (string, pyval) result" where
  "parsed_or_constructed k c v path =
     (case c of
        C_iso n \<Rightarrow>
          (case v of
             PStr s \<Rightarrow>
               (case cl_iso k n s of Some r \<Rightarrow> Inr r | None \<Rightarrow> Inl (path @ '': not a valid '' @ n))
           | _ \<Rightarrow> constructed k c v path)
      | _ \<Rightarrow> constructed k c v path)"

definition one_class :: "classes \<Rightarrow> cls \<Rightarrow> pyval \<Rightarrow> string \<Rightarrow> (string, pyval) result" where
  "one_class k c v path =
     (case c of
        C_enum n \<Rightarrow>
          (case enum_member k n v of
             Some m \<Rightarrow> Inr m
           | None \<Rightarrow> Inl (path @ '': not one of '' @ n @ [CHR 0x27] @ ''s members''))
      | C_bool \<Rightarrow> if isinstance k C_bool v then Inr v else Inl (expected path ''bool'' v)
      | _ \<Rightarrow>
          if c = C_float \<and> int_value v \<noteq> None then Inr (PFloat (cl_float k (the (int_value v))))
          else if isinstance k c v \<and> \<not> (c = C_int \<and> isinstance k C_bool v) then Inr v
          else (case c of
              C_secret n \<Rightarrow> Inr (PObj n v)
            | _ \<Rightarrow>
                if c \<in> {C_str, C_bytes, C_int, C_float} then Inl (expected path (cls_name c) v)
                else parsed_or_constructed k c v path))"

subsection \<open>The recursive checker\<close>

text \<open>The first member that takes the value, or every failure.\<close>

fun first_ok :: "('a \<Rightarrow> ('e, 'b) result) \<Rightarrow> 'a list \<Rightarrow> ('e list, 'b) result" where
  "first_ok f [] = Inl []"
| "first_ok f (x # xs) =
     (case f x of
        Inr y \<Rightarrow> Inr y
      | Inl e \<Rightarrow> (case first_ok f xs of Inl es \<Rightarrow> Inl (e # es) | Inr y \<Rightarrow> Inr y))"

lemma first_ok_cong [fundef_cong]:
  "xs = ys \<Longrightarrow> (\<And>x. x \<in> set ys \<Longrightarrow> f x = g x) \<Longrightarrow> first_ok f xs = first_ok g ys"
proof (induction ys arbitrary: xs)
  case (Cons y ys)
  then have "f y = g y" "first_ok f ys = first_ok g ys" by simp_all
  with Cons.prems(1) show ?case by (simp split: sum.split)
qed simp

lemma first_ok_Inr: "first_ok f xs = Inr y \<Longrightarrow> \<exists>x \<in> set xs. f x = Inr y"
  by (induction xs) (auto split: sum.splits)

text \<open>A comprehension over \<open>enumerate(value)\<close>.\<close>

definition element_path :: "string \<Rightarrow> nat \<Rightarrow> string" where
  "element_path path i = path @ ''['' @ str_of_nat i @ '']''"

lemma enumerate_member: "(i, x) \<in> set (enumerate n xs) \<Longrightarrow> x \<in> set xs"
  by (auto simp: in_set_enumerate_eq)

lemma enumerate_sequence_size: "(i, x) \<in> set (enumerate n (sequence_items v)) \<Longrightarrow> size x < size v"
  by (rule size_sequence_items) (rule enumerate_member)

lemma enumerate_zip_size:
  "(i, a, x) \<in> set (enumerate n (zip as (sequence_items v))) \<Longrightarrow> size x < size v"
  by (metis enumerate_member set_zip_rightD size_sequence_items)

lemma map_of_items_size: "map_of (mapping_items v) key = Some x \<Longrightarrow> size x < size v"
  by (rule size_mapping_items) (rule map_of_SomeD)

function (sequential)
  coerce :: "classes \<Rightarrow> annot \<Rightarrow> pyval \<Rightarrow> string \<Rightarrow> (string, pyval) result" and
  one :: "classes \<Rightarrow> annot \<Rightarrow> pyval \<Rightarrow> string \<Rightarrow> (string, pyval) result" and
  container :: "classes \<Rightarrow> type_origin \<Rightarrow> annot list \<Rightarrow> pyval \<Rightarrow> string \<Rightarrow> (string, pyval) result" and
  build :: "classes \<Rightarrow> string \<Rightarrow> pyval \<Rightarrow> string \<Rightarrow> (string, pyval) result" where
  "coerce k a v path =
     (if v = PNone then
        (if A_none \<in> set (members a) then Inr PNone
         else Inl (path @ '': expected '' @ cl_name k a @ '', got None''))
      else
        (let concrete = filter (\<lambda>c. c \<noteq> A_none) (members a) in
         if concrete = [] \<or> A_any \<in> set concrete then Inr v
         else (case first_ok (\<lambda>c. one k c v path) concrete of
             Inr r \<Rightarrow> Inr r
           | Inl failures \<Rightarrow>
               if 1 < length concrete then Inl (expected path (cl_name k a) v) else Inl (hd failures))))"
| "one k (A_generic origin arguments) v path = container k origin arguments v path"
| "one k (A_literal allowed) v path =
     (if list_ex (\<lambda>item. py_eq k item v \<and> type_name item = type_name v) allowed then Inr v
      else Inl (path @ '': not one of the '' @ str_of_nat (length allowed) @ '' values this field allows''))"
| "one k (A_class (C_dataclass n)) v path =
     (if is_mapping v then build k n v (path @ ''.'')
      else Inl (path @ '': expected a table for '' @ n @ '', got '' @ type_name v))"
| "one k (A_class c) v path = one_class k c v path"
| "one k _ v path = Inr v"
| "container k origin arguments v path =
     (case origin of
        O_dict \<Rightarrow>
          if \<not> is_mapping v then Inl (path @ '': expected a table, got '' @ type_name v)
          else if length arguments \<noteq> 2 then Inr v
          else rbind (traverse (\<lambda>(key, item).
                 rbind (coerce k (arguments ! 1) item (path @ ''.'' @ key)) (\<lambda>r. Inr (key, r)))
               (mapping_items v)) (\<lambda>d. Inr (PDict d))
      | O_other _ \<Rightarrow> Inr v
      | O_tuple \<Rightarrow>
          if \<not> is_sequence v then Inl (expected path ''tuple'' v)
          else if length arguments = 2 \<and> arguments ! 1 = A_ellipsis then
            rbind (traverse (\<lambda>(i, item). coerce k (arguments ! 0) item (element_path path i))
              (enumerate 0 (sequence_items v))) (\<lambda>xs. Inr (PTuple xs))
          else if arguments \<noteq> [] \<and> length arguments \<noteq> length (sequence_items v) then
            Inl (path @ '': expected '' @ str_of_nat (length arguments) @ '' element(s), got '' @
              str_of_nat (length (sequence_items v)))
          else
            rbind (traverse (\<lambda>(i, a, item). coerce k a item (element_path path i))
              (enumerate 0 (zip arguments (sequence_items v)))) (\<lambda>xs. Inr (PTuple xs))
      | _ \<Rightarrow>
          if \<not> is_sequence v then Inl (expected path (origin_name origin) v)
          else
            rbind (traverse (\<lambda>(i, item).
                if arguments \<noteq> [] then coerce k (arguments ! 0) item (element_path path i) else Inr item)
              (enumerate 0 (sequence_items v))) (\<lambda>xs. Inr
                (case origin of O_set \<Rightarrow> PSet (from_keys xs) | O_frozenset \<Rightarrow> PFrozen (from_keys xs)
                 | _ \<Rightarrow> PList xs)))"
| "build k n data pre =
     (let fields = fields_of k n; items = mapping_items data in
      case find (\<lambda>key. key \<notin> set (map fd_name fields)) (map fst items) of
        Some key \<Rightarrow> Inl (pre @ key @ '': '' @ n @ '' declares no such field'')
      | None \<Rightarrow>
          (case find (\<lambda>f. fd_required f \<and> map_of items (fd_name f) = None) fields of
             Some f \<Rightarrow> Inl (pre @ fd_name f @ '': required, and nothing supplies it'')
           | None \<Rightarrow>
               rbind (traverse (\<lambda>f. case map_of items (fd_name f) of
                   Some item \<Rightarrow>
                     rbind (coerce k (fd_annotation f) item (pre @ fd_name f)) (\<lambda>r. Inr (fd_name f, r))
                 | None \<Rightarrow> Inr (fd_name f, PNone))
                 (filter (\<lambda>f. map_of items (fd_name f) \<noteq> None) fields)) (\<lambda>args. Inr (PInst n args))))"
  by pat_completeness auto

termination
proof (relation "inv_image (less_than <*lex*> less_than) (\<lambda>x. case x of
      Inl (Inl (_, _, v, _)) \<Rightarrow> (size v, 2::nat) | Inl (Inr (_, _, v, _)) \<Rightarrow> (size v, 1)
    | Inr (Inl (_, _, _, v, _)) \<Rightarrow> (size v, 0) | Inr (Inr (_, _, v, _)) \<Rightarrow> (size v, 0))", goal_cases)
  case 1
  show ?case by (intro wf_inv_image wf_lex_prod wf_less_than)
qed (auto simp: size_mapping_items dest: enumerate_sequence_size enumerate_zip_size map_of_items_size)

declare coerce.simps [simp del] container.simps [simp del] build.simps [simp del]


subsection \<open>What a value of a declared type is\<close>

fun class_result :: "classes \<Rightarrow> cls \<Rightarrow> pyval \<Rightarrow> bool" where
  "class_result k (C_enum n) v = (\<exists>name. v = PEnum n name)"
| "class_result k C_int v = (\<exists>n. v = PInt n)"
| "class_result k (C_secret n) v = (\<exists>x. v = PObj n x)"
| "class_result k (C_iso n) v =
     (cl_isinstance k n v \<or> (\<exists>s. cl_iso k n s = Some v) \<or> (\<exists>x. cl_construct k n x = Some v))"
| "class_result k (C_foreign n) v = (cl_isinstance k n v \<or> (\<exists>x. cl_construct k n x = Some v))"
| "class_result k c v = isinstance k c v"

fun checked :: "annot \<Rightarrow> bool" where
  "checked (A_class _) = True"
| "checked (A_generic _ _) = True"
| "checked (A_literal _) = True"
| "checked _ = False"

inductive fits :: "classes \<Rightarrow> annot \<Rightarrow> pyval \<Rightarrow> bool" and fits_one :: "classes \<Rightarrow> annot \<Rightarrow> pyval \<Rightarrow> bool"
  for k where
  fits_none: "A_none \<in> set (members a) \<Longrightarrow> fits k a PNone"
| fits_any: "A_any \<in> set (members a) \<or> set (members a) \<subseteq> {A_none} \<Longrightarrow> fits k a v"
| fits_member: "c \<in> set (members a) \<Longrightarrow> fits_one k c v \<Longrightarrow> fits k a v"
| fits_class: "\<nexists>n. c = C_dataclass n \<Longrightarrow> class_result k c v \<Longrightarrow> fits_one k (A_class c) v"
| fits_dataclass: "(\<And>f. f \<in> set (fields_of k n) \<Longrightarrow> fd_required f \<Longrightarrow> fd_name f \<in> fst ` set args) \<Longrightarrow>
     (\<And>name x. (name, x) \<in> set args \<Longrightarrow> \<exists>f \<in> set (fields_of k n). fd_name f = name \<and> fits k (fd_annotation f) x) \<Longrightarrow>
     fits_one k (A_class (C_dataclass n)) (PInst n args)"
| fits_literal: "item \<in> set allowed \<Longrightarrow> py_eq k item v \<Longrightarrow> type_name item = type_name v \<Longrightarrow>
     fits_one k (A_literal allowed) v"
| fits_list: "(\<And>x. x \<in> set xs \<Longrightarrow> args \<noteq> [] \<Longrightarrow> fits k (args ! 0) x) \<Longrightarrow>
     fits_one k (A_generic O_list args) (PList xs)"
| fits_set: "(\<And>x. x \<in> set xs \<Longrightarrow> args \<noteq> [] \<Longrightarrow> fits k (args ! 0) x) \<Longrightarrow>
     fits_one k (A_generic O_set args) (PSet xs)"
| fits_frozenset: "(\<And>x. x \<in> set xs \<Longrightarrow> args \<noteq> [] \<Longrightarrow> fits k (args ! 0) x) \<Longrightarrow>
     fits_one k (A_generic O_frozenset args) (PFrozen xs)"
| fits_tuple_of: "args ! 1 = A_ellipsis \<Longrightarrow> length args = 2 \<Longrightarrow>
     (\<And>x. x \<in> set xs \<Longrightarrow> fits k (args ! 0) x) \<Longrightarrow> fits_one k (A_generic O_tuple args) (PTuple xs)"
| fits_tuple: "length args = length xs \<Longrightarrow> (\<And>i. i < length xs \<Longrightarrow> fits k (args ! i) (xs ! i)) \<Longrightarrow>
     fits_one k (A_generic O_tuple args) (PTuple xs)"
| fits_dict: "(\<And>key x. (key, x) \<in> set d \<Longrightarrow> length args = 2 \<Longrightarrow> fits k (args ! 1) x) \<Longrightarrow>
     fits_one k (A_generic O_dict args) (PDict d)"
| fits_other: "fits_one k (A_generic (O_other n) args) v"
| fits_unchecked: "\<not> checked c \<Longrightarrow> fits_one k c v"

lemma one_class_result:
  "one_class k c v path = Inr r \<Longrightarrow> \<nexists>n. c = C_dataclass n \<Longrightarrow> class_result k c r"
proof (cases c)
  case (C_enum n)
  then show "one_class k c v path = Inr r \<Longrightarrow> class_result k c r"
    by (auto simp: one_class_def enum_member_def split: option.splits if_splits pyval.splits prod.splits)
qed (auto simp: one_class_def parsed_or_constructed_def constructed_def
    split: option.splits if_splits pyval.splits)

text \<open>By induction on the value: what holds of the values inside it gives the containers and the
  dataclasses, then the members, then the annotation.\<close>

definition inner_fits :: "classes \<Rightarrow> pyval \<Rightarrow> bool" where
  "inner_fits k v \<longleftrightarrow>
     (\<forall>x a path r. size x < size v \<longrightarrow> coerce k a x path = Inr r \<longrightarrow> fits k a r)"

lemma inner_fitsD: "inner_fits k v \<Longrightarrow> size x < size v \<Longrightarrow> coerce k a x path = Inr r \<Longrightarrow> fits k a r"
  by (auto simp: inner_fits_def)

lemma elements_fit:
  assumes "inner_fits k v"
    "traverse (\<lambda>(i, item). if args \<noteq> [] then coerce k (args ! 0) item (element_path path i) else Inr item)
      (enumerate 0 (sequence_items v)) = Inr xs" "x \<in> set xs" "args \<noteq> []"
  shows "fits k (args ! 0) x"
proof -
  obtain i item where "(i, item) \<in> set (enumerate 0 (sequence_items v))"
    "coerce k (args ! 0) item (element_path path i) = Inr x"
    using traverse_memberD [OF assms(2,3)] assms(4) by auto
  then show ?thesis using inner_fitsD [OF assms(1)] enumerate_sequence_size by blast
qed

lemma tuple_elements_fit:
  assumes "inner_fits k v" "length args = length (sequence_items v)"
    "traverse (\<lambda>(i, a, item). coerce k a item (element_path path i))
      (enumerate 0 (zip args (sequence_items v))) = Inr xs"
  shows "length args = length xs \<and> (\<forall>i < length xs. fits k (args ! i) (xs ! i))"
proof -
  let ?es = "enumerate 0 (zip args (sequence_items v))"
  have l: "list_all2 (\<lambda>e y. (case e of (i, a, item) \<Rightarrow> coerce k a item (element_path path i)) = Inr y) ?es xs"
    using assms(3) by (simp add: traverse_Inr_iff)
  then have len: "length xs = length args" using assms(2) by (auto dest: list_all2_lengthD)
  have "fits k (args ! i) (xs ! i)" if "i < length xs" for i
  proof -
    have e: "?es ! i = (i, args ! i, sequence_items v ! i)"
      using that len assms(2) by (simp add: nth_enumerate_eq)
    then have "(i, args ! i, sequence_items v ! i) \<in> set ?es"
      using that len assms(2) by (metis length_enumerate length_zip min.idem nth_mem)
    moreover have "coerce k (args ! i) (sequence_items v ! i) (element_path path i) = Inr (xs ! i)"
      using list_all2_nthD2 [OF l that] e by simp
    ultimately show ?thesis by (intro inner_fitsD [OF assms(1)] enumerate_zip_size)
  qed
  with len show ?thesis by simp
qed

lemma container_fits:
  assumes "inner_fits k v" "container k origin args v path = Inr r"
  shows "fits_one k (A_generic origin args) r"
proof (cases origin)
  case O_list
  then show ?thesis
    using assms(2) elements_fit [OF assms(1), of args path]
    by (auto simp: container.simps rbind_Inr_iff split: if_splits intro!: fits_list)
next
  case O_set
  then show ?thesis
    using assms(2) elements_fit [OF assms(1), of args path]
    by (auto simp: container.simps rbind_Inr_iff split: if_splits intro!: fits_set)
next
  case O_frozenset
  then show ?thesis
    using assms(2) elements_fit [OF assms(1), of args path]
    by (auto simp: container.simps rbind_Inr_iff split: if_splits intro!: fits_frozenset)
next
  case O_tuple
  show ?thesis
  proof (cases "length args = 2 \<and> args ! 1 = A_ellipsis")
    case True
    then obtain xs where xs: "r = PTuple xs"
      "traverse (\<lambda>(i, item). coerce k (args ! 0) item (element_path path i))
        (enumerate 0 (sequence_items v)) = Inr xs"
      using assms(2) O_tuple by (auto simp: container.simps rbind_Inr_iff split: if_splits)
    moreover have ne: "args \<noteq> []" using True by auto
    ultimately show ?thesis
      using True elements_fit [OF assms(1), of args path xs] O_tuple by (auto intro!: fits_tuple_of)
  next
    case False
    then obtain xs where xs: "r = PTuple xs" "args = [] \<or> length args = length (sequence_items v)"
      "traverse (\<lambda>(i, a, item). coerce k a item (element_path path i))
        (enumerate 0 (zip args (sequence_items v))) = Inr xs"
      using assms(2) O_tuple by (auto simp: container.simps rbind_Inr_iff split: if_splits)
    show ?thesis
    proof (cases "args = []")
      case True
      with xs O_tuple show ?thesis by (auto intro: fits_tuple)
    next
      case False
      with xs tuple_elements_fit [OF assms(1) _ xs(3)] O_tuple show ?thesis
        by (auto intro: fits_tuple)
    qed
  qed
next
  case O_dict
  show ?thesis
  proof (cases "length args = 2")
    case True
    then obtain d where d: "r = PDict d" "traverse (\<lambda>(key, item).
          rbind (coerce k (args ! 1) item (path @ ''.'' @ key)) (\<lambda>r. Inr (key, r))) (mapping_items v) = Inr d"
      using assms(2) O_dict by (auto simp: container.simps rbind_Inr_iff split: if_splits)
    have "fits k (args ! 1) x" if "(key, x) \<in> set d" for key x
      using traverse_memberD [OF d(2) that] inner_fitsD [OF assms(1)] size_mapping_items
      by (fastforce simp: rbind_Inr_iff)
    with d(1) O_dict show ?thesis by (auto intro: fits_dict)
  next
    case False
    then obtain d where "r = PDict d"
      using assms(2) O_dict by (auto simp: container.simps is_mapping_iff split: if_splits)
    with False O_dict show ?thesis by (auto intro: fits_dict)
  qed
next
  case (O_other n)
  then show ?thesis by (simp add: fits_other)
qed

lemma build_fits:
  assumes "inner_fits k v" "build k n v pre = Inr r"
  shows "fits_one k (A_class (C_dataclass n)) r"
proof -
  let ?items = "mapping_items v" and ?fields = "fields_of k n"
  let ?arg = "\<lambda>f. case map_of ?items (fd_name f) of
      Some item \<Rightarrow> rbind (coerce k (fd_annotation f) item (pre @ fd_name f)) (\<lambda>r. Inr (fd_name f, r))
    | None \<Rightarrow> Inr (fd_name f, PNone)"
  let ?given = "filter (\<lambda>f. map_of ?items (fd_name f) \<noteq> None) ?fields"
  obtain args where r: "r = PInst n args" and args: "traverse ?arg ?given = Inr args"
    and req: "find (\<lambda>f. fd_required f \<and> map_of ?items (fd_name f) = None) ?fields = None"
    using assms(2) by (auto simp: build.simps Let_def rbind_Inr_iff split: option.splits)
  have l: "list_all2 (\<lambda>f y. ?arg f = Inr y) ?given args" using args by (simp add: traverse_Inr_iff)
  have names: "map fst args = map fd_name ?given"
    using l by (induction rule: list_all2_induct) (auto simp: rbind_Inr_iff split: option.splits)
  have "fd_name f \<in> fst ` set args" if "f \<in> set ?fields" "fd_required f" for f
  proof -
    have "f \<in> set ?given" using that req by (auto simp: find_None_iff)
    then have "fd_name f \<in> set (map fst args)" by (simp add: names)
    then show ?thesis by simp
  qed
  moreover have "\<exists>f \<in> set ?fields. fd_name f = name \<and> fits k (fd_annotation f) x"
    if member: "(name, x) \<in> set args" for name x
  proof -
    obtain f where f: "f \<in> set ?given" "?arg f = Inr (name, x)"
      using traverse_memberD [OF args member] by blast
    then obtain item where "map_of ?items (fd_name f) = Some item"
      "coerce k (fd_annotation f) item (pre @ fd_name f) = Inr x" "fd_name f = name"
      by (auto simp: rbind_Inr_iff)
    with f(1) inner_fitsD [OF assms(1) map_of_items_size] show ?thesis by auto
  qed
  ultimately show ?thesis unfolding r by (rule fits_dataclass)
qed

lemma one_fits:
  assumes "inner_fits k v" "one k c v path = Inr r"
  shows "fits_one k c r"
proof (cases c)
  case (A_class cl)
  show ?thesis
  proof (cases "\<exists>n. cl = C_dataclass n")
    case True
    then show ?thesis using assms A_class by (auto intro: build_fits split: if_splits)
  next
    case False
    then have "one k c v path = one_class k cl v path" by (cases cl) (simp_all add: A_class)
    with assms(2) have "one_class k cl v path = Inr r" using A_class by simp
    then have "class_result k cl r" using False by (rule one_class_result)
    with False A_class show ?thesis by (auto intro: fits_class)
  qed
next
  case (A_generic origin args)
  then show ?thesis using assms by (auto intro: container_fits)
next
  case (A_literal allowed)
  then show ?thesis using assms by (auto simp: list_ex_iff intro: fits_literal split: if_splits)
qed (use fits_unchecked [of c k r] in simp_all)

lemma coerce_fits: "coerce k a v path = Inr r \<Longrightarrow> fits k a r"
proof (induction v arbitrary: a path r rule: measure_induct_rule [of size])
  case (less v)
  then have inner: "inner_fits k v" by (auto simp: inner_fits_def)
  let ?concrete = "filter (\<lambda>c. c \<noteq> A_none) (members a)"
  show ?case
  proof (cases "v = PNone")
    case True
    with less.prems show ?thesis by (simp add: coerce.simps fits_none split: if_splits)
  next
    case some: False
    show ?thesis
    proof (cases "?concrete = [] \<or> A_any \<in> set ?concrete")
      case True
      then show ?thesis by (auto simp: filter_empty_conv intro!: fits_any)
    next
      case False
      then obtain c where "c \<in> set (members a)" "one k c v path = Inr r"
        using less.prems some
        by (auto simp: coerce.simps Let_def split: if_splits sum.splits dest!: first_ok_Inr)
      then show ?thesis by (auto intro: fits_member one_fits [OF inner])
    qed
  qed
qed


subsection \<open>Secret paths\<close>

lemma map_of_fst: "Some y = map_of xs n \<Longrightarrow> n \<in> fst ` set xs"
  by (metis domI dom_map_of_conv_image_fst)

text \<open>The loop over a field's candidates: it breaks at the first secret one.\<close>

fun scan :: "(string \<Rightarrow> string list) \<Rightarrow> string \<Rightarrow> annot list \<Rightarrow> string list" where
  "scan nested path [] = []"
| "scan nested path (A_class (C_secret n) # cs) = [path]"
| "scan nested path (A_class (C_dataclass m) # cs) = nested m @ scan nested path cs"
| "scan nested path (c # cs) = scan nested path cs"

lemma scan_cong [fundef_cong]:
  "path = path' \<Longrightarrow> cs = cs' \<Longrightarrow> (\<And>m. A_class (C_dataclass m) \<in> set cs' \<Longrightarrow> f m = g m) \<Longrightarrow>
   scan f path cs = scan g path' cs'"
proof (induction g path' cs' arbitrary: path cs rule: scan.induct)
qed auto

function class_secret_paths :: "classes \<Rightarrow> string \<Rightarrow> string \<Rightarrow> string list \<Rightarrow> string list" where
  "class_secret_paths k n pre seen =
     (if n \<in> set seen then []
      else from_keys (concat (map (\<lambda>f.
        let path = pre @ fd_name f in
        if fd_secret f then [path]
        else scan (\<lambda>m. class_secret_paths k m (path @ ''.'') (n # seen)) path (unwrap (fd_annotation f)))
        (fields_of k n))))"
  by pat_completeness auto

termination
proof (relation "measure (\<lambda>(k, n, pre, seen). card (fst ` set (cl_dataclasses k) - set seen))", goal_cases)
  case (2 k n pre seen f path m)
  have "n \<in> fst ` set (cl_dataclasses k)"
    using 2(2) by (auto simp: fields_of_def split: option.splits dest: map_of_fst)
  with 2(1) have "fst ` set (cl_dataclasses k) - set (n # seen) \<subset> fst ` set (cl_dataclasses k) - set seen"
    by auto
  then show ?case by (simp add: psubset_card_mono)
qed simp

declare class_secret_paths.simps [simp del]

subsection \<open>The adapter\<close>

definition dataclass_validate :: "classes \<Rightarrow> string \<Rightarrow> pyval \<Rightarrow> (string, pyval) result" where
  "dataclass_validate k model data =
     (if \<not> is_mapping data then Inl (''expected a table for '' @ model @ '', got '' @ type_name data)
      else build k model data [])"

definition dataclass_field_names :: "classes \<Rightarrow> string \<Rightarrow> string list" where
  "dataclass_field_names k model = map fd_name (fields_of k model)"

definition dataclass_secret_paths :: "classes \<Rightarrow> string \<Rightarrow> string list" where
  "dataclass_secret_paths k model = class_secret_paths k model [] []"

text \<open>Where a declaration says secret, on a chain of nested dataclasses that repeats none.\<close>

inductive secret_at :: "classes \<Rightarrow> string list \<Rightarrow> string \<Rightarrow> string list \<Rightarrow> bool" for k where
  secret_field: "n \<notin> set seen \<Longrightarrow> f \<in> set (fields_of k n) \<Longrightarrow>
     fd_secret f \<or> A_class (C_secret s) \<in> set (unwrap (fd_annotation f)) \<Longrightarrow>
     secret_at k seen n [fd_name f]"
| secret_nested: "n \<notin> set seen \<Longrightarrow> f \<in> set (fields_of k n) \<Longrightarrow>
     A_class (C_dataclass m) \<in> set (unwrap (fd_annotation f)) \<Longrightarrow> secret_at k (n # seen) m segs \<Longrightarrow>
     secret_at k seen n (fd_name f # segs)"

lemma scan_secret: "A_class (C_secret s) \<in> set cs \<Longrightarrow> path \<in> set (scan f path cs)"
  by (induction f path cs rule: scan.induct) auto

lemma scan_nested:
  "A_class (C_dataclass m) \<in> set cs \<Longrightarrow> set (f m) \<subseteq> set (scan f path cs) \<or> path \<in> set (scan f path cs)"
  by (induction f path cs rule: scan.induct) auto

lemma secret_at_nonempty: "secret_at k seen n segs \<Longrightarrow> segs \<noteq> []"
  by (induction rule: secret_at.induct) auto

lemma secret_paths_cover:
  "secret_at k seen n segs \<Longrightarrow>
   \<exists>i. 0 < i \<and> i \<le> length segs \<and> pre @ py_join ''.'' (take i segs) \<in> set (class_secret_paths k n pre seen)"
proof (induction arbitrary: pre rule: secret_at.induct)
  case (secret_field n seen f s)
  let ?path = "pre @ fd_name f"
  have "?path \<in> set (class_secret_paths k n pre seen)"
    using secret_field scan_secret
    by (subst class_secret_paths.simps) (auto simp: Let_def intro!: bexI [of _ f])
  then show ?case by (intro exI [of _ 1]) simp
next
  case (secret_nested n seen f m segs)
  let ?path = "pre @ fd_name f"
  let ?rec = "\<lambda>m. class_secret_paths k m (?path @ ''.'') (n # seen)"
  have listed: "p \<in> set (class_secret_paths k n pre seen)"
    if "p \<in> set (if fd_secret f then [?path] else scan ?rec ?path (unwrap (fd_annotation f)))" for p
    using secret_nested.hyps(1,2) that
    by (subst class_secret_paths.simps) (auto simp: Let_def split: if_splits intro!: bexI [of _ f])
  show ?case
  proof (cases "?path \<in> set (class_secret_paths k n pre seen)")
    case True
    then show ?thesis by (intro exI [of _ 1]) simp
  next
    case False
    obtain i where i: "0 < i" "i \<le> length segs" "(?path @ ''.'') @ py_join ''.'' (take i segs) \<in> set (?rec m)"
      using secret_nested.IH [of "?path @ ''.''"] by blast
    have "\<not> fd_secret f" using False listed by auto
    then have "(?path @ ''.'') @ py_join ''.'' (take i segs) \<in> set (class_secret_paths k n pre seen)"
      using listed False i(3) scan_nested [OF secret_nested.hyps(3), of ?rec ?path] by auto
    moreover have "take i segs \<noteq> []" using i by auto
    ultimately show ?thesis
      using i by (intro exI [of _ "Suc i"]) (simp add: py_join_Cons)
  qed
qed

subsection \<open>Values that are already right\<close>

fun plain :: "annot \<Rightarrow> bool" where
  "plain (A_class _) = True"
| "plain (A_generic _ _) = True"
| "plain _ = False"

fun verbatim :: "annot \<Rightarrow> pyval \<Rightarrow> bool" where
  "verbatim (A_class C_bool) v = (\<exists>t. v = PBool t)"
| "verbatim (A_class C_int) v = (\<exists>n. v = PInt n)"
| "verbatim (A_class C_float) v = (\<exists>s. v = PFloat s)"
| "verbatim (A_class C_str) v = (\<exists>s. v = PStr s)"
| "verbatim (A_class C_list) v = (\<exists>xs. v = PList xs)"
| "verbatim (A_class C_dict) v = (\<exists>d. v = PDict d)"
| "verbatim (A_generic O_list [a]) v = (\<exists>xs. v = PList xs \<and> (\<forall>x \<in> set xs. verbatim a x))"
| "verbatim (A_generic O_dict [b, a]) v = (\<exists>d. v = PDict d \<and> (\<forall>x \<in> snd ` set d. verbatim a x))"
| "verbatim (A_union [a, A_none]) v = (v = PNone \<or> (plain a \<and> verbatim a v))"
| "verbatim A_any v = (v \<noteq> PNone)"
| "verbatim _ v = False"

lemma coerce_single:
  "members a = [a] \<Longrightarrow> a \<noteq> A_none \<Longrightarrow> a \<noteq> A_any \<Longrightarrow> v \<noteq> PNone \<Longrightarrow> one k a v path = Inr r \<Longrightarrow>
   coerce k a v path = Inr r"
  by (simp add: coerce.simps)

lemma coerce_optional:
  "plain a \<Longrightarrow> v \<noteq> PNone \<Longrightarrow> coerce k a v path = Inr r \<Longrightarrow> coerce k (A_union [a, A_none]) v path = Inr r"
  by (cases a) (auto simp: coerce.simps split: sum.splits)

lemma traverse_snd_id:
  "(\<And>i x. (i, x) \<in> set es \<Longrightarrow> f (i, x) = Inr x) \<Longrightarrow> traverse f es = Inr (map snd es)"
  by (induction es) auto

lemma verbatim_passes: "verbatim a v \<Longrightarrow> coerce k a v path = Inr v"
proof (induction a v arbitrary: path rule: verbatim.induct)
  case (7 a v)
  then obtain xs where v: "v = PList xs" "\<forall>x \<in> set xs. verbatim a x" by auto
  have "traverse (\<lambda>(i, item). coerce k a item (element_path path i)) (enumerate 0 xs) = Inr (map snd (enumerate 0 xs))"
    using v 7 by (intro traverse_snd_id) (auto dest: enumerate_member)
  then have "container k O_list [a] v path = Inr v" by (simp add: container.simps v)
  then show ?case by (intro coerce_single) (simp_all add: v)
next
  case (8 b a v)
  then obtain d where v: "v = PDict d" "\<forall>x \<in> snd ` set d. verbatim a x" by auto
  have "traverse (\<lambda>(key, item). rbind (coerce k a item (path @ ''.'' @ key)) (\<lambda>r. Inr (key, r))) d = Inr d"
    using v 8 by (intro traverse_id) (force split: prod.splits)
  then have "container k O_dict [b, a] v path = Inr v" by (simp add: container.simps v)
  then show ?case by (intro coerce_single) (simp_all add: v)
next
  case (9 a v)
  show ?case
  proof (cases "v = PNone")
    case True
    then show ?thesis by (simp add: coerce.simps)
  next
    case False
    with 9 show ?thesis by (intro coerce_optional) auto
  qed
qed (auto simp: coerce.simps one_class_def)


lemma dataclass_validate_fits:
  assumes "dataclass_validate k model data = Inr r"
  shows "fits_one k (A_class (C_dataclass model)) r"
proof -
  have "inner_fits k data" by (auto simp: inner_fits_def intro: coerce_fits)
  with assms show ?thesis by (auto simp: dataclass_validate_def split: if_splits intro: build_fits)
qed

text \<open>Whatever is built is an instance of the declared class itself.\<close>

lemma dataclass_validate_instance:
  "dataclass_validate k model data = Inr r \<Longrightarrow> \<exists>args. r = PInst model args"
  by (auto simp: dataclass_validate_def build.simps Let_def rbind_def split: if_splits sum.splits option.splits)

subsection \<open>Properties\<close>

text \<open>A small world of classes for the concrete runs: a database with a nested login.\<close>

definition login_fields :: "field list" where
  "login_fields =
     [\<lparr>fd_name = ''user'', fd_required = True, fd_annotation = A_class C_str, fd_secret = False\<rparr>,
      \<lparr>fd_name = ''password'', fd_required = False,
        fd_annotation = A_union [A_class (C_secret ''SecretStr''), A_none], fd_secret = False\<rparr>]"

definition database_fields :: "field list" where
  "database_fields =
     [\<lparr>fd_name = ''port'', fd_required = True, fd_annotation = A_class C_int, fd_secret = False\<rparr>,
      \<lparr>fd_name = ''login'', fd_required = False, fd_annotation = A_class (C_dataclass ''Login''),
        fd_secret = False\<rparr>,
      \<lparr>fd_name = ''replicas'', fd_required = False,
        fd_annotation = A_generic O_list [A_class (C_dataclass ''Login'')], fd_secret = False\<rparr>]"

definition small_world :: classes where
  "small_world = \<lparr>cl_dataclasses = [(''Login'', login_fields), (''Database'', database_fields)],
     cl_enums = [], cl_isinstance = (\<lambda>_ _. False), cl_iso = (\<lambda>_ _. None), cl_construct = (\<lambda>_ _. None),
     cl_float = (\<lambda>n. if n = 1 then ''1.0'' else ''2.0''), cl_name = (\<lambda>_. ''annotation'')\<rparr>"

lemmas small_world_simps =
  small_world_def fields_of_def database_fields_def login_fields_def coerce.simps build.simps
  container.simps Let_def element_path_def one_class_def expected_def

lemma fields_small_world [simp]:
  "fields_of small_world ''Database'' = database_fields"
  "fields_of small_world ''Login'' = login_fields"
  by (simp_all add: fields_of_def small_world_def)

text \<open>Validation is sound: what the checker returns is an instance of the declared dataclass
  whose required fields are all present and whose fields, recursively through unions, containers
  and nested dataclasses, hold values of their annotated types.\<close>

theorem validated_instance_fits_its_declaration:
  "dataclass_validate k model data = Inr r \<Longrightarrow> fits_one k (A_class (C_dataclass model)) r"
  by (rule dataclass_validate_fits)

theorem validated_instance_fits_its_declaration_witness:
  "fits_one small_world (A_class (C_dataclass ''Database''))
     (PInst ''Database'' [(''port'', PInt 1), (''login'', PInst ''Login'' [(''user'', PStr ''a'')])])"
  by (rule validated_instance_fits_its_declaration
      [of _ _ "PDict [(''login'', PDict [(''user'', PStr ''a'')]), (''port'', PInt 1)]"])
    (simp add: dataclass_validate_def build.simps coerce.simps Let_def one_class_def
      database_fields_def login_fields_def)

text \<open>A value that is already of its annotated type, through lists, tables with typed values
  and optional annotations, passes the checker unchanged and is never refused.\<close>

theorem right_value_passes_unchanged:
  "verbatim a v \<Longrightarrow> coerce k a v path = Inr v"
  by (rule verbatim_passes)

theorem right_value_passes_unchanged_witness:
  "coerce small_world (A_generic O_dict [A_class C_str, A_generic O_list [A_class C_int]])
     (PDict [(''a'', PList [PInt 1, PInt 2]), (''b'', PList [])]) ''ports'' =
   Inr (PDict [(''a'', PList [PInt 1, PInt 2]), (''b'', PList [])])"
  by (rule right_value_passes_unchanged) simp

text \<open>Every field declared secret, by its metadata or by its type, on any chain of nested
  dataclasses, is covered: the redaction list holds its path or a path above it.\<close>

theorem declared_secret_is_masked:
  "secret_at k [] model segs \<Longrightarrow>
   \<exists>i. 0 < i \<and> i \<le> length segs \<and> py_join ''.'' (take i segs) \<in> set (dataclass_secret_paths k model)"
  using secret_paths_cover [of k "[]" model segs "[]"] by (simp add: dataclass_secret_paths_def)

theorem declared_secret_is_masked_witness:
  "\<exists>i. 0 < i \<and> i \<le> length [''login'', ''password''] \<and>
     py_join ''.'' (take i [''login'', ''password'']) \<in> set (dataclass_secret_paths small_world ''Database'')"
proof -
  have "secret_at small_world [''Database''] ''Login'' [fd_name (login_fields ! 1)]"
    by (rule secret_field [where s = "''SecretStr''"]) (simp_all add: login_fields_def)
  then have "secret_at small_world [] ''Database'' [fd_name (database_fields ! 1), fd_name (login_fields ! 1)]"
    by - (rule secret_nested [where m = "''Login''"], simp_all add: database_fields_def)
  then have "secret_at small_world [] ''Database'' [''login'', ''password'']"
    by (simp add: database_fields_def login_fields_def)
  then show ?thesis by (rule declared_secret_is_masked)
qed

text \<open>A key the class has not declared is refused, the first one in the order of the table.\<close>

lemma unknown_key_is_refused:
  "key \<in> fst ` set d \<Longrightarrow> key \<notin> set (dataclass_field_names k model) \<Longrightarrow>
   \<exists>e. dataclass_validate k model (PDict d) = Inl e"
  by (auto simp: dataclass_validate_def build.simps dataclass_field_names_def Let_def find_None_iff
      split: option.splits)

text \<open>A required field that nothing supplies is refused.\<close>

lemma missing_field_is_refused:
  "f \<in> set (fields_of k model) \<Longrightarrow> fd_required f \<Longrightarrow> fd_name f \<notin> fst ` set d \<Longrightarrow>
   \<exists>e. dataclass_validate k model (PDict d) = Inl e"
  by (auto simp: dataclass_validate_def build.simps Let_def find_None_iff map_of_eq_None_iff
      split: option.splits)

text \<open>The secret of a dataclass inside a list is listed under the list's own path, where no
  value is, and the path of the list itself is not on the redaction list.\<close>

theorem secret_inside_a_list_has_no_path:
  "set (dataclass_secret_paths small_world ''Database'') = {''login.password'', ''replicas.password''}"
  by (simp add: dataclass_secret_paths_def class_secret_paths.simps database_fields_def login_fields_def
      Let_def)

text \<open>A union takes its first member that builds, so a value that is already right for a later
  member is altered: under \<open>Union[float, int]\<close> every integer becomes a float.\<close>

theorem union_alters_a_right_value:
  "coerce k (A_union [A_class C_float, A_class C_int]) (PInt n) path = Inr (PFloat (cl_float k n))"
  by (simp add: coerce.simps one_class_def)

text \<open>The bare annotation \<open>Tuple\<close> accepts every sequence and drops all its elements, while
  the bare annotation \<open>list\<close> splits a string into its characters.\<close>

theorem bare_containers_alter_their_value:
  "coerce k (A_generic O_tuple []) (PList xs) path = Inr (PTuple []) \<and>
   coerce k (A_class C_list) (PStr s) path = Inr (PList (map (\<lambda>c. PStr [c]) s))"
  by (simp add: coerce.simps container.simps one_class_def parsed_or_constructed_def constructed_def)

end
