(* ===== verification/Msgspec.thy ===== *)
theory Msgspec
  imports PyValue
begin

section \<open>A msgspec Struct as a schema: \<open>_msgspec.py\<close>\<close>

text \<open>
  \<open>scrub\<close> takes the refused value back out of a message of msgspec, and \<open>secret_paths\<close> reads the
  redaction list off the declaration. \<open>repr\<close> and \<open>str\<close> of a value are arguments; strings are
  UTF-8, and \<open>py_len\<close> counts code points. \<open>int(segment)\<close> is over the ASCII digits. What
  \<open>msgspec.convert\<close> answers is an argument of \<open>struct_validate\<close>; an annotation is what the reader
  of types sees of it: the struct classes, the \<open>Meta\<close>s and the containers.
\<close>

subsection \<open>Text\<close>

definition ellipsis :: string where
  "ellipsis = [CHR 0xE2, CHR 0x80, CHR 0xA6]"

definition py_len :: "string \<Rightarrow> nat" where
  "py_len s = length (filter (\<lambda>c. \<not> (128 \<le> (of_char c :: nat) \<and> (of_char c :: nat) < 192)) s)"

text \<open>\<open>s.strip(c)\<close> for one character, and \<open>s.rpartition(sep)\<close> where \<open>sep\<close> occurs.\<close>

definition py_strip :: "char \<Rightarrow> string \<Rightarrow> string" where
  "py_strip c s = rev (dropWhile (\<lambda>x. x = c) (rev (dropWhile (\<lambda>x. x = c) s)))"

fun py_rpartition :: "string \<Rightarrow> string \<Rightarrow> (string \<times> string) option" where
  "py_rpartition sep [] = None"
| "py_rpartition sep (c # s) =
     (case py_rpartition sep s of
        Some (h, t) \<Rightarrow> Some (c # h, t)
      | None \<Rightarrow> if prefix sep (c # s) then Some ([], drop (length sep) (c # s)) else None)"

text \<open>\<open>int(text)\<close>: blanks around, a sign, digits with single underscores between them.\<close>

definition is_digit :: "char \<Rightarrow> bool" where
  "is_digit c \<longleftrightarrow> 48 \<le> (of_char c :: nat) \<and> (of_char c :: nat) \<le> 57"

fun digits_ok :: "bool \<Rightarrow> string \<Rightarrow> bool" where
  "digits_ok after_digit [] = after_digit"
| "digits_ok after_digit (c # s) =
     (if is_digit c then digits_ok True s else c = CHR ''_'' \<and> after_digit \<and> digits_ok False s)"

definition digits_value :: "string \<Rightarrow> int" where
  "digits_value s = foldl (\<lambda>n c. 10 * n + (int (of_char c) - 48)) 0 (filter is_digit s)"

definition is_blank :: "char \<Rightarrow> bool" where
  "is_blank c \<longleftrightarrow> (of_char c :: nat) \<in> {9, 10, 11, 12, 13, 28, 29, 30, 31, 32}"

definition py_int :: "string \<Rightarrow> int option" where
  "py_int s =
     (let t = rev (dropWhile is_blank (rev (dropWhile is_blank s)));
          (sign, u) = (case t of
             c # r \<Rightarrow> if c = CHR ''-'' then (-1, r) else if c = CHR ''+'' then (1, r) else (1, t)
           | [] \<Rightarrow> (1, t))
      in if digits_ok False u then Some (sign * digits_value u) else None)"

text \<open>\<open>xs[i]\<close>, or \<open>None\<close> where it raises \<open>IndexError\<close>.\<close>

definition py_index :: "'a list \<Rightarrow> int \<Rightarrow> 'a option" where
  "py_index xs i =
     (let j = (if i < 0 then i + int (length xs) else i) in
      if 0 \<le> j \<and> j < int (length xs) then Some (xs ! nat j) else None)"

subsection \<open>The path of a message\<close>

text \<open>The loop of \<open>_segments\<close>, with its two variables.\<close>

fun segments_loop :: "string list \<Rightarrow> string \<Rightarrow> string \<Rightarrow> string list option" where
  "segments_loop segments current [] =
     Some (if current \<noteq> [] then segments @ [current] else segments)"
| "segments_loop segments current (character # rest) =
     (if character \<in> set ''.[]'' then
        if current = ''...'' then None
        else segments_loop (if current \<noteq> [] then segments @ [current] else segments) [] rest
      else segments_loop segments (current @ [character]) rest)"

definition segments :: "string \<Rightarrow> string list option" where
  "segments path = segments_loop [] [] path"

fun step_into :: "pyval \<Rightarrow> string \<Rightarrow> pyval option" where
  "step_into (PDict d) segment = map_of d segment"
| "step_into (PList xs) segment = (case py_int segment of None \<Rightarrow> None | Some i \<Rightarrow> py_index xs i)"
| "step_into (PTuple xs) segment = (case py_int segment of None \<Rightarrow> None | Some i \<Rightarrow> py_index xs i)"
| "step_into _ segment = None"

fun walk :: "pyval \<Rightarrow> string list \<Rightarrow> pyval" where
  "walk current [] = current"
| "walk current (segment # rest) =
     (case step_into current segment of None \<Rightarrow> PNone | Some next \<Rightarrow> walk next rest)"

definition value_at :: "pyval \<Rightarrow> string \<Rightarrow> pyval" where
  "value_at data path =
     (if \<not> py_startswith path ''$'' then PNone
      else (case segments (tl path) of None \<Rightarrow> PNone | Some ss \<Rightarrow> walk data ss))"

subsection \<open>Scrubbing\<close>

definition at_sep :: string where
  "at_sep = '' - at ''"

definition quoting_replacement :: "string \<Rightarrow> string option" where
  "quoting_replacement head =
     (if py_startswith head ''Invalid enum value'' then Some ''not one of the values this field allows''
      else if py_startswith head ''Invalid value'' then Some ''not one of the tags this union allows''
      else None)"

definition take_out :: "string \<Rightarrow> string \<Rightarrow> string" where
  "take_out rendering head =
     (if 1 < py_len rendering \<and> py_in rendering head then py_replace rendering ellipsis head else head)"

definition scrub_head :: "(pyval \<Rightarrow> string) \<Rightarrow> (pyval \<Rightarrow> string) \<Rightarrow> pyval \<Rightarrow> string \<Rightarrow> string \<Rightarrow> string" where
  "scrub_head repr str data head path =
     (case quoting_replacement head of
        Some replacement \<Rightarrow> replacement
      | None \<Rightarrow>
          (let v = value_at data (py_strip CHR 0x60 path) in
           if v \<noteq> PNone then take_out (str v) (take_out (repr v) head) else head))"

definition scrub :: "(pyval \<Rightarrow> string) \<Rightarrow> (pyval \<Rightarrow> string) \<Rightarrow> string \<Rightarrow> pyval \<Rightarrow> string" where
  "scrub repr str message data =
     (case py_rpartition at_sep message of
        Some (head, path) \<Rightarrow> scrub_head repr str data head path @ at_sep @ path
      | None \<Rightarrow> scrub_head repr str data message [])"

text \<open>\<open>validate\<close>: what \<open>msgspec.convert\<close> refuses is refused with a scrubbed message.\<close>

definition struct_validate ::
  "(pyval \<Rightarrow> string) \<Rightarrow> (pyval \<Rightarrow> string) \<Rightarrow> (pyval \<Rightarrow> (string, 'm) result) \<Rightarrow> pyval \<Rightarrow> (string, 'm) result" where
  "struct_validate repr str convert data =
     (case convert data of Inr m \<Rightarrow> Inr m | Inl failure \<Rightarrow> Inl (scrub repr str failure data))"


subsection \<open>Secret paths\<close>

text \<open>An annotation as the reader of types sees it. \<open>S_container\<close> is a parameterised \<open>list\<close>,
  \<open>set\<close>, \<open>frozenset\<close>, \<open>tuple\<close> or \<open>dict\<close>; \<open>S_meta\<close> is a \<open>Meta\<close> with the truth of its \<open>extra\<close> flag.\<close>

datatype sannot =
    S_class string
  | S_struct string
  | S_meta bool
  | S_union "sannot list"
  | S_annotated "sannot list"
  | S_container "sannot list"
  | S_generic "sannot list"

record sfield =
  sf_encode_name :: string
  sf_type :: sannot

type_synonym structs = "(string \<times> sfield list) list"

definition struct_fields :: "structs \<Rightarrow> string \<Rightarrow> sfield list" where
  "struct_fields k n = (case map_of k n of None \<Rightarrow> [] | Some fs \<Rightarrow> fs)"

fun type_leaves :: "sannot \<Rightarrow> sannot list" where
  "type_leaves (S_union as) = concat (map type_leaves as)"
| "type_leaves (S_annotated as) = concat (map type_leaves as)"
| "type_leaves (S_container as) = concat (map type_leaves as)"
| "type_leaves (S_generic as) = concat (map type_leaves as)"
| "type_leaves a = [a]"

definition metas :: "sannot \<Rightarrow> bool list" where
  "metas a = List.map_filter (\<lambda>c. case c of S_meta secret \<Rightarrow> Some secret | _ \<Rightarrow> None) (type_leaves a)"

definition is_secret :: "sannot \<Rightarrow> bool" where
  "is_secret a = list_ex (\<lambda>secret. secret) (metas a)"

definition nested_structs :: "sannot \<Rightarrow> string list" where
  "nested_structs a = List.map_filter (\<lambda>c. case c of S_struct n \<Rightarrow> Some n | _ \<Rightarrow> None) (type_leaves a)"

fun under_a_container :: "sannot \<Rightarrow> bool" where
  "under_a_container (S_container _) = True"
| "under_a_container (S_union as) = list_ex under_a_container as"
| "under_a_container (S_annotated as) = list_ex under_a_container as"
| "under_a_container (S_generic as) = list_ex under_a_container as"
| "under_a_container _ = False"

lemma struct_fields_known: "f \<in> set (struct_fields k n) \<Longrightarrow> n \<in> fst ` set k"
  by (auto simp: struct_fields_def split: option.splits) (metis domI dom_map_of_conv_image_fst)

lemma seen_decreases:
  "n \<notin> set seen \<Longrightarrow> n \<in> A \<Longrightarrow> finite A \<Longrightarrow> card (A - set (n # seen)) < card (A - set seen)"
  by (rule psubset_card_mono) auto

function struct_secret_paths :: "structs \<Rightarrow> string \<Rightarrow> string \<Rightarrow> string list \<Rightarrow> string list" where
  "struct_secret_paths k n pre seen =
     (if n \<in> set seen then []
      else from_keys (concat (map (\<lambda>f.
        let path = pre @ sf_encode_name f; nested = nested_structs (sf_type f) in
        if is_secret (sf_type f) then [path]
        else if nested = [] then []
        else if under_a_container (sf_type f) then
          (if list_ex (\<lambda>c. struct_secret_paths k c [] (n # seen) \<noteq> []) nested then [path] else [])
        else concat (map (\<lambda>c. struct_secret_paths k c (path @ ''.'') (n # seen)) nested))
        (struct_fields k n))))"
  by pat_completeness auto

termination
  by (relation "measure (\<lambda>(k, n, pre, seen). card (fst ` set k - set seen))")
    (auto intro!: seen_decreases [simplified] struct_fields_known)

declare struct_secret_paths.simps [simp del]

definition struct_field_names :: "structs \<Rightarrow> string \<Rightarrow> string list" where
  "struct_field_names k model = map sf_encode_name (struct_fields k model)"

definition msgspec_secret_paths :: "structs \<Rightarrow> string \<Rightarrow> string list" where
  "msgspec_secret_paths k model = struct_secret_paths k model [] []"

subsection \<open>Taking a rendering out\<close>

lemma py_len_nonempty: "1 < py_len r \<Longrightarrow> r \<noteq> []"
  by (auto simp: py_len_def)

lemma ellipsis_nonempty [simp]: "ellipsis \<noteq> []"
  by (simp add: ellipsis_def)

lemma take_out_gone:
  "1 < py_len r \<Longrightarrow> set r \<inter> set ellipsis = {} \<Longrightarrow> \<not> py_in r (take_out r head)"
  using not_sublist_py_replace [OF py_len_nonempty ellipsis_nonempty] by (auto simp: take_out_def py_in_def)

lemma take_out_stays_gone:
  "1 < py_len r \<Longrightarrow> set r \<inter> set ellipsis = {} \<Longrightarrow> \<not> py_in r head \<Longrightarrow> \<not> py_in r (take_out q head)"
  using sublist_py_replace [OF py_len_nonempty ellipsis_nonempty py_len_nonempty]
  by (auto simp: take_out_def py_in_def)

subsection \<open>Paths\<close>

lemma py_rpartition_Some: "py_rpartition sep s = Some (h, t) \<Longrightarrow> s = h @ sep @ t"
  by (induction s arbitrary: h) (auto split: option.splits if_splits prod.splits simp: prefix_def)

lemma segments_loop_total: "set current \<inter> set ''.[]'' = {} \<Longrightarrow> \<exists>ss. segments_loop acc current path = Some ss"
  by (induction acc current path rule: segments_loop.induct) auto

datatype step = Key string | Index nat

fun step_text :: "step \<Rightarrow> string" where
  "step_text (Key k) = k"
| "step_text (Index i) = str_of_nat i"

fun step_render :: "step \<Rightarrow> string" where
  "step_render (Key k) = ''.'' @ k"
| "step_render (Index i) = ''['' @ str_of_nat i @ '']''"

fun resolves :: "pyval \<Rightarrow> step list \<Rightarrow> pyval \<Rightarrow> bool" where
  "resolves data [] v = (data = v)"
| "resolves (PDict d) (Key k # steps) v = (\<exists>x. map_of d k = Some x \<and> resolves x steps v)"
| "resolves (PList xs) (Index i # steps) v = (i < length xs \<and> resolves (xs ! i) steps v)"
| "resolves (PTuple xs) (Index i # steps) v = (i < length xs \<and> resolves (xs ! i) steps v)"
| "resolves _ _ _ = False"

fun plain_step :: "step \<Rightarrow> bool" where
  "plain_step (Key k) = (k \<noteq> [] \<and> set k \<inter> set ''.[]'' = {})"
| "plain_step (Index i) = True"

lemma of_digit: "n < 10 \<Longrightarrow> of_char (char_of (48 + n) :: char) = (48 + n :: nat)"
  by simp

lemma str_of_nat_digits: "c \<in> set (str_of_nat n) \<Longrightarrow> is_digit c"
proof (induction n rule: str_of_nat.induct)
  case (1 n)
  show ?case
  proof (cases "n < 10")
    case True
    with 1 show ?thesis by (simp add: str_of_nat.simps [of n] is_digit_def)
  next
    case False
    with 1 show ?thesis by (auto simp: str_of_nat.simps [of n] is_digit_def)
  qed
qed

lemma str_of_nat_nonempty [simp]: "str_of_nat n \<noteq> []"
  by (subst str_of_nat.simps) simp

lemma digits_value_snoc:
  "is_digit c \<Longrightarrow> digits_value (s @ [c]) = 10 * digits_value s + (int (of_char c) - 48)"
  by (simp add: digits_value_def)

lemma digits_value_str_of_nat: "digits_value (str_of_nat n) = int n"
proof (induction n rule: str_of_nat.induct)
  case (1 n)
  show ?case
  proof (cases "n < 10")
    case True
    then have "digits_value ([] @ [char_of (48 + n)]) = int n"
      by (subst digits_value_snoc) (simp_all add: is_digit_def digits_value_def)
    with True show ?thesis by (simp add: str_of_nat.simps [of n])
  next
    case False
    have n: "10 * int (n div 10) + int (n mod 10) = int n" by presburger
    have "digits_value (str_of_nat (n div 10) @ [char_of (48 + n mod 10)]) = int n"
      using 1 False n by (subst digits_value_snoc) (simp_all add: is_digit_def)
    with False show ?thesis by (simp add: str_of_nat.simps [of n])
  qed
qed

lemma digits_ok_digits: "\<forall>c \<in> set s. is_digit c \<Longrightarrow> digits_ok b s \<longleftrightarrow> b \<or> s \<noteq> []"
  by (induction s arbitrary: b) auto

lemma digit_not_blank: "is_digit c \<Longrightarrow> \<not> is_blank c"
  by (auto simp: is_digit_def is_blank_def)

lemma dropWhile_none: "\<forall>c \<in> set s. \<not> P c \<Longrightarrow> dropWhile P s = s"
  by (cases s) auto

lemma py_int_str_of_nat: "py_int (str_of_nat n) = Some (int n)"
proof -
  let ?s = "str_of_nat n"
  have d: "\<forall>c \<in> set ?s. is_digit c" using str_of_nat_digits by blast
  have 1: "dropWhile is_blank ?s = ?s" "dropWhile is_blank (rev ?s) = rev ?s"
    using d digit_not_blank by (intro dropWhile_none; simp)+
  obtain c r where s: "?s = c # r" by (cases ?s) auto
  have "c \<noteq> CHR ''-'' \<and> c \<noteq> CHR ''+''" using d s by (auto simp: is_digit_def)
  then have "(case ?s of c # r \<Rightarrow> if c = CHR ''-'' then (-1, r) else if c = CHR ''+'' then (1, r) else (1, ?s)
      | [] \<Rightarrow> (1, ?s)) = (1 :: int, ?s)"
    by (simp add: s)
  then show ?thesis
    unfolding py_int_def 1 rev_rev_ident Let_def
    using digits_ok_digits [OF d, of False] by (simp add: digits_value_str_of_nat)
qed


lemma segments_loop_chars:
  "set k \<inter> set ''.[]'' = {} \<Longrightarrow> segments_loop acc current (k @ rest) = segments_loop acc (current @ k) rest"
  by (induction k arbitrary: current) auto

lemma digit_not_separator: "is_digit c \<Longrightarrow> c \<notin> set ''.[]''"
  by (auto simp: is_digit_def)

lemma str_of_nat_no_separator: "set (str_of_nat i) \<inter> set ''.[]'' = {}"
  using str_of_nat_digits digit_not_separator by blast

lemma segments_loop_step:
  assumes "plain_step s" "set current \<inter> set ''.[]'' = {}"
  shows "segments_loop acc current (step_render s @ rest) =
    (case s of
       Key k \<Rightarrow> segments_loop (if current \<noteq> [] then acc @ [current] else acc) k rest
     | Index i \<Rightarrow> segments_loop ((if current \<noteq> [] then acc @ [current] else acc) @ [str_of_nat i]) [] rest)"
proof -
  have dots: "current \<noteq> ''...''" "str_of_nat i \<noteq> ''...''" for i
    using assms(2) str_of_nat_no_separator [of i] by auto
  show ?thesis
  proof (cases s)
    case (Key k)
    then show ?thesis
      using assms dots(1) segments_loop_chars [of k "if current \<noteq> [] then acc @ [current] else acc" "[]" rest]
      by simp
  next
    case (Index i)
    then show ?thesis
      using dots str_of_nat_no_separator [of i]
        segments_loop_chars [of "str_of_nat i" "if current \<noteq> [] then acc @ [current] else acc" "[]" "CHR '']'' # rest"]
      by simp
  qed
qed

lemma segments_loop_steps:
  "list_all plain_step steps \<Longrightarrow> set current \<inter> set ''.[]'' = {} \<Longrightarrow>
   segments_loop acc current (concat (map step_render steps)) =
     Some ((if current \<noteq> [] then acc @ [current] else acc) @ map step_text steps)"
proof (induction steps arbitrary: acc current)
  case (Cons s steps)
  then have "segments_loop acc current (concat (map step_render (s # steps))) =
      (case s of
         Key k \<Rightarrow> segments_loop (if current \<noteq> [] then acc @ [current] else acc) k (concat (map step_render steps))
       | Index i \<Rightarrow> segments_loop ((if current \<noteq> [] then acc @ [current] else acc) @ [str_of_nat i]) []
           (concat (map step_render steps)))"
    unfolding list.map concat.simps by (intro segments_loop_step) simp_all
  also have "\<dots> = Some ((if current \<noteq> [] then acc @ [current] else acc) @ map step_text (s # steps))"
    using Cons.prems by (cases s) (simp_all add: Cons.IH del: set_simps(2))
  finally show ?case .
qed simp

lemma walk_steps: "resolves data steps v \<Longrightarrow> walk data (map step_text steps) = v"
  by (induction data steps v rule: resolves.induct) (auto simp: py_int_str_of_nat py_index_def)


subsection \<open>What is declared secret\<close>

text \<open>A chain of nested structs that repeats none, through containers or not, down to a field that
  is marked.\<close>

inductive declared_secret :: "structs \<Rightarrow> string list \<Rightarrow> string \<Rightarrow> string list \<Rightarrow> bool" for k where
  secret_here: "n \<notin> set seen \<Longrightarrow> f \<in> set (struct_fields k n) \<Longrightarrow> is_secret (sf_type f) \<Longrightarrow>
     declared_secret k seen n [sf_encode_name f]"
| secret_below: "n \<notin> set seen \<Longrightarrow> f \<in> set (struct_fields k n) \<Longrightarrow>
     m \<in> set (nested_structs (sf_type f)) \<Longrightarrow> declared_secret k (n # seen) m segs \<Longrightarrow>
     declared_secret k seen n (sf_encode_name f # segs)"

lemma struct_secret_paths_field:
  assumes "n \<notin> set seen" "f \<in> set (struct_fields k n)"
    "p \<in> set (if is_secret (sf_type f) then [pre @ sf_encode_name f]
       else if nested_structs (sf_type f) = [] then []
       else if under_a_container (sf_type f) then
         (if list_ex (\<lambda>c. struct_secret_paths k c [] (n # seen) \<noteq> []) (nested_structs (sf_type f))
          then [pre @ sf_encode_name f] else [])
       else concat (map (\<lambda>c. struct_secret_paths k c ((pre @ sf_encode_name f) @ ''.'') (n # seen))
         (nested_structs (sf_type f))))"
  shows "p \<in> set (struct_secret_paths k n pre seen)"
  unfolding struct_secret_paths.simps [of k n pre seen] if_not_P [OF assms(1)] Let_def
    set_from_keys set_concat set_map
  by (rule UN_I [OF imageI [OF assms(2)]]) (use assms(3) in simp)

lemma struct_secret_cover:
  "declared_secret k seen n segs \<Longrightarrow>
   \<exists>i. 0 < i \<and> i \<le> length segs \<and> pre @ py_join ''.'' (take i segs) \<in> set (struct_secret_paths k n pre seen)"
proof (induction arbitrary: pre rule: declared_secret.induct)
  case (secret_here n seen f)
  then have "pre @ sf_encode_name f \<in> set (struct_secret_paths k n pre seen)"
    using struct_secret_paths_field [OF secret_here(1,2), of "pre @ sf_encode_name f" pre] by simp
  then show ?case by (intro exI [of _ 1]) simp
next
  case (secret_below n seen f m segs)
  let ?path = "pre @ sf_encode_name f"
  let ?deep = "concat (map (\<lambda>c. struct_secret_paths k c (?path @ ''.'') (n # seen)) (nested_structs (sf_type f)))"
  have "list_ex (\<lambda>c. struct_secret_paths k c [] (n # seen) \<noteq> []) (nested_structs (sf_type f))"
    using secret_below.IH [of "[]"] secret_below.hyps(3) by (auto simp: list_ex_iff intro!: bexI [of _ m])
  moreover have "nested_structs (sf_type f) \<noteq> []" using secret_below.hyps(3) by auto
  ultimately have cases: "?path \<in> set (struct_secret_paths k n pre seen) \<or>
      set ?deep \<subseteq> set (struct_secret_paths k n pre seen)"
    using struct_secret_paths_field [OF secret_below.hyps(1,2), of ?path pre]
      struct_secret_paths_field [OF secret_below.hyps(1,2), of _ pre]
    by (cases "is_secret (sf_type f) \<or> under_a_container (sf_type f)") (auto simp del: set_concat)
  show ?case
  proof (cases "?path \<in> set (struct_secret_paths k n pre seen)")
    case True
    then show ?thesis by (intro exI [of _ 1]) simp
  next
    case False
    obtain i where i: "0 < i" "i \<le> length segs"
      "(?path @ ''.'') @ py_join ''.'' (take i segs) \<in> set (struct_secret_paths k m (?path @ ''.'') (n # seen))"
      using secret_below.IH [of "?path @ ''.''"] by blast
    then have "(?path @ ''.'') @ py_join ''.'' (take i segs) \<in> set ?deep"
      using secret_below.hyps(3) by auto
    with False cases have "(?path @ ''.'') @ py_join ''.'' (take i segs) \<in> set (struct_secret_paths k n pre seen)"
      by blast
    moreover have "take i segs \<noteq> []" using i by auto
    ultimately show ?thesis
      using i by (intro exI [of _ "Suc i"]) (simp add: py_join_Cons)
  qed
qed


subsection \<open>Properties\<close>

lemma value_at_steps:
  assumes "list_all plain_step steps" "resolves data steps v"
  shows "value_at data (''$'' @ concat (map step_render steps)) = v"
  using segments_loop_steps [OF assms(1), of "[]" "[]"] walk_steps [OF assms(2)]
  by (simp add: value_at_def py_startswith_def segments_def)

lemma quoting_replacement_cases:
  "quoting_replacement head = Some r \<Longrightarrow>
   r = ''not one of the values this field allows'' \<or> r = ''not one of the tags this union allows''"
  by (auto simp: quoting_replacement_def split: if_splits)

text \<open>The value that a message's path leads to is gone from the message, in either rendering of
  more than one character, whatever the message is: what stands before the path is one of the two
  fixed phrases or does not contain the rendering. The path itself is kept.\<close>

theorem scrubbed_message_hides_the_value:
  assumes "py_rpartition at_sep message = Some (head, path)"
    "value_at data (py_strip CHR 0x60 path) = v" "v \<noteq> PNone"
    "r = repr v \<or> r = str v" "1 < py_len r" "set r \<inter> set ellipsis = {}"
  shows "\<exists>h. scrub repr str message data = h @ at_sep @ path \<and>
    (h \<in> {''not one of the values this field allows'', ''not one of the tags this union allows''} \<or>
     \<not> py_in r h)"
proof (cases "quoting_replacement head")
  case (Some replacement)
  then show ?thesis
    using assms(1) quoting_replacement_cases [OF Some] by (auto simp: scrub_def scrub_head_def)
next
  case None
  let ?h = "take_out (str v) (take_out (repr v) head)"
  have "scrub repr str message data = ?h @ at_sep @ path"
    using None assms(1-3) by (simp add: scrub_def scrub_head_def)
  moreover have "\<not> py_in r ?h"
    using assms(4) take_out_gone [OF assms(5,6)] take_out_stays_gone [OF assms(5,6)] by metis
  ultimately show ?thesis by blast
qed

definition sample_str :: "pyval \<Rightarrow> string" where
  "sample_str v = (case v of PStr s \<Rightarrow> s | _ \<Rightarrow> ''?'')"

definition sample_repr :: "pyval \<Rightarrow> string" where
  "sample_repr v = (case v of PStr s \<Rightarrow> py_repr_str s | _ \<Rightarrow> ''?'')"

theorem scrubbed_message_hides_the_value_witness:
  "\<exists>h. scrub sample_repr sample_str ''bad hunter2 - at `$.db.password`''
       (PDict [(''db'', PDict [(''password'', PStr ''hunter2'')])]) = h @ at_sep @ ''`$.db.password`'' \<and>
     (h \<in> {''not one of the values this field allows'', ''not one of the tags this union allows''} \<or>
      \<not> py_in ''hunter2'' h)"
proof (rule scrubbed_message_hides_the_value [where head = "''bad hunter2''" and v = "PStr ''hunter2''"])
  show "py_rpartition at_sep ''bad hunter2 - at `$.db.password`'' = Some (''bad hunter2'', ''`$.db.password`'')"
    by (simp add: at_sep_def)
  show "value_at (PDict [(''db'', PDict [(''password'', PStr ''hunter2'')])])
      (py_strip CHR 0x60 ''`$.db.password`'') = PStr ''hunter2''"
    by (simp add: value_at_def segments_def py_strip_def py_startswith_def)
qed (simp_all add: sample_str_def py_len_def ellipsis_def)

text \<open>A path that msgspec writes with a value's keys and indices leads \<open>_value_at\<close> to that value,
  for keys that are not empty and contain none of the characters that separate steps.\<close>

theorem path_leads_to_its_value:
  assumes "list_all plain_step steps" "resolves data steps v"
  shows "value_at data (''$'' @ concat (map step_render steps)) = v"
  by (rule value_at_steps [OF assms])

theorem path_leads_to_its_value_witness:
  "value_at (PDict [(''hosts'', PList [PStr ''a'', PStr ''b''])])
     (''$'' @ concat (map step_render [Key ''hosts'', Index 1])) = PStr ''b''"
  by (rule path_leads_to_its_value) simp_all

text \<open>Giving up on an elided step never happens: the dots that would make \<open>current\<close> equal to
  \<open>...\<close> are separators, so \<open>_segments\<close> answers a list for every path, and an elided key leads to
  the mapping itself.\<close>

theorem elision_is_never_noticed:
  "segments path \<noteq> None \<and> segments ''.mapping[...]'' = Some [''mapping'']"
  using segments_loop_total [of "[]" "[]" path] by (auto simp: segments_def)

text \<open>Every field marked secret, on any chain of nested structs and containers that repeats no
  struct, is covered: the redaction list holds its path or a path above it.\<close>

theorem marked_field_is_masked:
  "declared_secret k [] model segs \<Longrightarrow>
   \<exists>i. 0 < i \<and> i \<le> length segs \<and> py_join ''.'' (take i segs) \<in> set (msgspec_secret_paths k model)"
  using struct_secret_cover [of k "[]" model segs "[]"] by (simp add: msgspec_secret_paths_def)

definition user_structs :: structs where
  "user_structs =
     [(''Config'', [\<lparr>sf_encode_name = ''users'', sf_type = S_container [S_struct ''Login'']\<rparr>]),
      (''Login'', [\<lparr>sf_encode_name = ''name'', sf_type = S_class ''str''\<rparr>,
         \<lparr>sf_encode_name = ''password'', sf_type = S_annotated [S_class ''str'', S_meta True]\<rparr>])]"

lemmas user_structs_simps =
  user_structs_def struct_fields_def nested_structs_def is_secret_def metas_def map_filter_simps

theorem marked_field_is_masked_witness:
  "\<exists>i. 0 < i \<and> i \<le> length [''users'', ''password''] \<and>
     py_join ''.'' (take i [''users'', ''password'']) \<in> set (msgspec_secret_paths user_structs ''Config'')"
proof (rule marked_field_is_masked)
  let ?p = "\<lparr>sf_encode_name = ''password'', sf_type = S_annotated [S_class ''str'', S_meta True]\<rparr>"
  let ?u = "\<lparr>sf_encode_name = ''users'', sf_type = S_container [S_struct ''Login'']\<rparr>"
  have "declared_secret user_structs [''Config''] ''Login'' [sf_encode_name ?p]"
    by (rule secret_here) (simp_all add: user_structs_simps)
  then have "declared_secret user_structs [] ''Config'' [sf_encode_name ?u, sf_encode_name ?p]"
    by - (rule secret_below [where m = "''Login''"], simp_all add: user_structs_simps)
  then show "declared_secret user_structs [] ''Config'' [''users'', ''password'']" by simp
qed

text \<open>A struct that refers to itself is read once: its secret is listed at the first level only, and
  a file may nest it further.\<close>

theorem self_reference_is_cut:
  "struct_secret_paths
     [(''Node'', [\<lparr>sf_encode_name = ''secret'', sf_type = S_meta True\<rparr>,
                  \<lparr>sf_encode_name = ''child'', sf_type = S_struct ''Node''\<rparr>])] ''Node'' [] [] = [''secret'']"
  by (simp add: struct_secret_paths.simps user_structs_simps Let_def)

end
