(* ===== verification/Remote.thy ===== *)
theory Remote
  imports PyValue
begin

section \<open>A remote store written in Python: \<open>_remote.py\<close>, \<open>remote.rs\<close>\<close>

text \<open>
  The remote slot of the engine is a parameter, a record of its operations, and \<open>slot_ok\<close> is what
  the library relies on: installing a store drops the document of the one before it, a fetch that
  succeeds replaces the document, one that fails keeps it, and clearing keeps the store. A
  \<open>fetch()\<close> of the user's class is its outcome, a value or an exception. The courier
  \<open>_AwaitedDocument\<close> is in the state: its one document, and the asynchronous store it speaks for.
  The configuration is alive and the interpreter running.
\<close>

subsection \<open>Exceptions and stores\<close>

text \<open>An exception has a class, what it is an instance of, and a message.\<close>

record exc =
  ex_class :: string
  ex_is_auth :: bool
  ex_is_exception :: bool
  ex_message :: string

datatype remote_error =
    Remote_error string
  | Auth_error string
  | Backend_error string
  | Py_type_error string
  | Py_runtime_error string
  | Py_raised exc

record source =
  so_class :: string
  so_async :: bool
  so_has_fetch :: bool
  so_has_describe :: bool
  so_describe :: "(exc, pyval) result"

text \<open>A courier is a number: each call of \<open>remote\<close> with an asynchronous store makes a new one.\<close>

datatype object = Plain source | Courier nat source

type_synonym fetched = "string \<times> string"

record 'r slot_ops =
  op_set :: "string \<Rightarrow> 'r \<Rightarrow> 'r"
  op_refresh :: "(remote_error, fetched) result \<Rightarrow> 'r \<Rightarrow> (remote_error, unit) result \<times> 'r"
  op_clear :: "'r \<Rightarrow> 'r"
  op_describe :: "'r \<Rightarrow> string option"
  op_document :: "'r \<Rightarrow> fetched option"
  op_no_source :: remote_error

definition slot_ok :: "'r slot_ops \<Rightarrow> bool" where
  "slot_ok ops \<longleftrightarrow>
     (\<forall>d r. op_document ops (op_set ops d r) = None \<and> op_describe ops (op_set ops d r) = Some d) \<and>
     (\<forall>r. op_document ops (op_clear ops r) = None \<and> op_describe ops (op_clear ops r) = op_describe ops r) \<and>
     (\<forall>f r. fst (op_refresh ops (Inr f) r) = Inr () \<and>
        op_document ops (snd (op_refresh ops (Inr f) r)) = Some f \<and>
        op_describe ops (snd (op_refresh ops (Inr f) r)) = op_describe ops r) \<and>
     (\<forall>e r. fst (op_refresh ops (Inl e) r) = Inl e \<and>
        op_document ops (snd (op_refresh ops (Inl e) r)) = op_document ops r \<and>
        op_describe ops (snd (op_refresh ops (Inl e) r)) = op_describe ops r)"

record 'r remote =
  rm_object :: "object option"
  rm_description :: string
  rm_failure :: "exc option"
  rm_engine :: 'r
  rm_async :: "(nat \<times> source) option"
  rm_documents :: "nat \<Rightarrow> pyval option"
  rm_couriers :: nat
  rm_fetching :: bool

definition remote_new :: "'r \<Rightarrow> 'r remote" where
  "remote_new r =
     \<lparr>rm_object = None, rm_description = [], rm_failure = None, rm_engine = r, rm_async = None,
      rm_documents = (\<lambda>_. None), rm_couriers = 0, rm_fetching = False\<rparr>"

subsection \<open>What a fetch answers\<close>

definition text_of :: "pyval \<Rightarrow> string option" where
  "text_of v =
     (case v of PStr s \<Rightarrow> Some s | PObj _ x \<Rightarrow> (case x of PStr s \<Rightarrow> Some s | _ \<Rightarrow> None) | _ \<Rightarrow> None)"

definition format_of :: "string \<Rightarrow> pyval \<Rightarrow> (remote_error, string) result" where
  "format_of description v =
     (case text_of v of
        None \<Rightarrow> Inl (Remote_error (''`'' @ description @
          ''`: the second half of fetch()'' @ [CHR 0x27] @ ''s answer must be a Format, not '' @ type_name v))
      | Some named \<Rightarrow>
          (let f = py_lower named in
           if f \<in> {''json'', ''toml'', ''ini'', ''properties''} then Inr f
           else if f = ''yaml'' \<or> f = ''yml'' then Inr ''yaml''
           else Inl (Remote_error (''`'' @ description @ ''`: '' @ quoted f @
             '' is not a document format '' @ em_dash @ '' expected Format.JSON, Format.TOML or Format.YAML''))))"

definition pair_of :: "pyval \<Rightarrow> (pyval \<times> pyval) option" where
  "pair_of v = (case v of PTuple xs \<Rightarrow> (case xs of [a, b] \<Rightarrow> Some (a, b) | _ \<Rightarrow> None) | _ \<Rightarrow> None)"

definition fetched_of :: "string \<Rightarrow> pyval \<Rightarrow> (remote_error, fetched) result" where
  "fetched_of description answer =
     (case pair_of answer of
        None \<Rightarrow> Inl (Remote_error (''`'' @ description @ ''`: fetch() must return a (text, format) pair, not '' @
          type_name answer))
      | Some (document, format) \<Rightarrow>
          (case text_of document of
             None \<Rightarrow> Inl (Remote_error (''`'' @ description @
               ''`: the document fetch() returns must be a str, not '' @ type_name document))
           | Some text \<Rightarrow> rbind (format_of description format) (\<lambda>f. Inr (text, f))))"

text \<open>\<open>PySource::record\<close>: the exception is kept, its message is not repeated.\<close>

definition recorded :: "string \<Rightarrow> exc \<Rightarrow> remote_error" where
  "recorded description e =
     (let message = ''the Python remote source `'' @ description @ ''` raised '' @ ex_class e @
        ''; its message is not repeated here, because a store's exception routinely carries the URL it called, a token or the document itself '' @
        em_dash @ '' the exception is attached to this one as `__cause__`''
      in if ex_is_auth e then Auth_error message else Remote_error message)"

definition courier_error :: "source \<Rightarrow> string" where
  "courier_error source =
     so_class source @ '' is an AsyncRemoteSource: its fetch() is a coroutine, so call `await config.refresh_remote_async()` rather than `config.refresh_remote()`''"

definition runtime_exc :: "string \<Rightarrow> exc" where
  "runtime_exc message =
     \<lparr>ex_class = ''RuntimeError'', ex_is_auth = False, ex_is_exception = True, ex_message = message\<rparr>"

text \<open>The courier's \<open>fetch\<close>: the document is handed out once.\<close>

definition courier_fetch :: "nat \<Rightarrow> source \<Rightarrow> 'r remote \<Rightarrow> (exc, pyval) result \<times> 'r remote" where
  "courier_fetch c source s =
     (let s1 = s\<lparr>rm_documents := (rm_documents s)(c := None)\<rparr> in
      case rm_documents s c of
        None \<Rightarrow> (Inl (runtime_exc (courier_error source)), s1)
      | Some d \<Rightarrow> (Inr d, s1))"

text \<open>\<open>PyRemoteSource::fetch\<close>. What a plain store's own \<open>fetch()\<close> does is \<open>outcome\<close>.\<close>

definition object_fetch ::
  "(exc, pyval) result \<Rightarrow> 'r remote \<Rightarrow> (remote_error, fetched) result \<times> 'r remote" where
  "object_fetch outcome s =
     (case rm_object s of
        None \<Rightarrow> (Inl (Remote_error (''`'' @ rm_description s @
          ''` has been released; install a source with `remote(...)` before refreshing'')), s)
      | Some ob \<Rightarrow>
          (let s1 = s\<lparr>rm_failure := None, rm_fetching := True\<rparr>;
               (answer, s2) = (case ob of Plain _ \<Rightarrow> (outcome, s1) | Courier c source \<Rightarrow> courier_fetch c source s1);
               s3 = s2\<lparr>rm_fetching := False\<rparr>
           in case answer of
                Inr v \<Rightarrow> (fetched_of (rm_description s) v, s3)
              | Inl e \<Rightarrow> (Inl (recorded (rm_description s) e), s3\<lparr>rm_failure := Some e\<rparr>)))"

subsection \<open>The native object\<close>

text \<open>\<open>Config::remote\<close>: both methods are looked for, the store is asked for its name, once.\<close>

definition describe_object :: "object \<Rightarrow> (exc, pyval) result" where
  "describe_object ob = (case ob of Plain source \<Rightarrow> so_describe source | Courier c source \<Rightarrow> so_describe source)"

definition missing_method :: "object \<Rightarrow> string option" where
  "missing_method ob =
     (case ob of
        Courier _ _ \<Rightarrow> None
      | Plain source \<Rightarrow>
          if \<not> so_has_fetch source then Some ''fetch''
          else if \<not> so_has_describe source then Some ''describe'' else None)"

definition core_remote ::
  "'r slot_ops \<Rightarrow> object \<Rightarrow> 'r remote \<Rightarrow> (remote_error, unit) result \<times> 'r remote" where
  "core_remote ops ob s =
     (case missing_method ob of
        Some name \<Rightarrow> (Inl (Py_type_error (''a remote source needs a '' @ name @ ''() method; subclass dynamic_config.RemoteSource, which refuses a class '' @
            ''missing one where the store is constructed rather than at the first fetch'')), s)
      | None \<Rightarrow>
          (case describe_object ob of
             Inl e \<Rightarrow> (Inl (Py_raised e), s)
           | Inr v \<Rightarrow>
               (case text_of v of
                  None \<Rightarrow> (Inl (Py_type_error (''describe() has to return a str naming the store; it is what provenance and '' @
                    ''every remote error report'')), s)
                | Some description \<Rightarrow>
                    (Inr (), s\<lparr>rm_object := Some ob, rm_failure := None, rm_description := description,
                              rm_engine := op_set ops description (rm_engine s)\<rparr>))))"

text \<open>\<open>remote_failure\<close>: the kept exception becomes the cause, and one that is not an \<open>Exception\<close> is
  raised itself.\<close>

definition remote_failure ::
  "remote_error \<Rightarrow> 'r remote \<Rightarrow> (remote_error \<times> exc option) \<times> 'r remote" where
  "remote_failure error s =
     (case rm_failure s of
        None \<Rightarrow> ((error, None), s)
      | Some original \<Rightarrow>
          (if ex_is_exception original then (error, Some original) else (Py_raised original, None),
           s\<lparr>rm_failure := None\<rparr>))"

type_synonym 'r refreshed = "(remote_error \<times> exc option, unit) result \<times> 'r remote"

definition core_refresh_remote ::
  "'r slot_ops \<Rightarrow> (exc, pyval) result \<Rightarrow> 'r remote \<Rightarrow> 'r refreshed" where
  "core_refresh_remote ops outcome s =
     (if rm_fetching s then
        (Inl (Backend_error ''refresh_remote() was called from inside a remote source's own fetch(); a fetch must not drive the refresh it is answering. Read the store, return the document, and let the caller reload.'', None), s)
      else
        (let (answer, s1) =
               (if op_describe ops (rm_engine s) = None then (Inl (op_no_source ops), s)
                else (let (f, s1) = object_fetch outcome s; (r, engine) = op_refresh ops f (rm_engine s1)
                      in (r, s1\<lparr>rm_engine := engine\<rparr>)))
         in case answer of
              Inr _ \<Rightarrow> (Inr (), s1)
            | Inl error \<Rightarrow> (let (e, s2) = remote_failure error s1 in (Inl e, s2))))"

definition release_source :: "'r remote \<Rightarrow> 'r remote" where
  "release_source s = s\<lparr>rm_object := None, rm_failure := None\<rparr>"

subsection \<open>The configuration\<close>

text \<open>\<open>remote(source)\<close>: the attribute is assigned before the native call that may raise; an
  asynchronous store gets a new courier, which is empty.\<close>

definition config_remote ::
  "'r slot_ops \<Rightarrow> source \<Rightarrow> 'r remote \<Rightarrow> (remote_error, unit) result \<times> 'r remote" where
  "config_remote ops source s =
     (if so_async source then
        core_remote ops (Courier (rm_couriers s) source)
          (s\<lparr>rm_async := Some (rm_couriers s, source), rm_couriers := Suc (rm_couriers s),
             rm_documents := (rm_documents s)(rm_couriers s := None)\<rparr>)
      else core_remote ops (Plain source) (s\<lparr>rm_async := None\<rparr>))"

definition config_refresh_remote ::
  "'r slot_ops \<Rightarrow> (exc, pyval) result \<Rightarrow> 'r remote \<Rightarrow> 'r refreshed" where
  "config_refresh_remote ops outcome s =
     (case rm_async s of
        Some (c, source) \<Rightarrow> (Inl (Py_runtime_error (courier_error source), None), s)
      | None \<Rightarrow> core_refresh_remote ops outcome s)"

text \<open>\<open>refresh_remote_async\<close> is two steps of its task: awaiting the store and handing the document
  over, and the refresh on a worker thread.\<close>

definition hand_over :: "nat \<Rightarrow> pyval \<Rightarrow> 'r remote \<Rightarrow> 'r remote" where
  "hand_over c document s = s\<lparr>rm_documents := (rm_documents s)(c := Some document)\<rparr>"

definition config_refresh_remote_async ::
  "'r slot_ops \<Rightarrow> (exc, pyval) result \<Rightarrow> 'r remote \<Rightarrow> 'r refreshed" where
  "config_refresh_remote_async ops outcome s =
     (case rm_async s of
        None \<Rightarrow> core_refresh_remote ops outcome s
      | Some (c, _) \<Rightarrow>
          (case outcome of
             Inl e \<Rightarrow> (Inl (Py_raised e, None), s)
           | Inr document \<Rightarrow> core_refresh_remote ops outcome (hand_over c document s)))"

definition config_clear_remote :: "'r slot_ops \<Rightarrow> 'r remote \<Rightarrow> 'r remote" where
  "config_clear_remote ops s = s\<lparr>rm_engine := op_clear ops (rm_engine s)\<rparr>"

definition remote_description :: "'r slot_ops \<Rightarrow> 'r remote \<Rightarrow> string option" where
  "remote_description ops s = op_describe ops (rm_engine s)"


subsection \<open>Lemmas\<close>

lemma slot_okD:
  assumes "slot_ok ops"
  shows "op_document ops (op_set ops d r) = None" "op_describe ops (op_set ops d r) = Some d"
    "op_document ops (op_clear ops r) = None" "op_describe ops (op_clear ops r) = op_describe ops r"
    "fst (op_refresh ops (Inr f) r) = Inr ()" "op_document ops (snd (op_refresh ops (Inr f) r)) = Some f"
    "op_describe ops (snd (op_refresh ops g r)) = op_describe ops r"
    "fst (op_refresh ops (Inl e) r) = Inl e" "op_document ops (snd (op_refresh ops (Inl e) r)) = op_document ops r"
  using assms unfolding slot_ok_def by (blast+, cases g, blast+)

lemma object_fetch_frame:
  "rm_object (snd (object_fetch outcome s)) = rm_object s"
  "rm_description (snd (object_fetch outcome s)) = rm_description s"
  "rm_engine (snd (object_fetch outcome s)) = rm_engine s"
  "rm_async (snd (object_fetch outcome s)) = rm_async s"
  by (auto simp: object_fetch_def courier_fetch_def Let_def split: option.splits sum.splits object.splits)

lemma remote_failure_frame:
  "rm_object (snd (remote_failure e s)) = rm_object s"
  "rm_description (snd (remote_failure e s)) = rm_description s"
  "rm_engine (snd (remote_failure e s)) = rm_engine s"
  "rm_async (snd (remote_failure e s)) = rm_async s"
  "rm_documents (snd (remote_failure e s)) = rm_documents s"
  by (auto simp: remote_failure_def split: option.splits)

text \<open>A refresh, by what the store gave.\<close>

lemma core_refresh_frame:
  "rm_object (snd (core_refresh_remote ops outcome s)) = rm_object s"
  "rm_description (snd (core_refresh_remote ops outcome s)) = rm_description s"
  "rm_async (snd (core_refresh_remote ops outcome s)) = rm_async s"
  by (auto simp: core_refresh_remote_def Let_def split_def object_fetch_frame remote_failure_frame split: sum.splits)

lemma core_refresh_ok:
  assumes "slot_ok ops" "fst (core_refresh_remote ops outcome s) = Inr ()"
  shows "\<exists>f. fst (object_fetch outcome s) = Inr f \<and>
    op_document ops (rm_engine (snd (core_refresh_remote ops outcome s))) = Some f"
  using assms(2) slot_okD [OF assms(1)]
  by (cases "fst (object_fetch outcome s)")
    (auto simp: core_refresh_remote_def Let_def split_def object_fetch_frame split: if_splits sum.splits)

lemma core_refresh_failed:
  assumes "slot_ok ops" "fst (core_refresh_remote ops outcome s) = Inl e"
  shows "op_document ops (rm_engine (snd (core_refresh_remote ops outcome s))) = op_document ops (rm_engine s)"
    "op_describe ops (rm_engine (snd (core_refresh_remote ops outcome s))) = op_describe ops (rm_engine s)"
  using assms(2) slot_okD [OF assms(1)]
  by (cases "fst (object_fetch outcome s)";
      auto simp: core_refresh_remote_def Let_def split_def object_fetch_frame remote_failure_frame split: if_splits sum.splits)+


text \<open>What the installed object gives to a refresh that succeeds.\<close>

lemma object_fetch_plain:
  "rm_object s = Some (Plain source) \<Longrightarrow> fst (object_fetch outcome s) = Inr f \<Longrightarrow>
   \<exists>v. outcome = Inr v \<and> fetched_of (rm_description s) v = Inr f"
  by (auto simp: object_fetch_def Let_def split: sum.splits)

lemma object_fetch_courier:
  "rm_object s = Some (Courier c source) \<Longrightarrow> fst (object_fetch outcome s) = Inr f \<Longrightarrow>
   \<exists>v. rm_documents s c = Some v \<and> fetched_of (rm_description s) v = Inr f"
  by (auto simp: object_fetch_def courier_fetch_def Let_def split: sum.splits option.splits)

lemma object_fetch_empties:
  "rm_object s = Some (Courier c source) \<Longrightarrow> rm_documents (snd (object_fetch outcome s)) c = None"
  by (auto simp: object_fetch_def courier_fetch_def Let_def split: sum.splits option.splits)

lemma core_refresh_documents:
  "op_describe ops (rm_engine s) \<noteq> None \<Longrightarrow> \<not> rm_fetching s \<Longrightarrow>
   rm_documents (snd (core_refresh_remote ops outcome s)) = rm_documents (snd (object_fetch outcome s))"
  by (auto simp: core_refresh_remote_def Let_def split_def remote_failure_frame split: sum.splits)

subsection \<open>Properties\<close>

text \<open>The slot of the concrete runs: the store's name and its document.\<close>

definition sample_slot :: "(string option \<times> fetched option) slot_ops" where
  "sample_slot =
     \<lparr>op_set = (\<lambda>d r. (Some d, None)),
      op_refresh = (\<lambda>f r. case f of Inl e \<Rightarrow> (Inl e, r) | Inr d \<Rightarrow> (Inr (), (fst r, Some d))),
      op_clear = (\<lambda>r. (fst r, None)), op_describe = fst, op_document = snd,
      op_no_source = Remote_error ''no source''\<rparr>"

definition sample_store :: "bool \<Rightarrow> source" where
  "sample_store async =
     \<lparr>so_class = ''OurService'', so_async = async, so_has_fetch = True, so_has_describe = True,
      so_describe = Inr (PStr ''our service'')\<rparr>"

definition sample_remote :: "bool \<Rightarrow> (string option \<times> fetched option) remote" where
  "sample_remote async = snd (config_remote sample_slot (sample_store async) (remote_new (None, None)))"

lemma sample_slot_ok: "slot_ok sample_slot"
  by (simp add: slot_ok_def sample_slot_def)

lemmas sample_remote_simps =
  sample_remote_def config_remote_def core_remote_def missing_method_def describe_object_def text_of_def
  sample_store_def sample_slot_def remote_new_def

definition http_error :: "string \<Rightarrow> exc" where
  "http_error m = \<lparr>ex_class = ''HTTPError'', ex_is_auth = False, ex_is_exception = True, ex_message = m\<rparr>"



text \<open>A refresh that succeeds keeps exactly what the installed store answered: the text and the
  format of the pair its \<open>fetch()\<close> returned, or, of an awaited store, that was awaited on the
  loop; and the courier is empty again.\<close>

theorem refreshed_document_is_the_stores:
  assumes "slot_ok ops" "op_describe ops (rm_engine s) \<noteq> None"
    "config_refresh_remote_async ops outcome s = (Inr (), s')"
    "rm_object s = Some (Plain source) \<and> rm_async s = None \<or>
     rm_object s = Some (Courier c source) \<and> rm_async s = Some (c, source)"
  shows "\<exists>v f. outcome = Inr v \<and> fetched_of (rm_description s) v = Inr f \<and>
      op_document ops (rm_engine s') = Some f \<and> (rm_async s = Some (c, source) \<longrightarrow> rm_documents s' c = None)"
proof (cases "rm_async s")
  case None
  with assms obtain f where "fst (object_fetch outcome s) = Inr f" "op_document ops (rm_engine s') = Some f"
    using core_refresh_ok [OF assms(1), of outcome s] by (auto simp: config_refresh_remote_async_def)
  with None assms(4) object_fetch_plain show ?thesis by fastforce
next
  case (Some a)
  then have a: "rm_async s = Some (c, source)" and ob: "rm_object s = Some (Courier c source)" using assms(4) by auto
  obtain d where d: "outcome = Inr d" "core_refresh_remote ops outcome (hand_over c d s) = (Inr (), s')"
    using assms(3) a by (auto simp: config_refresh_remote_async_def split: sum.splits)
  let ?s = "hand_over c d s"
  have s: "rm_object ?s = Some (Courier c source)" "rm_documents ?s c = Some d" "rm_description ?s = rm_description s"
    "rm_engine ?s = rm_engine s"
    by (simp_all add: hand_over_def ob)
  obtain f where f: "fst (object_fetch outcome ?s) = Inr f" "op_document ops (rm_engine s') = Some f"
    using core_refresh_ok [OF assms(1), of outcome ?s] d(2) by auto
  have "fetched_of (rm_description s) d = Inr f" using object_fetch_courier [OF s(1) f(1)] s by auto
  moreover have "\<not> rm_fetching ?s" using d(2) by (auto simp: core_refresh_remote_def)
  then have "rm_documents s' c = None"
    using core_refresh_documents [of ops ?s outcome] object_fetch_empties [OF s(1)] d(2) s(4) assms(2) by auto
  ultimately show ?thesis using d(1) f(2) by blast
qed

lemma sample_fetched: "fetched_of d (PTuple [PStr ''{}'', PObj ''Format'' (PStr ''json'')]) = Inr (''{}'', ''json'')"
  by (simp add: fetched_of_def pair_of_def text_of_def format_of_def py_lower_def lower_char_def)

theorem refreshed_document_is_the_stores_witness:
  "op_document sample_slot (rm_engine (snd (config_refresh_remote_async sample_slot
     (Inr (PTuple [PStr ''{}'', PObj ''Format'' (PStr ''json'')])) (sample_remote True)))) = Some (''{}'', ''json'')"
proof -
  let ?v = "PTuple [PStr ''{}'', PObj ''Format'' (PStr ''json'')]"
  obtain r s where rs: "config_refresh_remote_async sample_slot (Inr ?v) (sample_remote True) = (r, s)" by fastforce
  have "r = Inr ()"
    using rs sample_fetched
    by (auto simp: config_refresh_remote_async_def core_refresh_remote_def object_fetch_def courier_fetch_def
        hand_over_def sample_remote_simps Let_def)
  with rs have ok: "config_refresh_remote_async sample_slot (Inr ?v) (sample_remote True) = (Inr (), s)" by simp
  have "rm_object (sample_remote True) = Some (Courier 0 (sample_store True)) \<and>
      rm_async (sample_remote True) = Some (0, sample_store True)"
    "op_describe sample_slot (rm_engine (sample_remote True)) \<noteq> None"
    by (simp_all add: sample_remote_simps)
  then show ?thesis
    using refreshed_document_is_the_stores [OF sample_slot_ok _ ok, of "sample_store True" 0] rs sample_fetched
    by auto
qed

text \<open>What a store's exception says does not reach the error: two exceptions of one class give the
  same error with the same text, whatever their messages, and leave the same engine.\<close>

theorem store_exceptions_stay_quiet:
  assumes "ex_class e1 = ex_class e2" "ex_is_auth e1 = ex_is_auth e2" "ex_is_exception e1" "ex_is_exception e2"
  shows "(case fst (config_refresh_remote ops (Inl e1) s) of Inl x \<Rightarrow> Inl (fst x) | Inr u \<Rightarrow> Inr u) =
    (case fst (config_refresh_remote ops (Inl e2) s) of Inl x \<Rightarrow> Inl (fst x) | Inr u \<Rightarrow> Inr u) \<and>
    rm_engine (snd (config_refresh_remote ops (Inl e1) s)) = rm_engine (snd (config_refresh_remote ops (Inl e2) s))"
proof -
  have "recorded d e1 = recorded d e2" for d using assms by (simp add: recorded_def)
  then show ?thesis
    using assms
    by (auto simp: config_refresh_remote_def core_refresh_remote_def object_fetch_def remote_failure_def Let_def
        split_def split: option.splits object.splits sum.splits)
qed

theorem store_exceptions_stay_quiet_witness:
  "(case fst (config_refresh_remote sample_slot (Inl (http_error ''https://u:p@h'')) (sample_remote False)) of
      Inl x \<Rightarrow> Inl (fst x) | Inr u \<Rightarrow> Inr u) =
   (case fst (config_refresh_remote sample_slot (Inl (http_error ''other'')) (sample_remote False)) of
      Inl x \<Rightarrow> Inl (fst x) | Inr u \<Rightarrow> Inr u)"
  by (rule conjunct1 [OF store_exceptions_stay_quiet]) (simp_all add: http_error_def)

text \<open>Two tasks that refresh an awaited store at once share the courier: when both have handed over
  before either refreshes, the first document is lost and the second refresh fails with the error
  of a caller who used the wrong method.\<close>

lemma concurrent_refreshes_lose_a_document:
  assumes "slot_ok ops" "rm_object s = Some (Courier c source)" "\<not> rm_fetching s"
    "op_describe ops (rm_engine s) \<noteq> None" "fetched_of (rm_description s) d2 = Inr f"
  shows "let (r1, s1) = core_refresh_remote ops (Inr d1) (hand_over c d2 (hand_over c d1 s));
             (r2, s2) = core_refresh_remote ops (Inr d2) s1 in
     r1 = Inr () \<and> op_document ops (rm_engine s2) = Some f \<and>
     r2 = Inl (recorded (rm_description s) (runtime_exc (courier_error source)), Some (runtime_exc (courier_error source)))"
  using assms slot_okD [OF assms(1)]
  by (simp add: core_refresh_remote_def object_fetch_def courier_fetch_def hand_over_def remote_failure_def
      recorded_def runtime_exc_def Let_def split_def)

text \<open>\<open>remote(source)\<close> assigns \<open>_async_remote\<close> before the native call that may raise: when the name of
  an asynchronous store cannot be asked, the old store stays installed and the blocking refresh
  of it is refused.\<close>

lemma refused_store_blocks_the_old_one:
  "so_async source \<Longrightarrow> so_describe source = Inl e \<Longrightarrow>
   let (r, s') = config_remote ops source s in
     r = Inl (Py_raised e) \<and> rm_object s' = rm_object s \<and> rm_engine s' = rm_engine s \<and>
     fst (config_refresh_remote ops outcome s') = Inl (Py_runtime_error (courier_error source), None)"
  by (simp add: config_remote_def core_remote_def missing_method_def describe_object_def
      config_refresh_remote_def Let_def)

end
