(* ===== verification/Pydantic.thy ===== *)
theory Pydantic
  imports PyValue
begin

section \<open>A Pydantic model as a schema: \<open>_pydantic.py\<close>\<close>

text \<open>
  A class with fields (a model, a Pydantic dataclass, a plain dataclass, a \<open>RootModel\<close>) is a
  name; \<open>models\<close> says what its fields are, whether it is a \<open>RootModel\<close>, and whether it is a
  \<open>BaseModel\<close>. An annotation is what \<open>get_origin\<close> and \<open>get_args\<close> show: a class, a container
  with its arguments, or a union, an \<open>Annotated\<close> or another generic with its arguments. What
  Pydantic's validator answers is not modelled. The walk of \<open>secret_paths\<close> carries the depth
  Python still allows: a walk that would go deeper is a \<open>RecursionError\<close>.
\<close>

subsection \<open>Declarations\<close>

datatype field_alias =
    No_alias
  | Alias string
  | Alias_path "string option list"
  | Alias_choices "field_alias list"
  | Other_alias

datatype pannot =
    P_class string
  | P_secret string
  | P_model string
  | P_ellipsis
  | P_container "pannot list"
  | P_generic "pannot list"

record pfield =
  pf_annotation :: pannot
  pf_validation_alias :: field_alias
  pf_alias :: field_alias

record models =
  pm_fields :: "(string \<times> (string \<times> pfield) list) list"
  pm_is_root :: "string \<Rightarrow> bool"
  pm_is_model :: "string \<Rightarrow> bool"

text \<open>\<open>_alias_names\<close>: an index into a sequence ends the path, which is then the longest prefix of
  names; an empty one is no name.\<close>

fun leading_names :: "string option list \<Rightarrow> string list" where
  "leading_names (Some s # es) = s # leading_names es"
| "leading_names _ = []"

fun alias_names :: "field_alias \<Rightarrow> string list" where
  "alias_names No_alias = []"
| "alias_names (Alias s) = [s]"
| "alias_names (Alias_path es) =
     (let parts = leading_names es in if parts \<noteq> [] then [py_join ''.'' parts] else [])"
| "alias_names (Alias_choices cs) = concat (map alias_names cs)"
| "alias_names Other_alias = []"

definition keys_of :: "string \<Rightarrow> pfield \<Rightarrow> string list" where
  "keys_of name info =
     fold (\<lambda>alias keys. fold (\<lambda>key keys. if key \<in> set keys then keys else keys @ [key]) (alias_names alias) keys)
       [pf_validation_alias info, pf_alias info] [name]"

text \<open>\<open>fields_of\<close> and \<open>_root_annotation\<close> of a class, by its name.\<close>

definition fields_of_model :: "models \<Rightarrow> string \<Rightarrow> (string \<times> pfield) list option" where
  "fields_of_model k n = map_of (pm_fields k) n"

definition root_annotation :: "models \<Rightarrow> string \<Rightarrow> pannot option" where
  "root_annotation k n =
     (if pm_is_root k n then
        (case fields_of_model k n of
           None \<Rightarrow> None
         | Some infos \<Rightarrow> map_option pf_annotation (map_of infos ''root''))
      else None)"

fun pydantic_members :: "pannot \<Rightarrow> pannot list" where
  "pydantic_members (P_container _) = []"
| "pydantic_members (P_generic as) = concat (map pydantic_members as)"
| "pydantic_members a = [a]"

fun arguments :: "pannot \<Rightarrow> pannot list" where
  "arguments (P_container as) = as"
| "arguments (P_generic as) = as"
| "arguments _ = []"

text \<open>\<open>_contains_secret\<close> and \<open>_holds_secret_in_container\<close>: the first number is how many more levels
  the guard \<open>depth > 8\<close> admits.\<close>

fun contains_secret :: "models \<Rightarrow> nat \<Rightarrow> pannot \<Rightarrow> string list \<Rightarrow> bool" where
  "contains_secret k 0 a seen = False"
| "contains_secret k (Suc d) a seen =
     (list_ex (\<lambda>c. case c of
         P_secret _ \<Rightarrow> True
       | P_model n \<Rightarrow>
           (case root_annotation k n of
              Some root \<Rightarrow> contains_secret k d root seen
            | None \<Rightarrow>
                if n \<in> set seen then False
                else (case fields_of_model k n of
                    None \<Rightarrow> False
                  | Some infos \<Rightarrow>
                      list_ex (\<lambda>(name, info). contains_secret k d (pf_annotation info) (n # seen)) infos))
       | _ \<Rightarrow> False) (pydantic_members a) \<or>
      list_ex (\<lambda>b. b \<noteq> P_ellipsis \<and> contains_secret k d b seen) (arguments a))"

fun secret_in_container :: "models \<Rightarrow> nat \<Rightarrow> pannot \<Rightarrow> string list \<Rightarrow> bool" where
  "secret_in_container k 0 a seen = False"
| "secret_in_container k (Suc d) a seen =
     (case a of
        P_container as \<Rightarrow> list_ex (\<lambda>b. b \<noteq> P_ellipsis \<and> contains_secret k d b seen) as
      | _ \<Rightarrow> list_ex (\<lambda>b. secret_in_container k d b seen) (arguments a))"

definition depth_allowed :: nat where
  "depth_allowed = 9"

subsection \<open>Secret paths\<close>

text \<open>The loop over a field's members: a secret returns the path alone, whatever was found.\<close>

fun scan_members ::
  "(pannot \<Rightarrow> (string, string list) result) \<Rightarrow> string \<Rightarrow> string list \<Rightarrow> pannot list \<Rightarrow>
   (string, string list) result" where
  "scan_members below path found [] = Inr found"
| "scan_members below path found (P_secret _ # cs) = Inr [path]"
| "scan_members below path found (c # cs) = rbind (below c) (\<lambda>more. scan_members below path (found @ more) cs)"

fun pydantic_secret_paths :: "models \<Rightarrow> nat \<Rightarrow> string \<Rightarrow> string \<Rightarrow> string list \<Rightarrow> (string, string list) result"
  and paths_under :: "models \<Rightarrow> nat \<Rightarrow> pannot \<Rightarrow> string \<Rightarrow> string list \<Rightarrow> (string, string list) result" where
  "pydantic_secret_paths k 0 n pre seen = Inl ''RecursionError''"
| "pydantic_secret_paths k (Suc d) n pre seen =
     (if n \<in> set seen then Inr []
      else (case fields_of_model k n of
          None \<Rightarrow> Inr []
        | Some infos \<Rightarrow>
            rbind (traverse (\<lambda>(annotation, key). paths_under k d annotation (pre @ key) (n # seen))
                (concat (map (\<lambda>(name, info). map (Pair (pf_annotation info)) (keys_of name info)) infos)))
              (\<lambda>paths. Inr (from_keys (concat paths)))))"
| "paths_under k 0 a path seen = Inl ''RecursionError''"
| "paths_under k (Suc d) a path seen =
     (if secret_in_container k depth_allowed a seen then Inr [path]
      else scan_members (\<lambda>c. case c of
          P_model n \<Rightarrow>
            (case root_annotation k n of
               Some root \<Rightarrow> paths_under k d root path (n # seen)
             | None \<Rightarrow>
                 (case fields_of_model k n of
                    None \<Rightarrow> Inr []
                  | Some _ \<Rightarrow> pydantic_secret_paths k d n (path @ ''.'') seen))
        | _ \<Rightarrow> Inr []) path [] (pydantic_members a))"

definition pydantic_schema_secret_paths :: "models \<Rightarrow> nat \<Rightarrow> string \<Rightarrow> (string, string list) result" where
  "pydantic_schema_secret_paths k depth model = pydantic_secret_paths k depth model [] []"

definition pydantic_field_names :: "models \<Rightarrow> string \<Rightarrow> string list" where
  "pydantic_field_names k model =
     (let infos = (case fields_of_model k model of None \<Rightarrow> [] | Some fs \<Rightarrow> fs) in
      fold (\<lambda>(name, info) names.
        fold (\<lambda>key names. if key \<in> set names then names else names @ [key]) (keys_of name info) names) infos [])"

subsection \<open>Leaf paths\<close>

text \<open>\<open>_unwrap\<close> goes through containers too.\<close>

fun pydantic_unwrap :: "pannot \<Rightarrow> pannot list" where
  "pydantic_unwrap (P_container as) = concat (map pydantic_unwrap as)"
| "pydantic_unwrap (P_generic as) = concat (map pydantic_unwrap as)"
| "pydantic_unwrap a = [a]"

definition nested_models :: "models \<Rightarrow> pannot \<Rightarrow> string list" where
  "nested_models k a =
     List.map_filter (\<lambda>c. case c of P_model n \<Rightarrow> if pm_is_model k n \<and> \<not> pm_is_root k n then Some n else None | _ \<Rightarrow> None)
       (pydantic_unwrap a)"

definition model_fields :: "models \<Rightarrow> string \<Rightarrow> (string \<times> pfield) list" where
  "model_fields k n = (case fields_of_model k n of None \<Rightarrow> [] | Some fs \<Rightarrow> fs)"

lemma model_fields_known: "x \<in> set (model_fields k n) \<Longrightarrow> n \<in> fst ` set (pm_fields k)"
  by (auto simp: model_fields_def fields_of_model_def split: option.splits)
    (metis domI dom_map_of_conv_image_fst)

lemma unseen_decreases:
  "n \<notin> set seen \<Longrightarrow> n \<in> A \<Longrightarrow> finite A \<Longrightarrow> card (A - set (n # seen)) < card (A - set seen)"
  by (rule psubset_card_mono) auto

function leaf_paths :: "models \<Rightarrow> string \<Rightarrow> string list \<Rightarrow> string list list" where
  "leaf_paths k n seen =
     (if n \<in> set seen then []
      else concat (map (\<lambda>(name, info).
        let key = hd (keys_of name info); nested = nested_models k (pf_annotation info) in
        if nested \<noteq> [] then map (Cons key) (concat (map (\<lambda>m. leaf_paths k m (n # seen)) nested))
        else [[key]]) (model_fields k n)))"
  by pat_completeness auto

termination
  by (relation "measure (\<lambda>(k, n, seen). card (fst ` set (pm_fields k) - set seen))")
    (auto intro!: unseen_decreases [simplified] model_fields_known)

declare leaf_paths.simps [simp del]

subsection \<open>Keys\<close>

lemma set_add_keys:
  "set (fold (\<lambda>key keys. if key \<in> set keys then keys else keys @ [key]) ks acc) = set acc \<union> set ks"
  by (induction ks arbitrary: acc) auto

lemma hd_add_keys:
  "acc \<noteq> [] \<Longrightarrow> hd (fold (\<lambda>key keys. if key \<in> set keys then keys else keys @ [key]) ks acc) = hd acc \<and>
     fold (\<lambda>key keys. if key \<in> set keys then keys else keys @ [key]) ks acc \<noteq> []"
  by (induction ks arbitrary: acc) auto

lemma set_keys_of:
  "set (keys_of name info) = {name} \<union> set (alias_names (pf_validation_alias info)) \<union> set (alias_names (pf_alias info))"
  by (simp add: keys_of_def set_add_keys)

lemma hd_keys_of: "hd (keys_of name info) = name"
  using hd_add_keys [of "[name]" "alias_names (pf_validation_alias info)"]
  by (simp add: keys_of_def hd_add_keys)

subsection \<open>Where a declaration holds a secret\<close>

text \<open>A chain of nested classes that repeats none, under any key a file may use, down to a secret or
  to a container of secrets or of classes with a secret field.\<close>

inductive model_secret :: "models \<Rightarrow> string list \<Rightarrow> string \<Rightarrow> string list \<Rightarrow> bool"
  and annot_secret :: "models \<Rightarrow> string list \<Rightarrow> pannot \<Rightarrow> string list \<Rightarrow> bool" for k where
  secret_in_field: "n \<notin> set seen \<Longrightarrow> fields_of_model k n = Some infos \<Longrightarrow> (name, info) \<in> set infos \<Longrightarrow>
     key \<in> set (keys_of name info) \<Longrightarrow> annot_secret k (n # seen) (pf_annotation info) segs \<Longrightarrow>
     model_secret k seen n (key # segs)"
| secret_type: "P_secret s \<in> set (pydantic_members a) \<Longrightarrow> annot_secret k seen a []"
| secret_in_root: "P_model n \<in> set (pydantic_members a) \<Longrightarrow> root_annotation k n = Some b \<Longrightarrow>
     annot_secret k (n # seen) b segs \<Longrightarrow> annot_secret k seen a segs"
| secret_in_model: "P_model n \<in> set (pydantic_members a) \<Longrightarrow> root_annotation k n = None \<Longrightarrow>
     model_secret k seen n segs \<Longrightarrow> annot_secret k seen a segs"
| secrets_in_container: "P_container as = a \<or> a = P_generic bs \<and> P_container as \<in> set bs \<Longrightarrow> b \<in> set as \<Longrightarrow>
     P_secret s \<in> set (pydantic_members b) \<Longrightarrow> annot_secret k seen a []"
| models_in_container: "P_container as = a \<or> a = P_generic bs \<and> P_container as \<in> set bs \<Longrightarrow> b \<in> set as \<Longrightarrow>
     P_model n \<in> set (pydantic_members b) \<Longrightarrow> root_annotation k n = None \<Longrightarrow> n \<notin> set seen \<Longrightarrow>
     fields_of_model k n = Some infos \<Longrightarrow> (name, info) \<in> set infos \<Longrightarrow>
     P_secret s \<in> set (pydantic_members (pf_annotation info)) \<Longrightarrow> annot_secret k seen a []"

lemma contains_secret_here: "P_secret s \<in> set (pydantic_members a) \<Longrightarrow> contains_secret k (Suc d) a seen"
  by (force simp: list_ex_iff)

lemma contains_secret_model:
  assumes "P_model n \<in> set (pydantic_members a)" "root_annotation k n = None" "n \<notin> set seen"
    "fields_of_model k n = Some infos" "(name, info) \<in> set infos"
    "P_secret s \<in> set (pydantic_members (pf_annotation info))"
  shows "contains_secret k (Suc (Suc d)) a seen"
proof -
  have "list_ex (\<lambda>(name, info). contains_secret k (Suc d) (pf_annotation info) (n # seen)) infos"
    unfolding list_ex_iff
    by (rule bexI [OF _ assms(5)]) (use contains_secret_here [OF assms(6)] in simp)
  then have "list_ex (\<lambda>c. case c of
         P_secret _ \<Rightarrow> True
       | P_model n \<Rightarrow>
           (case root_annotation k n of
              Some root \<Rightarrow> contains_secret k (Suc d) root seen
            | None \<Rightarrow>
                if n \<in> set seen then False
                else (case fields_of_model k n of
                    None \<Rightarrow> False
                  | Some infos \<Rightarrow>
                      list_ex (\<lambda>(name, info). contains_secret k (Suc d) (pf_annotation info) (n # seen)) infos))
       | _ \<Rightarrow> False) (pydantic_members a)"
    unfolding list_ex_iff by (rule_tac bexI [OF _ assms(1)]) (simp add: assms(2-4) del: contains_secret.simps)
  then show ?thesis by (subst contains_secret.simps(2)) (rule disjI1)
qed

lemma container_holds:
  assumes "P_container as = a \<or> a = P_generic bs \<and> P_container as \<in> set bs" "b \<in> set as" "b \<noteq> P_ellipsis"
    "\<And>d. contains_secret k (Suc (Suc d)) b seen"
  shows "secret_in_container k depth_allowed a seen"
proof -
  have c: "secret_in_container k (Suc (Suc (Suc d))) (P_container as) seen" for d
    using assms(2-4) by (auto simp: list_ex_iff simp del: contains_secret.simps)
  then have "secret_in_container k (Suc (Suc (Suc (Suc d)))) a seen" for d
    using assms(1) by (auto simp: list_ex_iff simp del: contains_secret.simps intro!: bexI [of _ "P_container as"])
  then show ?thesis by (simp add: depth_allowed_def eval_nat_numeral del: secret_in_container.simps)
qed

lemma scan_members_Cons:
  "scan_members below path found (c # cs) =
     (if \<exists>s. c = P_secret s then Inr [path] else rbind (below c) (\<lambda>more. scan_members below path (found @ more) cs))"
  by (cases c) simp_all

lemma scan_members_found:
  "scan_members below path found cs = Inr r \<Longrightarrow> r = [path] \<or> set found \<subseteq> set r"
proof (induction cs arbitrary: found)
  case (Cons c cs)
  then show ?case
    by (cases "\<exists>s. c = P_secret s") (auto simp: scan_members_Cons rbind_Inr_iff dest!: Cons.IH)
qed simp

lemma scan_members_below:
  "scan_members below path found cs = Inr r \<Longrightarrow> c \<in> set cs \<Longrightarrow>
   r = [path] \<or> (\<exists>more. below c = Inr more \<and> set more \<subseteq> set r)"
proof (induction cs arbitrary: found)
  case (Cons b cs)
  show ?case
  proof (cases "\<exists>s. b = P_secret s")
    case True
    with Cons.prems(1) show ?thesis by (simp add: scan_members_Cons)
  next
    case False
    then obtain more where m: "below b = Inr more" "scan_members below path (found @ more) cs = Inr r"
      using Cons.prems(1) by (auto simp: scan_members_Cons rbind_Inr_iff)
    show ?thesis
    proof (cases "c = b")
      case True
      with m scan_members_found [OF m(2)] show ?thesis by auto
    next
      case False
      with Cons m(2) show ?thesis by auto
    qed
  qed
qed simp

lemma scan_members_secret: "scan_members below path found cs = Inr r \<Longrightarrow> P_secret s \<in> set cs \<Longrightarrow> r = [path]"
  by (induction cs arbitrary: found) (auto simp: scan_members_Cons rbind_Inr_iff split: if_splits)

lemma secret_paths_field:
  assumes "pydantic_secret_paths k d n pre seen = Inr ps" "n \<notin> set seen" "fields_of_model k n = Some infos"
    "(name, info) \<in> set infos" "key \<in> set (keys_of name info)"
  shows "\<exists>d' qs. paths_under k d' (pf_annotation info) (pre @ key) (n # seen) = Inr qs \<and> set qs \<subseteq> set ps"
proof (cases d)
  case (Suc d')
  let ?f = "\<lambda>(annotation, key). paths_under k d' annotation (pre @ key) (n # seen)"
  let ?all = "concat (map (\<lambda>(name, info). map (Pair (pf_annotation info)) (keys_of name info)) infos)"
  obtain qss where q: "traverse ?f ?all = Inr qss" "ps = from_keys (concat qss)"
    using assms(1-3) Suc by (auto simp: rbind_Inr_iff)
  have member: "(pf_annotation info, key) \<in> set ?all" using assms(4,5) by force
  obtain qs where "qs \<in> set qss" "?f (pf_annotation info, key) = Inr qs"
    using traverse_member [OF q(1) member] by blast
  then show ?thesis using q(2) by auto
qed (use assms(1) in simp)

lemma paths_under_cases:
  assumes "paths_under k d a path seen = Inr ps"
  shows "ps = [path] \<or> (\<not> secret_in_container k depth_allowed a seen \<and>
    (\<forall>n. P_model n \<in> set (pydantic_members a) \<longrightarrow>
      (\<forall>b. root_annotation k n = Some b \<longrightarrow>
        (\<exists>d' qs. paths_under k d' b path (n # seen) = Inr qs \<and> set qs \<subseteq> set ps)) \<and>
      (root_annotation k n = None \<longrightarrow> fields_of_model k n \<noteq> None \<longrightarrow>
        (\<exists>d' qs. pydantic_secret_paths k d' n (path @ ''.'') seen = Inr qs \<and> set qs \<subseteq> set ps))) \<and>
    (\<forall>s. P_secret s \<notin> set (pydantic_members a)))"
proof (cases d)
  case (Suc d')
  show ?thesis
  proof (cases "secret_in_container k depth_allowed a seen \<or> ps = [path]")
    case True
    with assms Suc show ?thesis by auto
  next
    case False
    let ?below = "\<lambda>c. case c of
          P_model n \<Rightarrow>
            (case root_annotation k n of
               Some root \<Rightarrow> paths_under k d' root path (n # seen)
             | None \<Rightarrow>
                 (case fields_of_model k n of
                    None \<Rightarrow> Inr []
                  | Some _ \<Rightarrow> pydantic_secret_paths k d' n (path @ ''.'') seen))
        | _ \<Rightarrow> Inr []"
    have scan: "scan_members ?below path [] (pydantic_members a) = Inr ps" using assms Suc False by simp
    have "\<exists>more. ?below (P_model n) = Inr more \<and> set more \<subseteq> set ps" if "P_model n \<in> set (pydantic_members a)" for n
      using scan_members_below [OF scan that] False by blast
    moreover have "P_secret s \<notin> set (pydantic_members a)" for s
      using scan_members_secret [OF scan] False by blast
    ultimately show ?thesis using False by fastforce
  qed
qed (use assms in simp)

subsection \<open>Every secret is covered\<close>

lemma model_secret_fields: "model_secret k seen n segs \<Longrightarrow> fields_of_model k n \<noteq> None"
  by (auto elim: model_secret.cases)

lemma secret_cover:
  "model_secret k seen n segs \<Longrightarrow> pydantic_secret_paths k d n pre seen = Inr ps \<Longrightarrow>
     \<exists>i. 0 < i \<and> i \<le> length segs \<and> pre @ py_join ''.'' (take i segs) \<in> set ps"
  "annot_secret k seen a segs \<Longrightarrow> paths_under k d a path seen = Inr ps \<Longrightarrow>
     path \<in> set ps \<or> (\<exists>i. 0 < i \<and> i \<le> length segs \<and> path @ ''.'' @ py_join ''.'' (take i segs) \<in> set ps)"
proof (induction arbitrary: d pre ps and d path ps rule: model_secret_annot_secret.inducts)
  case (secret_in_field n seen infos name info key segs)
  obtain d' qs where q: "paths_under k d' (pf_annotation info) (pre @ key) (n # seen) = Inr qs" "set qs \<subseteq> set ps"
    using secret_paths_field [OF secret_in_field.prems] secret_in_field.hyps secret_in_field.IH(1) by blast
  from secret_in_field.IH(3) [OF q(1)] q(2)
  consider "pre @ key \<in> set ps"
    | i where "0 < i" "i \<le> length segs" "(pre @ key) @ ''.'' @ py_join ''.'' (take i segs) \<in> set ps"
    by blast
  then show ?case
  proof cases
    case 1
    then show ?thesis by (intro exI [of _ 1]) simp
  next
    case 2
    then have "take i segs \<noteq> []" by auto
    with 2 show ?thesis by (intro exI [of _ "Suc i"]) (simp add: py_join_Cons)
  qed
next
  case (secret_type s a seen)
  then show ?case using paths_under_cases by fastforce
next
  case (secret_in_root n a b seen segs)
  show ?case
  proof (cases "ps = [path]")
    case False
    then obtain d' qs where "paths_under k d' b path (n # seen) = Inr qs" "set qs \<subseteq> set ps"
      using paths_under_cases [OF secret_in_root.prems] secret_in_root.hyps secret_in_root.IH(1) by blast
    then show ?thesis using secret_in_root.IH by blast
  qed simp
next
  case (secret_in_model n a seen segs)
  have "fields_of_model k n \<noteq> None" using secret_in_model.hyps secret_in_model.IH model_secret_fields by blast
  show ?case
  proof (cases "ps = [path]")
    case False
    then obtain d' qs where q: "pydantic_secret_paths k d' n (path @ ''.'') seen = Inr qs" "set qs \<subseteq> set ps"
      using paths_under_cases [OF secret_in_model.prems] secret_in_model.hyps secret_in_model.IH(1)
        \<open>fields_of_model k n \<noteq> None\<close> by blast
    show ?thesis using secret_in_model.IH(3) [OF q(1)] q(2) by auto
  qed simp
next
  case (secrets_in_container as a bs b s seen)
  then have "secret_in_container k depth_allowed a seen"
    by (intro container_holds [of as a bs b]) (auto intro: contains_secret_here simp del: contains_secret.simps)
  then show ?case using paths_under_cases [OF secrets_in_container.prems] by auto
next
  case (models_in_container as a bs b n seen infos name info s)
  then have "secret_in_container k depth_allowed a seen"
    by (intro container_holds [of as a bs b]) (auto intro: contains_secret_model simp del: contains_secret.simps)
  then show ?case using paths_under_cases [OF models_in_container.prems] by auto
qed

subsection \<open>The walk returns\<close>

lemma scan_members_succeeds:
  "(\<And>c. c \<in> set cs \<Longrightarrow> \<exists>y. below c = Inr y) \<Longrightarrow> \<exists>r. scan_members below path found cs = Inr r"
proof (induction cs arbitrary: found)
  case (Cons c cs)
  then obtain more where "below c = Inr more" by (meson list.set_intros(1))
  with Cons show ?case by (simp add: scan_members_Cons)
qed simp

lemma walk_returns:
  assumes "\<And>n. root_annotation k n = None"
  shows "2 * card (fst ` set (pm_fields k) - set seen) + 1 \<le> d \<Longrightarrow> \<exists>ps. pydantic_secret_paths k d n pre seen = Inr ps"
    "2 * card (fst ` set (pm_fields k) - set seen) + 2 \<le> d \<Longrightarrow> \<exists>ps. paths_under k d a path seen = Inr ps"
proof (induction d arbitrary: n pre seen a path)
  case (Suc d)
  {
    case 1
    show ?case
    proof (cases "n \<in> set seen \<or> fields_of_model k n = None")
      case True
      then show ?thesis by auto
    next
      case False
      then obtain infos where i: "fields_of_model k n = Some infos" "n \<notin> set seen" by auto
      then have "n \<in> fst ` set (pm_fields k)"
        by (auto simp: fields_of_model_def) (metis domI dom_map_of_conv_image_fst)
      then have "card (fst ` set (pm_fields k) - set (n # seen)) < card (fst ` set (pm_fields k) - set seen)"
        using i(2) by (intro unseen_decreases) simp_all
      then have "2 * card (fst ` set (pm_fields k) - set (n # seen)) + 2 \<le> d" using 1 by simp
      then have "\<exists>ps. paths_under k d b p (n # seen) = Inr ps" for b p by (rule Suc.IH(2))
      then have "\<exists>paths. traverse (\<lambda>(annotation, key). paths_under k d annotation (pre @ key) (n # seen))
          (concat (map (\<lambda>(name, info). map (Pair (pf_annotation info)) (keys_of name info)) infos)) = Inr paths"
        by (intro traverse_succeeds) (simp add: split_beta)
      then show ?thesis using i by auto
    qed
  next
    case 2
    then have "\<exists>ps. pydantic_secret_paths k d m p seen = Inr ps" for m p by (intro Suc.IH(1)) simp
    then have "\<exists>r. scan_members (\<lambda>c. case c of
          P_model n \<Rightarrow>
            (case root_annotation k n of
               Some root \<Rightarrow> paths_under k d root path (n # seen)
             | None \<Rightarrow>
                 (case fields_of_model k n of
                    None \<Rightarrow> Inr []
                  | Some _ \<Rightarrow> pydantic_secret_paths k d n (path @ ''.'') seen))
        | _ \<Rightarrow> Inr []) path [] (pydantic_members a) = Inr r"
      by (intro scan_members_succeeds) (auto simp: assms split: pannot.split option.split)
    then show ?case by simp
  }
qed simp_all

subsection \<open>Leaves\<close>

text \<open>A chain of fields, each step the field's own name.\<close>

inductive leaf_chain :: "models \<Rightarrow> string \<Rightarrow> string list \<Rightarrow> bool" for k where
  leaf_here: "(name, info) \<in> set (model_fields k n) \<Longrightarrow> nested_models k (pf_annotation info) = [] \<Longrightarrow>
     leaf_chain k n [name]"
| leaf_below: "(name, info) \<in> set (model_fields k n) \<Longrightarrow> m \<in> set (nested_models k (pf_annotation info)) \<Longrightarrow>
     leaf_chain k m segs \<Longrightarrow> leaf_chain k n (name # segs)"

lemma leaf_paths_chain: "segs \<in> set (leaf_paths k n seen) \<Longrightarrow> leaf_chain k n segs"
proof (induction k n seen arbitrary: segs rule: leaf_paths.induct)
  case (1 k n seen)
  then have "n \<notin> set seen" by (auto simp: leaf_paths.simps [of k n seen])
  with 1(2) obtain name info where f: "(name, info) \<in> set (model_fields k n)"
    and s: "segs \<in> set (let key = hd (keys_of name info); nested = nested_models k (pf_annotation info) in
        if nested \<noteq> [] then map (Cons key) (concat (map (\<lambda>m. leaf_paths k m (n # seen)) nested)) else [[key]])"
    unfolding leaf_paths.simps [of k n seen] by auto
  show ?case
  proof (cases "nested_models k (pf_annotation info) = []")
    case True
    with f s show ?thesis by (auto simp: hd_keys_of intro: leaf_here)
  next
    case False
    with s obtain m below where b: "segs = name # below" "m \<in> set (nested_models k (pf_annotation info))"
      "below \<in> set (leaf_paths k m (n # seen))"
      by (auto simp: hd_keys_of)
    have "leaf_chain k m below"
      using 1(1) [OF \<open>n \<notin> set seen\<close> f refl refl refl] False b(2,3) by blast
    with f b show ?thesis by (auto intro: leaf_below)
  qed
qed

subsection \<open>Properties\<close>

definition shop_models :: models where
  "shop_models = \<lparr>pm_fields =
     [(''Shop'', [(''db'', \<lparr>pf_annotation = P_generic [P_model ''Login'', P_class ''NoneType''],
                            pf_validation_alias = Alias_choices [Alias ''database'', Alias_path [Some ''stores'', Some ''db'', None]],
                            pf_alias = No_alias\<rparr>)]),
      (''Login'', [(''password'', \<lparr>pf_annotation = P_secret ''SecretStr'', pf_validation_alias = Alias ''pass'',
                                  pf_alias = No_alias\<rparr>)])],
     pm_is_root = (\<lambda>_. False), pm_is_model = (\<lambda>_. True)\<rparr>"

text \<open>Every secret of a Pydantic declaration is covered under every key a file may spell it with:
  when the walk answers a redaction list, the list holds the path of the secret, or a path above
  it, for any choice of name or alias at each step, through unions, \<open>RootModel\<close>s and nested
  classes that repeat none, and for containers of secrets or of classes with a secret field.\<close>

theorem aliased_secret_is_masked:
  assumes "model_secret k [] model segs" "pydantic_schema_secret_paths k depth model = Inr paths"
  shows "\<exists>i. 0 < i \<and> i \<le> length segs \<and> py_join ''.'' (take i segs) \<in> set paths"
  using secret_cover(1) [OF assms(1), of depth "[]" paths] assms(2)
  by (simp add: pydantic_schema_secret_paths_def)

lemma shop_secret: "model_secret shop_models [] ''Shop'' [''stores.db'', ''pass'']"
proof -
  have f: "fields_of_model shop_models ''Login'' = Some [(''password'',
      \<lparr>pf_annotation = P_secret ''SecretStr'', pf_validation_alias = Alias ''pass'', pf_alias = No_alias\<rparr>)]"
    by (simp add: fields_of_model_def shop_models_def)
  have "model_secret shop_models [''Shop''] ''Login'' [''pass'']"
    by (rule secret_in_field [OF _ f]) (auto simp: set_keys_of intro: secret_type)
  moreover have "root_annotation shop_models ''Login'' = None" by (simp add: root_annotation_def shop_models_def)
  ultimately show ?thesis
    by - (rule secret_in_field, simp, simp add: fields_of_model_def shop_models_def, simp,
      simp add: set_keys_of, auto intro: secret_in_model)
qed

lemma shop_no_roots: "root_annotation shop_models n = None"
  by (simp add: root_annotation_def shop_models_def)

theorem aliased_secret_is_masked_witness:
  "\<exists>paths. pydantic_schema_secret_paths shop_models 20 ''Shop'' = Inr paths \<and>
     (\<exists>i. 0 < i \<and> i \<le> length [''stores.db'', ''pass''] \<and> py_join ''.'' (take i [''stores.db'', ''pass'']) \<in> set paths)"
proof -
  have "card (fst ` set (pm_fields shop_models) - set []) \<le> 2"
    by (simp add: shop_models_def card_insert_if)
  then obtain paths where "pydantic_schema_secret_paths shop_models 20 ''Shop'' = Inr paths"
    using walk_returns(1) [OF shop_no_roots, of "[]" 20 "''Shop''" "[]"]
    by (auto simp: pydantic_schema_secret_paths_def)
  with aliased_secret_is_masked [OF shop_secret this] show ?thesis by blast
qed

text \<open>C30: The walk returns: without \<open>RootModel\<close>s, self-referencing and mutually referencing classes
  included, twice as many nested calls as there are classes are enough for it to answer.\<close>

theorem secret_walk_returns:
  assumes "\<And>n. root_annotation k n = None" "2 * length (pm_fields k) + 1 \<le> depth"
  shows "\<exists>paths. pydantic_schema_secret_paths k depth model = Inr paths"
proof -
  have "card (fst ` set (pm_fields k)) \<le> length (pm_fields k)"
    by (metis card_length length_map set_map)
  then show ?thesis
    using walk_returns(1) [OF assms(1), of "[]" depth model "[]"] assms(2)
    by (simp add: pydantic_schema_secret_paths_def)
qed

theorem secret_walk_returns_witness:
  "\<exists>paths. pydantic_schema_secret_paths shop_models 5 ''Shop'' = Inr paths"
  by (rule secret_walk_returns [OF shop_no_roots]) (simp add: shop_models_def)

text \<open>A \<open>RootModel\<close> whose content is a union with itself is walked for ever: the class is added to
  those seen and never looked up, so every depth is exhausted.\<close>

lemma self_root_overflows:
  assumes "root_annotation k n = Some (P_generic [P_model n, P_class c])"
  shows "paths_under k d (P_generic [P_model n, P_class c]) path seen = Inl ''RecursionError''"
proof (induction d arbitrary: seen)
  case (Suc d)
  have "\<not> secret_in_container k e (P_generic [P_model n, P_class c]) seen" for e
  proof (cases e)
    case (Suc e')
    then show ?thesis by (cases e') simp_all
  qed simp
  with Suc show ?case by (simp add: assms)
qed simp

text \<open>Every path that \<open>from_settings\<close> binds follows the declaration: a chain of the model's own
  fields down to one that holds no model. The step is always the field's Python name, also where
  the declaration gives the field an alias.\<close>

theorem leaf_paths_follow_the_fields:
  "segs \<in> set (leaf_paths k model []) \<Longrightarrow> leaf_chain k model segs \<and> segs \<noteq> []"
  using leaf_paths_chain [of segs k model "[]"] by (auto elim: leaf_chain.cases)

theorem leaf_paths_follow_the_fields_witness:
  "leaf_chain shop_models ''Shop'' [''db'', ''password''] \<and> [''db'', ''password''] \<noteq> []"
proof (rule leaf_paths_follow_the_fields)
  show "[''db'', ''password''] \<in> set (leaf_paths shop_models ''Shop'' [])"
    by (simp add: leaf_paths.simps shop_models_def model_fields_def fields_of_model_def nested_models_def
        map_filter_simps hd_keys_of Let_def)
qed

subsection \<open>Validation, which is Pydantic's own\<close>

definition pydantic_validate ::
  "bool \<Rightarrow> ('d \<Rightarrow> ('e, 'm) result) \<Rightarrow> ('d \<Rightarrow> ('e, 'm) result) \<Rightarrow> 'd \<Rightarrow> ('e, 'm) result" where
  "pydantic_validate is_base_model model_validate validate_python data =
     (if is_base_model then model_validate data else validate_python data)"

end
