(* ===== verification/Declarative.thy ===== *)
theory Declarative
  imports Config Pydantic
begin

section \<open>Declarations: \<open>_schema.py\<close>, \<open>_settings.py\<close>, \<open>from_settings\<close>, \<open>_decorator.py\<close>\<close>

text \<open>
  What builds a configuration from a declaration instead of a chain of calls: the choice of the
  schema adapter, the translation of a \<open>BaseSettings\<close> class into engine sources, and the class
  decorator. A class is what the code asks of it: its names along the MRO, its attributes.
  \<open>model_config\<close> is a dictionary of values, \<open>str\<close> of a value that is not a string an argument.
  Warnings are not modelled, and the message of \<open>schema_for\<close> is without the \<open>repr\<close> of
  the class.
\<close>

subsection \<open>Which adapter\<close>

record class_info =
  ci_name :: string
  ci_repr :: string
  ci_is_type :: bool
  ci_module :: string
  ci_mro :: "(string \<times> string) list"
  ci_has_validator :: bool
  ci_has_dataclass_fields :: bool
  ci_is_values :: bool

definition is_secret_type :: "class_info \<Rightarrow> bool" where
  "is_secret_type c \<longleftrightarrow>
     ci_is_type c \<and> py_startswith (ci_module c) ''pydantic'' \<and> ci_name c \<in> {''SecretStr'', ''SecretBytes''}"

definition mro_has :: "string \<Rightarrow> string \<Rightarrow> class_info \<Rightarrow> bool" where
  "mro_has name module c = list_ex (\<lambda>(n, m). n = name \<and> py_startswith m module) (ci_mro c)"

definition is_pydantic_model :: "class_info \<Rightarrow> bool" where
  "is_pydantic_model c \<longleftrightarrow> ci_is_type c \<and> mro_has ''BaseModel'' ''pydantic'' c"

definition is_pydantic_dataclass :: "class_info \<Rightarrow> bool" where
  "is_pydantic_dataclass c \<longleftrightarrow> ci_is_type c \<and> ci_has_validator c"

definition is_msgspec_struct :: "class_info \<Rightarrow> bool" where
  "is_msgspec_struct c \<longleftrightarrow> ci_is_type c \<and> mro_has ''Struct'' ''msgspec'' c"

definition is_dataclass_type :: "class_info \<Rightarrow> bool" where
  "is_dataclass_type c \<longleftrightarrow> ci_is_type c \<and> ci_has_dataclass_fields c"

definition is_values_type :: "class_info \<Rightarrow> bool" where
  "is_values_type c \<longleftrightarrow> ci_is_type c \<and> ci_is_values c"

datatype adapter = Values_adapter "string list" | Pydantic_adapter | Msgspec_adapter | Dataclass_adapter

definition schema_for :: "class_info \<Rightarrow> string list option \<Rightarrow> (config_error, adapter) result" where
  "schema_for c secrets =
     (if is_values_type c then Inr (Values_adapter (case secrets of None \<Rightarrow> [] | Some s \<Rightarrow> s))
      else if is_pydantic_model c \<or> is_pydantic_dataclass c then Inr Pydantic_adapter
      else if is_msgspec_struct c then Inr Msgspec_adapter
      else if is_dataclass_type c then Inr Dataclass_adapter
      else Inl (ConfigTypeError (''a configuration needs a schema class '' @ em_dash @ '' a Pydantic model, a '' @
          ''dataclass, a msgspec Struct, or Values for one with no schema '' @ em_dash @ '' not '' @ ci_repr c)))"

subsection \<open>Settings classes\<close>

definition is_settings :: "class_info \<Rightarrow> bool" where
  "is_settings c = mro_has ''BaseSettings'' ''pydantic_settings'' c"

record settings_class =
  se_class :: class_info
  se_config :: "(string, pyval) dict"
  se_customised :: bool

definition settings_sourcing :: "(string, pyval) dict" where
  "settings_sourcing =
     [(''env_prefix'', PStr []), (''env_file'', PNone), (''env_nested_delimiter'', PNone), (''secrets_dir'', PNone),
      (''toml_file'', PNone), (''json_file'', PNone), (''yaml_file'', PNone), (''cli_parse_args'', PNone)]"

definition config_get :: "(string, pyval) dict \<Rightarrow> string \<Rightarrow> pyval \<Rightarrow> pyval" where
  "config_get d name dflt = (case map_of d name of None \<Rightarrow> dflt | Some v \<Rightarrow> v)"

text \<open>\<open>_declared_sourcing\<close>, which the constructor warns about.\<close>

definition declared_sourcing :: "settings_class \<Rightarrow> (string, pyval) dict" where
  "declared_sourcing s =
     List.map_filter (\<lambda>(name, absent).
        if config_get (se_config s) name absent \<noteq> absent then Some (name, config_get (se_config s) name absent) else None)
       settings_sourcing @
     (if se_customised s then [(''settings_customise_sources'', PStr ''overridden'')] else [])"

fun str_of :: "(pyval \<Rightarrow> string) \<Rightarrow> pyval \<Rightarrow> string" where
  "str_of str (PStr s) = s"
| "str_of str v = str v"

definition as_paths :: "(pyval \<Rightarrow> string) \<Rightarrow> pyval \<Rightarrow> string list" where
  "as_paths str v =
     (case v of
        PNone \<Rightarrow> []
      | PList xs \<Rightarrow> map (str_of str) xs
      | PTuple xs \<Rightarrow> map (str_of str) xs
      | PSet xs \<Rightarrow> map (str_of str) xs
      | PFrozen xs \<Rightarrow> map (str_of str) xs
      | PDict d \<Rightarrow> map fst d
      | _ \<Rightarrow> [str_of str v])"

fun truthy :: "pyval \<Rightarrow> bool" where
  "truthy PNone = False"
| "truthy (PBool b) = b"
| "truthy (PInt n) = (n \<noteq> 0)"
| "truthy (PStr s) = (s \<noteq> [])"
| "truthy (PList xs) = (xs \<noteq> [])"
| "truthy (PTuple xs) = (xs \<noteq> [])"
| "truthy (PDict d) = (d \<noteq> [])"
| "truthy (PSet xs) = (xs \<noteq> [])"
| "truthy (PFrozen xs) = (xs \<noteq> [])"
| "truthy _ = True"

text \<open>The sources, in the order of the loops, and the variable of a leaf.\<close>

definition settings_sources :: "(pyval \<Rightarrow> string) \<Rightarrow> (string, pyval) dict \<Rightarrow> source list" where
  "settings_sources str config =
     map Src_file (concat (map (\<lambda>name. as_paths str (config_get config name PNone))
       [''toml_file'', ''json_file'', ''yaml_file''])) @
     map Src_env_file (as_paths str (config_get config ''env_file'' PNone)) @
     map Src_secrets_dir (as_paths str (config_get config ''secrets_dir'' PNone))"

definition settings_variable :: "(pyval \<Rightarrow> string) \<Rightarrow> (string, pyval) dict \<Rightarrow> string list \<Rightarrow> string" where
  "settings_variable str config segments =
     (let pre = str_of str (config_get config ''env_prefix'' (PStr []));
          declared = config_get config ''env_nested_delimiter'' PNone;
          delimiter = (if truthy declared then str_of str declared else ''_'');
          variable = pre @ py_join delimiter segments
      in if truthy (config_get config ''case_sensitive'' (PBool False)) then variable else py_upper variable)"

text \<open>A chain of fluent calls: the first that raises ends it.\<close>

fun run_fluents :: "('t, 'm) fluent list \<Rightarrow> ('t, 'm) fluent" where
  "run_fluents [] c = (Inr (), c)"
| "run_fluents (f # fs) c = (case f c of (Inl e, c1) \<Rightarrow> (Inl e, c1) | (Inr _, c1) \<Rightarrow> run_fluents fs c1)"

definition from_settings ::
  "('t, 'm) env \<Rightarrow> (pyval \<Rightarrow> string) \<Rightarrow> settings_class \<Rightarrow> string list list \<Rightarrow> string \<Rightarrow> nat option \<Rightarrow>
   schema \<Rightarrow> (config_error, ('t, 'm) config) result" where
  "from_settings env str s leaves key executor schema =
     (let name = ci_name (se_class s); config = se_config s;
          refused = (if config_get config ''cli_parse_args'' PNone \<noteq> PNone then [''cli_parse_args''] else []) @
            (if se_customised s then [''settings_customise_sources''] else [])
      in if \<not> is_settings (se_class s) then Inl (ConfigTypeError (name @
            '' is not a BaseSettings subclass; plain models declare their sources on the configuration''))
         else if refused \<noteq> [] then
           Inl (ConfigValueError (name @ '' declares '' @ py_join '', '' refused @ 
              '', which has no engine equivalent; declare the sources on the configuration instead of translating this class''))
         else
           (let (r, c) = run_fluents (map config_source (settings_sources str config) @
                  map (\<lambda>segments. config_bind_env env (py_join ''.'' segments)
                    (settings_variable str config segments)) leaves)
                (config_new name key executor schema [])
            in case r of Inl e \<Rightarrow> Inl e | Inr _ \<Rightarrow> Inr c))"

subsection \<open>The decorator\<close>

record class_declaration =
  de_key :: string
  de_files :: "string list"
  de_discover :: "(string \<times> string list) option"
  de_env :: "string option"
  de_nest :: "string option"
  de_allow_empty_env :: bool
  de_strict_env :: bool
  de_whole_document :: bool
  de_env_files :: "string list"
  de_profile_env :: "string option"
  de_cache :: "string option"
  de_cache_mode :: string
  de_init :: bool
  de_watch :: bool

text \<open>The class that is decorated: whether it inherits \<open>Configured\<close>, the configuration in its own
  \<open>__dict__\<close>, and the readers attached to it.\<close>

record ('t, 'm) decorated =
  dm_name :: string
  dm_fields :: "string list"
  dm_configured :: bool
  dm_config :: "('t, 'm) config option"
  dm_readers :: "string list"

datatype decorator_error = Declaration_refused string | Declaration_failed config_error

definition attached_names :: "string list" where
  "attached_names = [''config'', ''current'', ''try_current'', ''reload'', ''source_of'', ''explain'']"

fun option_list :: "'a option \<Rightarrow> 'a list" where
  "option_list None = []"
| "option_list (Some x) = [x]"

definition declared_calls :: "class_declaration \<Rightarrow> ('t, 'm) fluent list" where
  "declared_calls d =
     map config_file (de_files d) @
     map (\<lambda>(name, paths). config_discover name paths) (option_list (de_discover d)) @
     map config_env (option_list (de_env d)) @
     map config_nest (option_list (de_nest d)) @
     (if de_allow_empty_env d then [config_allow_empty_env] else []) @
     (if de_strict_env d then [config_strict_env] else []) @
     (if de_whole_document d then [config_whole_document] else []) @
     map config_env_file (de_env_files d) @
     map config_profile_env (option_list (de_profile_env d)) @
     map (\<lambda>path. config_cache path (de_cache_mode d)) (option_list (de_cache d))"

text \<open>\<open>config.watch(watch).detach()\<close>.\<close>

definition watch_detached :: "('t, 'm) env \<Rightarrow> ('t, 'm) fluent" where
  "watch_detached env c =
     (case config_watch env c of
        (Inl e, c1) \<Rightarrow> (Inl e, c1)
      | (Inr i, c1) \<Rightarrow> (Inr (), c1\<lparr>c_watches := (c_watches c1)[i := watch_detach (c_watches c1 ! i)]\<rparr>))"

definition attach ::
  "('t, 'm) config \<Rightarrow> ('t, 'm) decorated \<Rightarrow> ('t, 'm) decorated" where
  "attach c model =
     model\<lparr>dm_config := Some c,
       dm_readers := (if dm_configured model then dm_readers model else tl attached_names)\<rparr>"

definition decorate ::
  "('t, 'm) env \<Rightarrow> 't resolution \<Rightarrow> schema \<Rightarrow> class_declaration \<Rightarrow> ('t, 'm) decorated \<Rightarrow>
   (decorator_error, unit) result \<times> ('t, 'm) decorated" where
  "decorate env res schema d model =
     (let collisions = filter (\<lambda>name. name \<in> set (dm_fields model)) attached_names in
      if dm_config model \<noteq> None then
        (Inl (Declaration_refused (dm_name model @ '' already has a configuration attached; one declaration per class'')), model)
      else if collisions \<noteq> [] then
        (Inl (Declaration_refused (dm_name model @ '' declares '' @ py_join '', '' collisions @
           '', which the decorator would shadow; use DynamicConfig(...) directly for this model'')), model)
      else
        (case run_fluents (declared_calls d) (config_new (dm_name model) (de_key d) None schema []) of
           (Inl e, c) \<Rightarrow> (Inl (Declaration_failed e), model)
         | (Inr _, c) \<Rightarrow>
             (let (r, c1) = run_fluents ((if de_init d then [config_init env res] else []) @
                    (if de_watch d then [watch_detached env] else [])) c
              in (case r of Inl e \<Rightarrow> Inl (Declaration_failed e) | Inr _ \<Rightarrow> Inr (), attach c1 model))))"

text \<open>The readers, inherited or attached, go through the configuration.\<close>

text \<open>The readers go through the attribute \<open>config\<close>, which a class that inherits \<open>Configured\<close> does not
  have before it is decorated; a class that does not has no reader at all before.\<close>

datatype reader_error = Attribute_error string | Reader_failed config_error

definition class_config :: "string \<Rightarrow> ('t, 'm) decorated \<Rightarrow> (reader_error, ('t, 'm) config) result" where
  "class_config reader model =
     (if \<not> dm_configured model \<and> reader \<notin> set (dm_readers model) then Inl (Attribute_error reader)
      else case dm_config model of None \<Rightarrow> Inl (Attribute_error ''config'') | Some c \<Rightarrow> Inr c)"

definition class_current :: "('t, 'm) decorated \<Rightarrow> (reader_error, 'm) result" where
  "class_current model =
     rbind (class_config ''current'' model) (\<lambda>c. map_sum Reader_failed id (config_current c))"

definition class_try_current :: "('t, 'm) decorated \<Rightarrow> (reader_error, 'm option) result" where
  "class_try_current model =
     rbind (class_config ''try_current'' model) (\<lambda>c. Inr (config_try_current c))"

text \<open>An operation through the class, that changes the configuration it holds.\<close>

definition class_runs ::
  "string \<Rightarrow> (('t, 'm) config \<Rightarrow> (config_error, 'a) result \<times> ('t, 'm) config) \<Rightarrow> ('t, 'm) decorated \<Rightarrow>
   (reader_error, 'a) result \<times> ('t, 'm) decorated" where
  "class_runs reader work model =
     (case class_config reader model of
        Inl e \<Rightarrow> (Inl e, model)
      | Inr c \<Rightarrow> (let (r, c1) = work c in (map_sum Reader_failed id r, model\<lparr>dm_config := Some c1\<rparr>)))"

definition class_reload ::
  "('t, 'm) env \<Rightarrow> 't resolution \<Rightarrow> ('t, 'm) decorated \<Rightarrow> (reader_error, unit) result \<times> ('t, 'm) decorated" where
  "class_reload env res = class_runs ''reload'' (config_reload env res)"

lemma attached_reader:
  "reader \<in> set (tl attached_names) \<Longrightarrow> class_config reader (attach c model) = Inr c"
  by (simp add: class_config_def attach_def)

subsection \<open>Chains of sources\<close>

lemma config_source_building:
  "k_engine (c_core c) = Building srcs \<Longrightarrow>
   config_source src c = (Inr (), c\<lparr>c_core := (c_core c)\<lparr>k_engine := Building (srcs @ [src])\<rparr>\<rparr>)"
  by (simp add: config_source_def core_configure_def Let_def)

lemma run_fluents_sources:
  "k_engine (c_core c) = Building srcs \<Longrightarrow>
   run_fluents (map config_source ss) c =
     (Inr (), c\<lparr>c_core := (c_core c)\<lparr>k_engine := Building (srcs @ ss)\<rparr>\<rparr>)"
proof (induction ss arbitrary: c srcs)
  case Nil
  then show ?case by simp
next
  case (Cons x xs)
  show ?case by (simp add: config_source_building [OF Cons.prems] Cons.IH)
qed

lemma config_new_engine [simp]:
  "k_engine (c_core (config_new m key ex schema secrets)) = Building []"
  "k_bindings (c_core (config_new m key ex schema secrets)) = []"
  "c_cached (config_new m key ex schema secrets) = None"
  by (simp_all add: config_new_def core_on_reload_def core_new_def)

lemma run_fluents_append:
  "run_fluents (fs @ gs) c =
     (case run_fluents fs c of (Inl e, c1) \<Rightarrow> (Inl e, c1) | (Inr _, c1) \<Rightarrow> run_fluents gs c1)"
  by (induction fs arbitrary: c) (simp_all split: prod.split sum.split)

lemma bind_env_cases:
  "config_bind_env env path variable c =
     (case e_refuses_binding env path variable of
        Some e \<Rightarrow> (Inl (CoreExn e), c)
      | None \<Rightarrow> (Inr (), c\<lparr>c_core := (c_core c)\<lparr>k_bindings := k_bindings (c_core c) @ [(path, variable)]\<rparr>\<rparr>))"
  by (simp add: config_bind_env_def core_bind_env_def run_core_def Let_def split: option.split)

text \<open>The bindings are made in order; the first that is refused ends the chain.\<close>

lemma run_fluents_bound:
  "list_all (\<lambda>x. e_refuses_binding env (f x) (g x) = None) xs \<Longrightarrow>
   run_fluents (map (\<lambda>x. config_bind_env env (f x) (g x)) xs) c =
     (Inr (), c\<lparr>c_core := (c_core c)\<lparr>k_bindings := k_bindings (c_core c) @ map (\<lambda>x. (f x, g x)) xs\<rparr>\<rparr>)"
  by (induction xs arbitrary: c) (simp_all add: bind_env_cases)

lemma run_fluents_refused_binding:
  "\<not> list_all (\<lambda>x. e_refuses_binding env (f x) (g x) = None) xs \<Longrightarrow>
   fst (run_fluents (map (\<lambda>x. config_bind_env env (f x) (g x)) xs) c) =
     Inl (CoreExn (hd (List.map_filter (\<lambda>x. e_refuses_binding env (f x) (g x)) xs)))"
  by (induction xs arbitrary: c) (auto simp: bind_env_cases List.map_filter_simps split: option.split)

subsection \<open>Settings classes are translated, or refused\<close>


text \<open>Two leaves never share a variable when names keep their case and a one-character delimiter
  was declared that no name contains.\<close>

theorem settings_variables_are_distinct:
  assumes "settings_variable str config xs = settings_variable str config ys"
    and "truthy (config_get config ''case_sensitive'' (PBool False))"
    and "config_get config ''env_nested_delimiter'' PNone = PStr [d]"
    and "xs \<noteq> []" "ys \<noteq> []" "\<And>x. x \<in> set xs \<union> set ys \<Longrightarrow> d \<notin> set x"
  shows "xs = ys"
proof -
  have "py_join [d] xs = py_join [d] ys"
    using assms(1-3) by (simp add: settings_variable_def)
  then have "py_split d (py_join [d] xs) = py_split d (py_join [d] ys)" by simp
  with assms(4-6) show ?thesis by (simp add: py_split_join)
qed

text \<open>Without a declared delimiter the segments are joined with an underscore, so a nested leaf
  and a top-level one can be bound to the same variable.\<close>

lemma settings_variables_collide:
  "settings_variable str [] [''pool'', ''size''] = settings_variable str [] [''pool_size'']"
  by (simp add: settings_variable_def config_get_def)

subsection \<open>The adapter is chosen by what validates\<close>

lemma pydantic_before_dataclass:
  "\<not> is_values_type c \<Longrightarrow> is_pydantic_dataclass c \<Longrightarrow> is_dataclass_type c \<Longrightarrow>
   schema_for c secrets = Inr Pydantic_adapter"
  by (simp add: schema_for_def)

text \<open>A class has an adapter exactly when it is one of the four kinds.\<close>

lemma schema_for_total:
  "(\<exists>a. schema_for c secrets = Inr a) \<longleftrightarrow>
   is_values_type c \<or> is_pydantic_model c \<or> is_pydantic_dataclass c \<or> is_msgspec_struct c \<or> is_dataclass_type c"
  by (auto simp: schema_for_def)

subsection \<open>The decorator\<close>

text \<open>What a declaration says in sources, in the order the engine merges them.\<close>

definition declared_sources :: "class_declaration \<Rightarrow> source list" where
  "declared_sources d =
     map Src_file (de_files d) @
     map (\<lambda>(name, paths). Src_discover name paths) (option_list (de_discover d)) @
     map Src_env (option_list (de_env d)) @ map Src_nest (option_list (de_nest d)) @
     filter (\<lambda>s. s = Src_allow_empty_env \<and> de_allow_empty_env d \<or> s = Src_strict_env \<and> de_strict_env d \<or>
       s = Src_whole_document \<and> de_whole_document d) [Src_allow_empty_env, Src_strict_env, Src_whole_document] @
     map Src_env_file (de_env_files d) @ map Src_profile_env (option_list (de_profile_env d)) @
     map (\<lambda>path. Src_cache path (de_cache_mode d)) (option_list (de_cache d))"

lemma config_cache_source:
  "mode \<in> {''redacted'', ''full'', ''fingerprint''} \<Longrightarrow> config_cache path mode = config_source (Src_cache path mode)"
  by (rule ext) (auto simp: config_cache_def config_source_def core_cache_def)

lemma declared_calls_sources:
  assumes "de_cache d \<noteq> None \<Longrightarrow> de_cache_mode d \<in> {''redacted'', ''full'', ''fingerprint''}"
  shows "declared_calls d = map config_source (declared_sources d)"
proof -
  have "map (\<lambda>path. config_cache path (de_cache_mode d)) (option_list (de_cache d)) =
      map (\<lambda>path. config_source (Src_cache path (de_cache_mode d))) (option_list (de_cache d))"
    using assms by (cases "de_cache d") (simp_all add: config_cache_source)
  then show ?thesis
    by (simp add: declared_calls_def declared_sources_def comp_def split_def
      config_file_def [abs_def] config_discover_def [abs_def] config_env_def [abs_def] config_nest_def [abs_def]
      config_allow_empty_env_def [abs_def] config_strict_env_def [abs_def] config_whole_document_def [abs_def]
      config_env_file_def [abs_def] config_profile_env_def [abs_def])
qed

text \<open>An accepted declaration that does not load attaches a configuration with exactly the
  declared sources, in the order of the documentation, and nothing installed.\<close>

theorem decorated_class_has_the_declared_sources:
  fixes env :: "('t, 'm) env"
  assumes "dm_config model = None" "set (dm_fields model) \<inter> set attached_names = {}"
    and "de_cache d \<noteq> None \<Longrightarrow> de_cache_mode d \<in> {''redacted'', ''full'', ''fingerprint''}"
    and "\<not> de_init d" "\<not> de_watch d"
  shows "\<exists>c. decorate env res schema d model = (Inr (), attach c model) \<and>
    k_engine (c_core c) = Building (declared_sources d) \<and> config_key c = de_key d \<and>
    class_try_current (attach c model) = Inr None"
proof -
  have clear: "filter (\<lambda>name. name \<in> set (dm_fields model)) attached_names = []"
    using assms(2) by (auto simp: filter_empty_conv)
  let ?new = "config_new (dm_name model) (de_key d) None schema [] :: ('t, 'm) config"
  have "config_key ?new = de_key d"
    by (simp add: config_key_def config_new_def core_on_reload_def core_new_def)
  moreover have "decorate env res schema d model = (Inr (), attach
      (?new\<lparr>c_core := (c_core ?new)\<lparr>k_engine := Building (declared_sources d)\<rparr>\<rparr>) model)"
    using assms(1,4,5) clear by (simp add: decorate_def declared_calls_sources [OF assms(3)] run_fluents_sources)
  ultimately show ?thesis
    by (auto simp: config_key_def class_try_current_def attached_reader attached_names_def rbind_def config_try_current_def)
qed

lemma decorate_refuses:
  "dm_config model \<noteq> None \<Longrightarrow>
   \<exists>message. decorate env res schema d model = (Inl (Declaration_refused message), model)"
  by (simp add: decorate_def)

text \<open>One declaration per class: whatever the first decoration did, either it left the class as
  it was or the class holds a configuration now, and then every later decoration is refused
  and changes nothing. A first load that fails is of the second kind.\<close>

theorem one_declaration_per_class:
  assumes "decorate env res schema d model = (r, model')"
  shows "model' = model \<and> (\<exists>e. r = Inl e) \<or>
    dm_config model' \<noteq> None \<and>
    (\<forall>env' res' schema' d'. \<exists>message.
       decorate env' res' schema' d' model' = (Inl (Declaration_refused message), model'))"
proof (cases "model' = model \<and> (\<exists>e. r = Inl e)")
  case False
  with assms obtain c1 where "model' = attach c1 model"
    by (auto simp: decorate_def Let_def split: if_splits sum.splits prod.splits)
  then have "dm_config model' \<noteq> None" by (simp add: attach_def)
  then show ?thesis by (simp add: decorate_refuses)
qed simp

subsection \<open>At concrete inputs\<close>

theorem settings_variables_are_distinct_witness:
  "[''pool'', ''size''] = [''pool'', ''size''] \<and>
   settings_variable (\<lambda>_. []) [(''case_sensitive'', PBool True), (''env_nested_delimiter'', PStr ''/'')]
     [''pool'', ''size''] = ''pool/size''"
proof
  show "[''pool'', ''size''] = [''pool'', ''size'']"
    by (rule settings_variables_are_distinct
      [of "\<lambda>_. []" "[(''case_sensitive'', PBool True), (''env_nested_delimiter'', PStr ''/'')]" _ _ "CHR ''/''"])
      (auto simp: config_get_def)
qed (simp add: settings_variable_def config_get_def)

definition sample_declaration :: class_declaration where
  "sample_declaration =
     \<lparr>de_key = ''db'', de_files = [''config.toml''], de_discover = None, de_env = Some ''APP_'', de_nest = None,
      de_allow_empty_env = False, de_strict_env = True, de_whole_document = False, de_env_files = [],
      de_profile_env = None, de_cache = Some ''db.cache'', de_cache_mode = ''redacted'', de_init = False,
      de_watch = False\<rparr>"

definition sample_class :: "(nat, nat) decorated" where
  "sample_class = \<lparr>dm_name = ''Database'', dm_fields = [''host'', ''port''], dm_configured = True, dm_config = None,
     dm_readers = []\<rparr>"

definition database_schema :: schema where
  "database_schema = \<lparr>sc_secret_paths = [], sc_field_names = [''host'', ''port''], sc_is_values = False\<rparr>"

theorem decorated_class_has_the_declared_sources_witness:
  "\<exists>c. decorate sample_env (Inr 7) database_schema sample_declaration sample_class = (Inr (), attach c sample_class) \<and>
     k_engine (c_core c) =
       Building [Src_file ''config.toml'', Src_env ''APP_'', Src_strict_env, Src_cache ''db.cache'' ''redacted'']"
  using decorated_class_has_the_declared_sources [of sample_class sample_declaration sample_env "Inr 7" database_schema]
  by (auto simp: sample_class_def sample_declaration_def attached_names_def declared_sources_def)

theorem one_declaration_per_class_witness:
  "\<exists>message. decorate sample_env (Inr 7) database_schema sample_declaration
      (snd (decorate sample_env (Inr 7) database_schema sample_declaration sample_class)) =
     (Inl (Declaration_refused message),
      snd (decorate sample_env (Inr 7) database_schema sample_declaration sample_class))"
proof -
  let ?first = "decorate sample_env (Inr 7) database_schema sample_declaration sample_class"
  have "fst ?first = Inr ()"
    by (simp add: decorate_def sample_class_def sample_declaration_def attached_names_def declared_calls_sources
      run_fluents_sources declared_calls_def config_cache_def core_cache_def config_file_def config_env_def
      config_strict_env_def config_source_def core_configure_def)
  with one_declaration_per_class [OF surjective_pairing, of sample_env "Inr 7" database_schema
      sample_declaration sample_class]
  show ?thesis by (auto simp only: sum.simps)
qed

end
