(* ===== verification/Wheel.thy ===== *)
theory Wheel
  imports Remote
begin

section \<open>The second wheel's Python half: \<open>dynamic_config_remote\<close>\<close>

text \<open>
  The eight stores as Python sees them: what a constructor accepts and hands to the compiled half,
  how a credential is resolved at every fetch, what a failure becomes, and what a \<open>repr\<close> shows. A
  compiled store is the arguments it was built from, and what its constructor and its \<open>fetch\<close>
  answer are parameters. A credential is a value or a callable, which is a number: \<open>calls\<close> says
  what each callable answers at the time of the call. \<open>repr\<close> of a string is a parameter, a
  timeout a text. \<open>os.fspath\<close> of a path is the path.
\<close>

datatype wheel_error =
    W_type_error string
  | W_value_error string
  | W_auth_error string
  | W_remote_error string
  | W_raised exc

subsection \<open>Credentials\<close>

datatype credential = Value pyval | Callable nat

type_synonym calls = "nat \<Rightarrow> (exc, pyval) result"

definition resolve :: "calls \<Rightarrow> credential \<Rightarrow> string \<Rightarrow> (wheel_error, string) result" where
  "resolve calls c argument =
     (case (case c of Value v \<Rightarrow> Inr v | Callable f \<Rightarrow> calls f) of
        Inl e \<Rightarrow> Inl (W_raised e)
      | Inr v \<Rightarrow>
          (case text_of v of
             None \<Rightarrow> Inl (W_type_error (argument @ '' resolved to '' @ type_name v @
               '', not a str; a credential callable has to return the credential''))
           | Some s \<Rightarrow> Inr s))"

definition no_credential :: credential where
  "no_credential = Value (PStr [])"

definition is_text :: "credential \<Rightarrow> bool" where
  "is_text c = (case c of Value v \<Rightarrow> text_of v \<noteq> None | Callable _ \<Rightarrow> False)"

text \<open>\<open>_printable\<close>.\<close>

definition printable :: "credential \<Rightarrow> string" where
  "printable c =
     (case c of
        Value v \<Rightarrow> (case text_of v of None \<Rightarrow> ''<callable>'' | Some s \<Rightarrow> s)
      | Callable _ \<Rightarrow> ''<callable>'')"

subsection \<open>Vault\<close>

record vault_auth =
  va_kind :: string
  va_mount :: string
  va_first :: credential
  va_second :: credential

definition service_account_token :: string where
  "service_account_token = ''/var/run/secrets/kubernetes.io/serviceaccount/token''"

definition vault_token :: "credential \<Rightarrow> vault_auth" where
  "vault_token token = \<lparr>va_kind = ''token'', va_mount = [], va_first = token, va_second = no_credential\<rparr>"

definition vault_app_role :: "credential \<Rightarrow> credential \<Rightarrow> vault_auth" where
  "vault_app_role role_id secret_id =
     \<lparr>va_kind = ''app_role'', va_mount = ''approle'', va_first = role_id, va_second = secret_id\<rparr>"

definition vault_kubernetes :: "string \<Rightarrow> vault_auth" where
  "vault_kubernetes role =
     \<lparr>va_kind = ''kubernetes'', va_mount = ''kubernetes'', va_first = Value (PStr role),
      va_second = Value (PStr service_account_token)\<rparr>"

definition vault_jwt :: "credential \<Rightarrow> vault_auth" where
  "vault_jwt jwt = \<lparr>va_kind = ''jwt'', va_mount = ''jwt'', va_first = jwt, va_second = no_credential\<rparr>"

definition vault_userpass :: "string \<Rightarrow> credential \<Rightarrow> vault_auth" where
  "vault_userpass username password =
     \<lparr>va_kind = ''userpass'', va_mount = ''userpass'', va_first = Value (PStr username), va_second = password\<rparr>"

definition vault_ldap :: "string \<Rightarrow> credential \<Rightarrow> vault_auth" where
  "vault_ldap username password =
     \<lparr>va_kind = ''ldap'', va_mount = ''ldap'', va_first = Value (PStr username), va_second = password\<rparr>"

definition vault_certificate :: vault_auth where
  "vault_certificate =
     \<lparr>va_kind = ''certificate'', va_mount = ''cert'', va_first = no_credential, va_second = no_credential\<rparr>"

definition vault_at_mount :: "string \<Rightarrow> vault_auth \<Rightarrow> vault_auth" where
  "vault_at_mount path a = (if va_kind a = ''token'' then a else a\<lparr>va_mount := path\<rparr>)"

definition vault_with_role :: "string \<Rightarrow> vault_auth \<Rightarrow> vault_auth" where
  "vault_with_role role a =
     (if va_kind a = ''kubernetes'' then a\<lparr>va_first := Value (PStr role)\<rparr>
      else if va_kind a \<in> {''jwt'', ''certificate''} then a\<lparr>va_second := Value (PStr role)\<rparr>
      else a)"

definition vault_with_token_path :: "string \<Rightarrow> vault_auth \<Rightarrow> vault_auth" where
  "vault_with_token_path path a =
     (if va_kind a \<noteq> ''kubernetes'' then a else a\<lparr>va_second := Value (PStr path)\<rparr>)"

definition vault_resolve ::
  "calls \<Rightarrow> vault_auth \<Rightarrow> (wheel_error, string \<times> string \<times> string \<times> string) result" where
  "vault_resolve calls a =
     rbind (resolve calls (va_first a) (va_kind a @ [CHR 0x27] @ ''s first argument'')) (\<lambda>first.
     rbind (resolve calls (va_second a) (va_kind a @ [CHR 0x27] @ ''s second argument'')) (\<lambda>second.
       Inr (va_kind a, va_mount a, first, second)))"

definition secret_slot :: "string \<Rightarrow> nat option" where
  "secret_slot kind =
     map_of [(''token'', 0), (''jwt'', 0), (''app_role'', 1), (''userpass'', 1), (''ldap'', 1)] kind"

definition vault_repr :: "(string \<Rightarrow> string) \<Rightarrow> vault_auth \<Rightarrow> string" where
  "vault_repr repr a =
     (let secret = secret_slot (va_kind a);
          shown = map (\<lambda>(i, half). if secret = Some i then ''***'' else printable half)
            [(0, va_first a), (1, va_second a)]
      in ''Auth.'' @ va_kind a @ ''('' @ py_join '', '' (map repr shown) @ '')'')"

subsection \<open>Consul\<close>

record consul_auth =
  ca_kind :: string
  ca_method :: string
  ca_bearer :: credential
  ca_meta :: "(string \<times> string) list"

definition consul_anonymous :: consul_auth where
  "consul_anonymous = \<lparr>ca_kind = ''anonymous'', ca_method = [], ca_bearer = no_credential, ca_meta = []\<rparr>"

definition consul_token :: "credential \<Rightarrow> consul_auth" where
  "consul_token token = \<lparr>ca_kind = ''token'', ca_method = [], ca_bearer = token, ca_meta = []\<rparr>"

definition consul_kubernetes :: "string \<Rightarrow> consul_auth" where
  "consul_kubernetes meth =
     \<lparr>ca_kind = ''login_file'', ca_method = meth, ca_bearer = Value (PStr service_account_token), ca_meta = []\<rparr>"

definition consul_jwt :: "string \<Rightarrow> credential \<Rightarrow> consul_auth" where
  "consul_jwt meth token = \<lparr>ca_kind = ''login'', ca_method = meth, ca_bearer = token, ca_meta = []\<rparr>"

definition consul_with_bearer_file :: "string \<Rightarrow> consul_auth \<Rightarrow> consul_auth" where
  "consul_with_bearer_file path a =
     (if ca_kind a \<notin> {''login'', ''login_file''} then a
      else a\<lparr>ca_kind := ''login_file'', ca_bearer := Value (PStr path)\<rparr>)"

definition consul_with_meta :: "string \<Rightarrow> string \<Rightarrow> consul_auth \<Rightarrow> consul_auth" where
  "consul_with_meta name v a =
     (if ca_kind a \<notin> {''login'', ''login_file''} then a else a\<lparr>ca_meta := ca_meta a @ [(name, v)]\<rparr>)"

definition consul_resolve ::
  "calls \<Rightarrow> consul_auth \<Rightarrow> (wheel_error, string \<times> string \<times> string \<times> (string \<times> string) list) result" where
  "consul_resolve calls a =
     rbind (resolve calls (ca_bearer a) (ca_kind a @ [CHR 0x27] @ ''s token'')) (\<lambda>bearer.
       Inr (ca_kind a, ca_method a, bearer, ca_meta a))"

definition consul_repr :: "(credential \<Rightarrow> string) \<Rightarrow> (string \<Rightarrow> string) \<Rightarrow> consul_auth \<Rightarrow> string" where
  "consul_repr crepr repr a =
     (if ca_kind a = ''anonymous'' then ''ConsulAuth.anonymous()''
      else if ca_kind a = ''token'' then ''ConsulAuth.token('' @ [CHR 0x27] @ ''***'' @ [CHR 0x27] @ '')''
      else if ca_kind a = ''login_file''
        then ''ConsulAuth.kubernetes('' @ repr (ca_method a) @ '', file='' @ crepr (ca_bearer a) @ '')''
      else ''ConsulAuth.jwt('' @ repr (ca_method a) @ '', '' @ [CHR 0x27] @ ''***'' @ [CHR 0x27] @ '')'')"

subsection \<open>NATS and Firestore\<close>

record nats_auth =
  na_kind :: string
  na_first :: credential
  na_second :: credential

definition nats_anonymous :: nats_auth where
  "nats_anonymous = \<lparr>na_kind = ''anonymous'', na_first = no_credential, na_second = no_credential\<rparr>"

definition nats_token :: "credential \<Rightarrow> nats_auth" where
  "nats_token token = \<lparr>na_kind = ''token'', na_first = token, na_second = no_credential\<rparr>"

definition nats_user_and_password :: "string \<Rightarrow> credential \<Rightarrow> nats_auth" where
  "nats_user_and_password user password =
     \<lparr>na_kind = ''user_password'', na_first = Value (PStr user), na_second = password\<rparr>"

definition nats_nkey_seed :: "credential \<Rightarrow> nats_auth" where
  "nats_nkey_seed seed = \<lparr>na_kind = ''nkey'', na_first = seed, na_second = no_credential\<rparr>"

definition nats_credentials :: "credential \<Rightarrow> nats_auth" where
  "nats_credentials contents = \<lparr>na_kind = ''credentials'', na_first = contents, na_second = no_credential\<rparr>"

text \<open>\<open>credentials_file\<close>: the callable that reads the file is the argument.\<close>

definition nats_credentials_file :: "nat \<Rightarrow> nats_auth" where
  "nats_credentials_file reads = \<lparr>na_kind = ''credentials'', na_first = Callable reads, na_second = no_credential\<rparr>"

definition nats_resolve :: "calls \<Rightarrow> nats_auth \<Rightarrow> (wheel_error, string \<times> string \<times> string) result" where
  "nats_resolve calls a =
     rbind (resolve calls (na_first a) (na_kind a @ [CHR 0x27] @ ''s first argument'')) (\<lambda>first.
     rbind (resolve calls (na_second a) (na_kind a @ [CHR 0x27] @ ''s second argument'')) (\<lambda>second.
       Inr (na_kind a, first, second)))"

definition nats_repr :: "(string \<Rightarrow> string) \<Rightarrow> nats_auth \<Rightarrow> string" where
  "nats_repr repr a =
     (if na_kind a = ''anonymous'' then ''NatsAuth.anonymous()''
      else if na_kind a = ''user_password'' then
        ''NatsAuth.user_and_password('' @ repr (printable (na_first a)) @ '', '' @ [CHR 0x27] @ ''***'' @ [CHR 0x27] @ '')''
      else ''NatsAuth.'' @ na_kind a @ ''('' @ [CHR 0x27] @ ''***'' @ [CHR 0x27] @ '')'')"

record firestore_auth =
  fa_kind :: string
  fa_value :: credential

definition metadata_token_url :: string where
  "metadata_token_url =
     ''http://metadata.google.internal/computeMetadata/v1/instance/'' @ ''service-accounts/default/token''"

definition firestore_emulator :: firestore_auth where
  "firestore_emulator = \<lparr>fa_kind = ''emulator'', fa_value = no_credential\<rparr>"

definition firestore_access_token :: "credential \<Rightarrow> firestore_auth" where
  "firestore_access_token token = \<lparr>fa_kind = ''access_token'', fa_value = token\<rparr>"

definition firestore_metadata_server :: firestore_auth where
  "firestore_metadata_server = \<lparr>fa_kind = ''metadata_server'', fa_value = Value (PStr metadata_token_url)\<rparr>"

definition firestore_with_url :: "string \<Rightarrow> firestore_auth \<Rightarrow> firestore_auth" where
  "firestore_with_url url a =
     (if fa_kind a \<noteq> ''metadata_server'' then a else a\<lparr>fa_value := Value (PStr url)\<rparr>)"

definition firestore_resolve :: "calls \<Rightarrow> firestore_auth \<Rightarrow> (wheel_error, string \<times> string) result" where
  "firestore_resolve calls a =
     rbind (resolve calls (fa_value a) (fa_kind a @ [CHR 0x27] @ ''s argument'')) (\<lambda>v. Inr (fa_kind a, v))"

definition firestore_repr :: "(string \<Rightarrow> string) \<Rightarrow> firestore_auth \<Rightarrow> string" where
  "firestore_repr repr a =
     (if fa_kind a = ''access_token'' then ''FirestoreAuth.access_token('' @ [CHR 0x27] @ ''***'' @ [CHR 0x27] @ '')''
      else if fa_kind a = ''metadata_server''
        then ''FirestoreAuth.metadata_server('' @ repr (printable (fa_value a)) @ '')''
      else ''FirestoreAuth.emulator()'')"

subsection \<open>git: what to read, how to log in\<close>

record git_keys =
  gk_kind :: string
  gk_paths :: "string list"

definition git_keys_one :: "string \<Rightarrow> git_keys" where
  "git_keys_one path = \<lparr>gk_kind = ''one'', gk_paths = [path]\<rparr>"

definition git_keys_several :: "string list \<Rightarrow> git_keys" where
  "git_keys_several paths = \<lparr>gk_kind = ''several'', gk_paths = paths\<rparr>"

definition git_keys_prefix :: "string \<Rightarrow> git_keys" where
  "git_keys_prefix directory = \<lparr>gk_kind = ''prefix'', gk_paths = [directory]\<rparr>"

definition git_keys_resolve :: "git_keys \<Rightarrow> string \<times> string list" where
  "git_keys_resolve k = (gk_kind k, gk_paths k)"

definition git_keys_repr :: "(string \<Rightarrow> string) \<Rightarrow> git_keys \<Rightarrow> string" where
  "git_keys_repr repr k =
     (if gk_kind k = ''prefix'' then ''GitKeys.prefix('' @ repr (hd (gk_paths k)) @ '')''
      else if gk_kind k = ''one'' then ''GitKeys.one('' @ repr (hd (gk_paths k)) @ '')''
      else ''GitKeys.several(['' @ py_join '', '' (map repr (gk_paths k)) @ ''])'')"

datatype path_argument = Path_keys git_keys | Path_value pyval

definition git_keys_argument :: "path_argument \<Rightarrow> (wheel_error, string \<times> string list) result" where
  "git_keys_argument path =
     (case path of
        Path_keys k \<Rightarrow> Inr (git_keys_resolve k)
      | Path_value v \<Rightarrow>
          (let refused = Inl (W_type_error (''path has to be a str, a list of them or a GitKeys, not '' @ type_name v @
                 ''; a path in a repository is `/`-separated and relative to its root, so it is a str rather than a pathlib.Path''))
           in case text_of v of
                Some s \<Rightarrow> Inr (''one'', [s])
              | None \<Rightarrow>
                  (if is_sequence v \<and> (\<forall>one \<in> set (sequence_items v). text_of one \<noteq> None)
                   then Inr (''several'', List.map_filter text_of (sequence_items v)) else refused)))"

definition git_reference ::
  "string option \<Rightarrow> string option \<Rightarrow> string option \<Rightarrow> (wheel_error, (string \<times> string) option) result" where
  "git_reference branch tag commit =
     (let named = List.map_filter (\<lambda>(kind, name). map_option (Pair kind) name)
            [(''branch'', branch), (''tag'', tag), (''commit'', commit)]
      in if 1 < length named then
           Inl (W_value_error (''git: '' @ py_join '', '' (map fst named) @
             '' name one reference between them, and a call naming more than one does not say which it means; pass exactly one of branch, tag or commit''))
         else Inr (if named = [] then None else Some (hd named)))"

record git_auth =
  ga_kind :: string
  ga_first :: credential
  ga_second :: credential

definition token_username :: string where
  "token_username = ''x-access-token''"

definition git_anonymous :: git_auth where
  "git_anonymous = \<lparr>ga_kind = ''anonymous'', ga_first = no_credential, ga_second = no_credential\<rparr>"

definition git_token :: "credential \<Rightarrow> git_auth" where
  "git_token token = \<lparr>ga_kind = ''token'', ga_first = Value (PStr token_username), ga_second = token\<rparr>"

definition git_basic :: "string \<Rightarrow> credential \<Rightarrow> git_auth" where
  "git_basic username password = \<lparr>ga_kind = ''basic'', ga_first = Value (PStr username), ga_second = password\<rparr>"

definition git_ssh_agent :: git_auth where
  "git_ssh_agent = \<lparr>ga_kind = ''ssh_agent'', ga_first = no_credential, ga_second = no_credential\<rparr>"

definition git_ssh_key :: "string \<Rightarrow> git_auth" where
  "git_ssh_key path = \<lparr>ga_kind = ''ssh_key'', ga_first = Value (PStr path), ga_second = no_credential\<rparr>"

definition git_ssh_command :: "credential \<Rightarrow> git_auth" where
  "git_ssh_command command = \<lparr>ga_kind = ''ssh_command'', ga_first = command, ga_second = no_credential\<rparr>"

definition git_transport :: "git_auth \<Rightarrow> string" where
  "git_transport a =
     (if ga_kind a = ''anonymous'' then ''any''
      else if ga_kind a \<in> {''token'', ''basic''} then ''https'' else ''ssh'')"

definition git_resolve :: "calls \<Rightarrow> git_auth \<Rightarrow> (wheel_error, string \<times> string \<times> string) result" where
  "git_resolve calls a =
     (if ga_kind a \<in> {''token'', ''basic''} then
        rbind (resolve calls (ga_first a) (ga_kind a @ [CHR 0x27] @ ''s username'')) (\<lambda>first.
        rbind (resolve calls (ga_second a) (ga_kind a @ [CHR 0x27] @ ''s token'')) (\<lambda>second.
          Inr (''https'', first, second)))
      else if ga_kind a = ''ssh_key'' then
        rbind (resolve calls (ga_first a) (''ssh_key'' @ [CHR 0x27] @ ''s path'')) (\<lambda>first. Inr (''ssh_key'', first, []))
      else if ga_kind a = ''ssh_command'' then
        rbind (resolve calls (ga_first a) (''ssh_command'' @ [CHR 0x27] @ ''s command'')) (\<lambda>first.
          Inr (''ssh_command'', first, []))
      else Inr (ga_kind a, [], []))"

definition git_auth_repr :: "(credential \<Rightarrow> string) \<Rightarrow> (string \<Rightarrow> string) \<Rightarrow> git_auth \<Rightarrow> string" where
  "git_auth_repr crepr repr a =
     (let stars = [CHR 0x27] @ ''***'' @ [CHR 0x27] in
      if ga_kind a \<in> {''anonymous'', ''ssh_agent''} then ''GitAuth.'' @ ga_kind a @ ''()''
      else if ga_kind a = ''ssh_key'' then ''GitAuth.ssh_key('' @ crepr (ga_first a) @ '')''
      else if ga_kind a = ''ssh_command'' then ''GitAuth.ssh_command('' @ stars @ '')''
      else if ga_kind a = ''basic'' then ''GitAuth.basic('' @ repr (printable (ga_first a)) @ '', '' @ stars @ '')''
      else ''GitAuth.token('' @ stars @ '')'')"

subsection \<open>TLS, formats and transports\<close>

text \<open>The \<open>tls\<close> argument: absent, a \<open>TlsConfig\<close> around a compiled one, or something else.\<close>

datatype 'tls tls_argument = No_tls | Tls 'tls | Not_tls pyval

definition unwrapped :: "'tls tls_argument \<Rightarrow> (wheel_error, 'tls option) result" where
  "unwrapped tls =
     (case tls of
        No_tls \<Rightarrow> Inr None
      | Tls t \<Rightarrow> Inr (Some t)
      | Not_tls v \<Rightarrow> Inl (W_type_error (''tls has to be a TlsConfig, not '' @ type_name v @
          ''; build one with TlsConfig().with_ca_certificate_file(...) or another of its methods'')))"

definition format_extensions :: "string list" where
  "format_extensions = [''.json'', ''.toml'', ''.yaml'', ''.yml'']"

definition format_names :: "string list" where
  "format_names = [''json'', ''toml'', ''yaml'', ''yml'']"

definition checked_format ::
  "(string \<Rightarrow> string) \<Rightarrow> string \<Rightarrow> string option \<Rightarrow> (wheel_error, string option) result" where
  "checked_format repr key fmt =
     (case fmt of
        Some f \<Rightarrow>
          (if py_lower f \<notin> set format_names then
             Inl (W_value_error (repr f @ '' is not a document format '' @ em_dash @ '' expected '' @
               quoted ''json'' @ '', '' @ quoted ''toml'' @ '' or '' @ quoted ''yaml''))
           else Inr (Some f))
      | None \<Rightarrow>
          (if \<not> list_ex (py_endswith (py_lower key)) format_extensions then
             Inl (W_value_error (''the key '' @ repr key @ '' names no format '' @ em_dash @ '' pass format='' @
               quoted ''json'' @ '', '' @ quoted ''toml'' @ '' or '' @ quoted ''yaml''))
           else Inr None))"

text \<open>\<open>_one_transport\<close>: the credential and the TLS configuration have to be for the url's transport.\<close>

definition ssh_spellings :: string where
  "ssh_spellings = ''GitAuth.ssh_agent(), GitAuth.ssh_key(path) or GitAuth.ssh_command(command)''"

definition one_transport ::
  "('tls \<Rightarrow> bool) \<Rightarrow> string \<Rightarrow> git_auth \<Rightarrow> 'tls tls_argument \<Rightarrow> (wheel_error, unit) result" where
  "one_transport is_empty url a tls =
     (let over_https = py_startswith url ''https://'' \<or> py_startswith url ''http://'' in
      if git_transport a = ''https'' \<and> \<not> over_https then
        Inl (W_value_error (''git: this url is not an http(s) one, so an https credential '' @
          ''cannot be presented on it and is refused rather than ignored; an '' @
          ''ssh remote authenticates through a key '' @ em_dash @ '' '' @ ssh_spellings))
      else if git_transport a = ''ssh'' \<and> over_https then
        Inl (W_value_error (''git: this url is an http(s) one, so an ssh credential cannot be '' @
          ''presented on it and is refused rather than ignored; an https '' @
          ''remote authenticates with a token '' @ em_dash @ '' GitAuth.token(token), or '' @
          ''GitAuth.basic(username, password) for a host that reads the user half''))
      else (case tls of
          Tls t \<Rightarrow>
            if \<not> is_empty t \<and> \<not> py_startswith url ''https://''
            then Inl (W_value_error (''git: `tls` configures the https transport and this url is not an '' @
              ''https one, so it cannot be applied here and is refused rather '' @
              ''than ignored; an ssh remote authenticates its host through '' @
              ''`known_hosts` and its client through a key '' @ em_dash @ '' '' @ ssh_spellings))
            else Inr ()
        | Not_tls v \<Rightarrow> Inl (W_raised \<lparr>ex_class = ''AttributeError'', ex_is_auth = False, ex_is_exception = True,
            ex_message = py_repr_str (type_name v) @ '' object has no attribute '' @ py_repr_str ''is_empty''\<rparr>)
        | No_tls \<Rightarrow> Inr ()))"

subsection \<open>Stores\<close>

text \<open>A compiled store, by the arguments of its constructor.\<close>

datatype 'tls native =
    N_vault string string string string "string option" string "'tls option"
  | N_consul string string "string option" "string option" string "'tls option"
  | N_etcd "string list" string "string option" string "'tls option"
  | N_redis string string "string option" string "'tls option"
  | N_s3 string string "string option" "string option" "string option" string "'tls option"
  | N_nats "string list" string string "string option" string "'tls option"
  | N_firestore string string string string "string option" string "'tls option"
  | N_git string string "string list" "(string \<times> string) option" "string option" "string option"
      "string option" "string option" "string option" "'tls option"

datatype store_auth =
    A_vault vault_auth
  | A_consul consul_auth
  | A_nats nats_auth
  | A_firestore firestore_auth
  | A_git git_auth
  | A_pair "credential option" "credential option"
  | A_s3 "credential option" "credential option" "credential option"

record 'tls store =
  st_auth :: store_auth
  st_native :: "'tls native"

text \<open>What the compiled constructors refuse, and what an argument of another type is.\<close>

type_synonym 'tls builder = "'tls native \<Rightarrow> (exc, unit) result"

definition built :: "'tls builder \<Rightarrow> store_auth \<Rightarrow> 'tls native \<Rightarrow> (wheel_error, 'tls store) result" where
  "built new a n = (case new n of Inl e \<Rightarrow> Inl (W_raised e) | Inr _ \<Rightarrow> Inr \<lparr>st_auth = a, st_native = n\<rparr>)"

definition wrong_auth :: "string \<Rightarrow> string \<Rightarrow> pyval \<Rightarrow> wheel_error" where
  "wrong_auth expected ways v =
     W_type_error (''auth has to be '' @ expected @ '', not '' @ type_name v @ ''; build one with '' @ ways)"

definition vault_new where
  "vault_new new address mount path auth key namespace timeout tls =
     (case auth of
        Inl v \<Rightarrow> Inl (wrong_auth ''an Auth''
          ''Auth.token(...), Auth.app_role(...) or another of its methods'' v)
      | Inr a \<Rightarrow> rbind (unwrapped tls) (\<lambda>t. built new (A_vault a) (N_vault address mount path key namespace timeout t)))"

definition consul_new where
  "consul_new repr new address key fmt auth datacenter timeout tls =
     (case auth of
        Some (Inl v) \<Rightarrow> Inl (wrong_auth ''a ConsulAuth''
          ''ConsulAuth.token(...) or another of its methods'' v)
      | _ \<Rightarrow>
          rbind (checked_format repr key fmt) (\<lambda>f. rbind (unwrapped tls) (\<lambda>t.
            built new (A_consul (case auth of Some (Inr a) \<Rightarrow> a | _ \<Rightarrow> consul_anonymous))
              (N_consul address key f datacenter timeout t))))"

text \<open>\<open>list(endpoints)\<close> of a sequence argument: a string is a sequence of its characters.\<close>

definition listed :: "pyval \<Rightarrow> string list" where
  "listed v =
     (case text_of v of
        Some s \<Rightarrow> map (\<lambda>c. [c]) s
      | None \<Rightarrow> List.map_filter text_of (sequence_items v))"

definition etcd_new where
  "etcd_new repr new endpoints key fmt timeout user password tls =
     (if listed endpoints = [] then Inl (W_value_error ''etcd needs at least one endpoint'')
      else if (user = None) \<noteq> (password = None) then
        Inl (W_value_error ''etcd authentication needs both user and password; one without the other would connect unauthenticated'')
      else rbind (checked_format repr key fmt) (\<lambda>f. rbind (unwrapped tls) (\<lambda>t.
        built new (A_pair user password) (N_etcd (listed endpoints) key f timeout t))))"

definition redis_new where
  "redis_new repr new url key fmt user password timeout tls =
     rbind (checked_format repr key fmt) (\<lambda>f. rbind (unwrapped tls) (\<lambda>t.
       built new (A_pair user password) (N_redis url key f timeout t)))"

definition s3_new where
  "s3_new repr new bucket key fmt region endpoint access_key_id secret_access_key session_token timeout tls =
     (if (access_key_id = None) \<noteq> (secret_access_key = None) then
        Inl (W_value_error ''S3 needs both access_key_id and secret_access_key; one without the other cannot sign a request'')
      else if session_token \<noteq> None \<and> access_key_id = None then
        Inl (W_value_error ''a session_token belongs to a key pair; pass access_key_id and secret_access_key with it'')
      else rbind (checked_format repr key fmt) (\<lambda>f. rbind (unwrapped tls) (\<lambda>t.
        built new (A_s3 access_key_id secret_access_key session_token)
          (N_s3 bucket key f region endpoint timeout t))))"

definition nats_new where
  "nats_new repr new servers bucket key fmt auth timeout tls =
     (if listed servers = [] then Inl (W_value_error ''nats needs at least one server'')
      else case auth of
        Some (Inl v) \<Rightarrow> Inl (wrong_auth ''a NatsAuth''
          ''NatsAuth.token(...) or another of its methods'' v)
      | _ \<Rightarrow>
          rbind (checked_format repr key fmt) (\<lambda>f. rbind (unwrapped tls) (\<lambda>t.
            built new (A_nats (case auth of Some (Inr a) \<Rightarrow> a | _ \<Rightarrow> nats_anonymous))
              (N_nats (listed servers) bucket key f timeout t))))"

definition firestore_new where
  "firestore_new new project path auth key database endpoint timeout tls =
     (case auth of
        Inl v \<Rightarrow> Inl (wrong_auth ''a FirestoreAuth''
          ''FirestoreAuth.metadata_server(), FirestoreAuth.access_token(...) or FirestoreAuth.emulator()'' v)
      | Inr a \<Rightarrow> rbind (unwrapped tls) (\<lambda>t.
          built new (A_firestore a) (N_firestore project path key database endpoint timeout t)))"

definition git_new where
  "git_new is_empty new url path branch tag commit fmt auth cache_dir timeout max_bytes compact_after tls =
     (case auth of
        Some (Inl v) \<Rightarrow> Inl (wrong_auth ''a GitAuth''
          ''GitAuth.token(...) or another of its methods'' v)
      | _ \<Rightarrow>
          (let a = (case auth of Some (Inr g) \<Rightarrow> g | _ \<Rightarrow> git_anonymous) in
           rbind (one_transport is_empty url a tls) (\<lambda>_.
           rbind (git_keys_argument path) (\<lambda>(keys, paths).
           rbind (git_reference branch tag commit) (\<lambda>reference.
           rbind (unwrapped tls) (\<lambda>t.
             built new (A_git a) (N_git url keys paths reference fmt cache_dir timeout max_bytes compact_after t)))))))"

subsection \<open>Fetching\<close>

text \<open>What a store presents to its compiled half: its credentials resolved now, and Consul's \<open>Meta\<close>
  entries.\<close>

type_synonym presented = "string option list \<times> (string \<times> string) list"

definition resolve_option :: "calls \<Rightarrow> credential option \<Rightarrow> string \<Rightarrow> (wheel_error, string option) result" where
  "resolve_option calls c argument =
     (case c of None \<Rightarrow> Inr None | Some c \<Rightarrow> rbind (resolve calls c argument) (\<lambda>s. Inr (Some s)))"

definition vault_present :: "calls \<Rightarrow> vault_auth \<Rightarrow> (wheel_error, presented) result" where
  "vault_present calls a =
     rbind (vault_resolve calls a) (\<lambda>(kind, mount, first, second).
       Inr ([Some kind, Some mount, Some first, Some second], []))"

definition consul_present :: "calls \<Rightarrow> consul_auth \<Rightarrow> (wheel_error, presented) result" where
  "consul_present calls a =
     rbind (consul_resolve calls a) (\<lambda>(kind, meth, bearer, meta). Inr ([Some kind, Some meth, Some bearer], meta))"

definition nats_present :: "calls \<Rightarrow> nats_auth \<Rightarrow> (wheel_error, presented) result" where
  "nats_present calls a =
     rbind (nats_resolve calls a) (\<lambda>(kind, first, second). Inr ([Some kind, Some first, Some second], []))"

definition firestore_present :: "calls \<Rightarrow> firestore_auth \<Rightarrow> (wheel_error, presented) result" where
  "firestore_present calls a = rbind (firestore_resolve calls a) (\<lambda>(kind, v). Inr ([Some kind, Some v], []))"

definition git_present :: "calls \<Rightarrow> git_auth \<Rightarrow> (wheel_error, presented) result" where
  "git_present calls a =
     rbind (git_resolve calls a) (\<lambda>(kind, first, second). Inr ([Some kind, Some first, Some second], []))"

text \<open>etcd and Redis: the user, then the password.\<close>

definition pair_present :: "calls \<Rightarrow> credential option \<Rightarrow> credential option \<Rightarrow> (wheel_error, presented) result" where
  "pair_present calls user password =
     rbind (resolve_option calls user ''user'') (\<lambda>u.
     rbind (resolve_option calls password ''password'') (\<lambda>p. Inr ([u, p], [])))"

definition s3_present where
  "s3_present calls access_key_id secret_access_key session_token =
     rbind (resolve_option calls access_key_id ''access_key_id'') (\<lambda>a.
     rbind (resolve_option calls secret_access_key ''secret_access_key'') (\<lambda>s.
     rbind (resolve_option calls session_token ''session_token'') (\<lambda>t. Inr ([a, s, t], []))))"

definition present :: "calls \<Rightarrow> store_auth \<Rightarrow> (wheel_error, presented) result" where
  "present calls auth =
     (case auth of
        A_vault a \<Rightarrow> vault_present calls a
      | A_consul a \<Rightarrow> consul_present calls a
      | A_nats a \<Rightarrow> nats_present calls a
      | A_firestore a \<Rightarrow> firestore_present calls a
      | A_git a \<Rightarrow> git_present calls a
      | A_pair user password \<Rightarrow> pair_present calls user password
      | A_s3 access_key_id secret_access_key session_token \<Rightarrow>
          s3_present calls access_key_id secret_access_key session_token)"

datatype native_error = Store_auth_error string | Store_error string | Other_exception exc

type_synonym 'tls fetcher = "'tls native \<Rightarrow> presented \<Rightarrow> (native_error, string \<times> string) result"

text \<open>\<open>translated\<close>: the more special class is caught first.\<close>

definition translated :: "(native_error, 'a) result \<Rightarrow> (wheel_error, 'a) result" where
  "translated r =
     (case r of
        Inr x \<Rightarrow> Inr x
      | Inl (Store_auth_error message) \<Rightarrow> Inl (W_auth_error message)
      | Inl (Store_error message) \<Rightarrow> Inl (W_remote_error message)
      | Inl (Other_exception e) \<Rightarrow> Inl (W_raised e))"

definition wheel_formats :: "string list" where
  "wheel_formats = [''json'', ''toml'', ''yaml'', ''ini'', ''properties'']"

text \<open>\<open>Format(named)\<close>.\<close>

definition format_member :: "string \<Rightarrow> (wheel_error, pyval) result" where
  "format_member named =
     (if named \<in> set wheel_formats then Inr (PObj ''Format'' (PStr named))
      else Inl (W_value_error (py_repr_str named @ '' is not a valid Format'')))"

definition store_fetch :: "'tls fetcher \<Rightarrow> calls \<Rightarrow> 'tls store \<Rightarrow> (wheel_error, pyval) result" where
  "store_fetch fetcher calls s =
     rbind (present calls (st_auth s)) (\<lambda>arguments.
     rbind (translated (fetcher (st_native s) arguments)) (\<lambda>(text, named).
     rbind (format_member named) (\<lambda>f. Inr (PTuple [PStr text, f]))))"

text \<open>A wheel store as the base wheel meets it: an object whose \<open>fetch()\<close> raises the base wheel's own
  exceptions, and whose \<open>describe()\<close> is the compiled half's.\<close>

definition as_exception :: "wheel_error \<Rightarrow> exc" where
  "as_exception e =
     (case e of
        W_raised e \<Rightarrow> e
      | W_auth_error m \<Rightarrow> \<lparr>ex_class = ''AuthError'', ex_is_auth = True, ex_is_exception = True, ex_message = m\<rparr>
      | W_remote_error m \<Rightarrow> \<lparr>ex_class = ''RemoteError'', ex_is_auth = False, ex_is_exception = True, ex_message = m\<rparr>
      | W_type_error m \<Rightarrow> \<lparr>ex_class = ''TypeError'', ex_is_auth = False, ex_is_exception = True, ex_message = m\<rparr>
      | W_value_error m \<Rightarrow> \<lparr>ex_class = ''ValueError'', ex_is_auth = False, ex_is_exception = True, ex_message = m\<rparr>)"

definition fetch_outcome :: "'tls fetcher \<Rightarrow> calls \<Rightarrow> 'tls store \<Rightarrow> (exc, pyval) result" where
  "fetch_outcome fetcher calls s =
     (case store_fetch fetcher calls s of Inl e \<Rightarrow> Inl (as_exception e) | Inr v \<Rightarrow> Inr v)"

definition store_object :: "string \<Rightarrow> string \<Rightarrow> source" where
  "store_object cls described =
     \<lparr>so_class = cls, so_async = False, so_has_fetch = True, so_has_describe = True, so_describe = Inr (PStr described)\<rparr>"

subsection \<open>Every way to log in, with its one secret left open\<close>

datatype login =
    L_vault_token | L_vault_app_role credential | L_vault_jwt | L_vault_userpass string | L_vault_ldap string

fun vault_login :: "login \<Rightarrow> credential \<Rightarrow> vault_auth" where
  "vault_login L_vault_token secret = vault_token secret"
| "vault_login (L_vault_app_role role_id) secret = vault_app_role role_id secret"
| "vault_login L_vault_jwt secret = vault_jwt secret"
| "vault_login (L_vault_userpass username) secret = vault_userpass username secret"
| "vault_login (L_vault_ldap username) secret = vault_ldap username secret"

datatype modifier = At_mount string | With_role string | With_token_path string

fun modified :: "modifier \<Rightarrow> vault_auth \<Rightarrow> vault_auth" where
  "modified (At_mount path) a = vault_at_mount path a"
| "modified (With_role role) a = vault_with_role role a"
| "modified (With_token_path path) a = vault_with_token_path path a"

text \<open>Two Vault logins that show the same: the same method and mount, and the halves agree outside the
  secret one.\<close>

definition vault_alike :: "vault_auth \<Rightarrow> vault_auth \<Rightarrow> bool" where
  "vault_alike a b \<longleftrightarrow> va_kind a = va_kind b \<and> va_mount a = va_mount b \<and>
     (secret_slot (va_kind a) \<noteq> Some 0 \<longrightarrow> va_first a = va_first b) \<and>
     (secret_slot (va_kind a) \<noteq> Some 1 \<longrightarrow> va_second a = va_second b)"

lemma vault_alike_login: "vault_alike (vault_login l c) (vault_login l c')"
  by (cases l) (simp_all add: vault_alike_def vault_token_def vault_app_role_def vault_jwt_def vault_userpass_def
    vault_ldap_def secret_slot_def)

lemma vault_alike_modified: "vault_alike a b \<Longrightarrow> vault_alike (modified m a) (modified m b)"
  by (cases m) (auto simp: vault_alike_def vault_at_mount_def vault_with_role_def vault_with_token_path_def secret_slot_def)

lemma vault_alike_fold: "vault_alike a b \<Longrightarrow> vault_alike (fold modified ms a) (fold modified ms b)"
  by (induction ms arbitrary: a b) (simp_all add: vault_alike_modified)

lemma vault_alike_repr: "vault_alike a b \<Longrightarrow> vault_repr repr a = vault_repr repr b"
  by (auto simp: vault_alike_def vault_repr_def Let_def)

datatype consul_modifier = With_bearer_file string | With_meta string string

fun consul_modified :: "consul_modifier \<Rightarrow> consul_auth \<Rightarrow> consul_auth" where
  "consul_modified (With_bearer_file path) a = consul_with_bearer_file path a"
| "consul_modified (With_meta name v) a = consul_with_meta name v a"

definition consul_alike :: "consul_auth \<Rightarrow> consul_auth \<Rightarrow> bool" where
  "consul_alike a b \<longleftrightarrow> ca_kind a = ca_kind b \<and> ca_method a = ca_method b \<and>
     (ca_kind a = ''login_file'' \<longrightarrow> ca_bearer a = ca_bearer b)"

lemma consul_alike_fold:
  "consul_alike a b \<Longrightarrow> consul_alike (fold consul_modified ms a) (fold consul_modified ms b)"
proof (induction ms arbitrary: a b)
  case (Cons m ms)
  then have "consul_alike (consul_modified m a) (consul_modified m b)"
    by (cases m) (auto simp: consul_alike_def consul_with_bearer_file_def consul_with_meta_def)
  with Cons.IH show ?case by simp
qed simp

lemma consul_alike_repr: "consul_alike a b \<Longrightarrow> consul_repr crepr repr a = consul_repr crepr repr b"
  by (auto simp: consul_alike_def consul_repr_def)

lemma vault_repr_hides_the_secret:
  "vault_repr repr (fold modified ms (vault_login l c)) = vault_repr repr (fold modified ms (vault_login l c'))"
  by (rule vault_alike_repr [OF vault_alike_fold [OF vault_alike_login]])

text \<open>No \<open>repr\<close> shows a credential: whatever the login and the calls that modify it, the text is the
  same for two secrets.\<close>

theorem store_reprs_hide_the_secret:
  "vault_repr repr (fold modified vs (vault_login l c)) = vault_repr repr (fold modified vs (vault_login l c')) \<and>
   consul_repr crepr repr (fold consul_modified ms (consul_token c)) =
     consul_repr crepr repr (fold consul_modified ms (consul_token c')) \<and>
   consul_repr crepr repr (fold consul_modified ms (consul_jwt meth c)) =
     consul_repr crepr repr (fold consul_modified ms (consul_jwt meth c')) \<and>
   nats_repr repr (nats_token c) = nats_repr repr (nats_token c') \<and>
   nats_repr repr (nats_user_and_password user c) = nats_repr repr (nats_user_and_password user c') \<and>
   nats_repr repr (nats_nkey_seed c) = nats_repr repr (nats_nkey_seed c') \<and>
   nats_repr repr (nats_credentials c) = nats_repr repr (nats_credentials c') \<and>
   firestore_repr repr (firestore_with_url url (firestore_access_token c)) =
     firestore_repr repr (firestore_with_url url (firestore_access_token c')) \<and>
   git_auth_repr crepr repr (git_token c) = git_auth_repr crepr repr (git_token c') \<and>
   git_auth_repr crepr repr (git_basic user c) = git_auth_repr crepr repr (git_basic user c') \<and>
   git_auth_repr crepr repr (git_ssh_command c) = git_auth_repr crepr repr (git_ssh_command c')"
proof (intro conjI)
  show "consul_repr crepr repr (fold consul_modified ms (consul_token c)) =
     consul_repr crepr repr (fold consul_modified ms (consul_token c'))"
    by (rule consul_alike_repr [OF consul_alike_fold]) (simp add: consul_alike_def consul_token_def)
  show "consul_repr crepr repr (fold consul_modified ms (consul_jwt meth c)) =
     consul_repr crepr repr (fold consul_modified ms (consul_jwt meth c'))"
    by (rule consul_alike_repr [OF consul_alike_fold]) (simp add: consul_alike_def consul_jwt_def)
qed (simp_all add: vault_repr_hides_the_secret nats_repr_def nats_token_def nats_user_and_password_def nats_nkey_seed_def nats_credentials_def
  firestore_repr_def firestore_with_url_def firestore_access_token_def git_auth_repr_def git_token_def git_basic_def
  git_ssh_command_def)

text \<open>The error of a credential of the wrong type shows its type only.\<close>

lemma resolve_error_shows_the_type:
  "text_of v = None \<Longrightarrow> text_of v' = None \<Longrightarrow> type_name v = type_name v' \<Longrightarrow>
   resolve calls (Value v) argument = resolve calls (Value v') argument"
  by (simp add: resolve_def)

subsection \<open>A git store agrees with its url\<close>

lemma built_Inr: "built new a n = Inr s \<longleftrightarrow> new n = Inr () \<and> s = \<lparr>st_auth = a, st_native = n\<rparr>"
  by (auto simp: built_def split: sum.splits)

lemma git_reference_one:
  "git_reference branch tag commit = Inr r \<Longrightarrow>
   length (filter (\<lambda>x. x \<noteq> None) [branch, tag, commit]) \<le> 1 \<and>
   (case r of None \<Rightarrow> branch = None \<and> tag = None \<and> commit = None
    | Some (kind, name) \<Rightarrow> kind = ''branch'' \<and> branch = Some name \<or> kind = ''tag'' \<and> tag = Some name \<or>
        kind = ''commit'' \<and> commit = Some name)"
  by (cases branch; cases tag; cases commit) (auto simp: git_reference_def List.map_filter_simps Let_def split: if_splits)

text \<open>A git store that could be built is never half configured: a token goes to an http url and a key
  to any other, certificates to https alone, and the one reference it reads is the only one that
  was named.\<close>

theorem accepted_git_store_is_consistent:
  assumes "git_new is_empty new url path branch tag commit fmt auth cache_dir timeout max_bytes compact_after tls = Inr s"
  shows "\<exists>a keys paths r t. st_auth s = A_git a \<and>
    st_native s = N_git url keys paths r fmt cache_dir timeout max_bytes compact_after t \<and>
    (git_transport a = ''https'' \<longrightarrow> py_startswith url ''https://'' \<or> py_startswith url ''http://'') \<and>
    (git_transport a = ''ssh'' \<longrightarrow> \<not> py_startswith url ''https://'' \<and> \<not> py_startswith url ''http://'') \<and>
    (\<forall>c. t = Some c \<and> \<not> is_empty c \<longrightarrow> py_startswith url ''https://'') \<and>
    length (filter (\<lambda>x. x \<noteq> None) [branch, tag, commit]) \<le> 1 \<and>
    (\<forall>kind name. r = Some (kind, name) \<longrightarrow> Some name \<in> {branch, tag, commit})"
proof -
  define a where "a = (case auth of Some (Inr g) \<Rightarrow> g | _ \<Rightarrow> git_anonymous)"
  obtain keys paths r t where steps: "one_transport is_empty url a tls = Inr ()" "git_reference branch tag commit = Inr r"
    "unwrapped tls = Inr t" "s = \<lparr>st_auth = A_git a,
      st_native = N_git url keys paths r fmt cache_dir timeout max_bytes compact_after t\<rparr>"
    using assms by (auto simp: git_new_def a_def Let_def rbind_Inr_iff built_Inr split: option.splits sum.splits prod.splits)
  have "git_transport a = ''https'' \<longrightarrow> py_startswith url ''https://'' \<or> py_startswith url ''http://''"
    "git_transport a = ''ssh'' \<longrightarrow> \<not> py_startswith url ''https://'' \<and> \<not> py_startswith url ''http://''"
    using steps(1) by (auto simp: one_transport_def Let_def split: if_splits)
  moreover have "\<forall>c. t = Some c \<and> \<not> is_empty c \<longrightarrow> py_startswith url ''https://''"
    using steps(1,3) by (auto simp: one_transport_def unwrapped_def Let_def split: if_splits tls_argument.splits)
  moreover have "length (filter (\<lambda>x. x \<noteq> None) [branch, tag, commit]) \<le> 1"
    "\<forall>kind name. r = Some (kind, name) \<longrightarrow> Some name \<in> {branch, tag, commit}"
    using git_reference_one [OF steps(2)] by auto
  ultimately show ?thesis using steps(4) by auto
qed

text \<open>The scheme of a url is compared as written, so a key is accepted for an https url whose scheme is
  in capitals.\<close>

lemma capital_scheme_takes_a_key:
  "one_transport is_empty ''HTTPS://git.example/r.git'' git_ssh_agent No_tls = Inr ()"
  by (simp add: one_transport_def git_transport_def git_ssh_agent_def py_startswith_def)

text \<open>\<open>Git\<close> asks its \<open>tls\<close> argument whether it is empty before it looks at its type.\<close>

lemma git_tls_of_another_type:
  "\<exists>e. git_new is_empty new url path branch tag commit fmt None cache_dir timeout max_bytes compact_after (Not_tls v) =
     Inl (W_raised e) \<and> ex_class e = ''AttributeError''"
  by (simp add: git_new_def one_transport_def git_transport_def git_anonymous_def)

text \<open>One address given as a string is taken for a list of its characters.\<close>

lemma one_endpoint_becomes_its_characters:
  "etcd_new repr (\<lambda>_. Inr ()) (PStr ''h:2'') ''db.json'' None ''10.0'' None None No_tls =
     Inr \<lparr>st_auth = A_pair None None, st_native = N_etcd [''h'', '':'', ''2''] ''db.json'' None ''10.0'' None\<rparr>"
proof -
  have "py_endswith (py_lower ''db.json'') ''.json''"
    by (simp add: py_endswith_def py_lower_def lower_char_def suffix_def)
  then show ?thesis
    by (simp add: etcd_new_def listed_def text_of_def checked_format_def format_extensions_def unwrapped_def built_def)
qed

subsection \<open>From the compiled store to the engine\<close>

lemma fetched_format: "named \<in> set wheel_formats \<Longrightarrow>
  fetched_of d (PTuple [PStr text, PObj ''Format'' (PStr named)]) = Inr (text, named)"
  by (auto simp: wheel_formats_def fetched_of_def pair_of_def text_of_def format_of_def py_lower_def lower_char_def)

lemma refresh_plain:
  assumes "slot_ok ops" "rm_object s = Some (Plain ob)" "rm_async s = None" "\<not> rm_fetching s"
    "op_describe ops (rm_engine s) \<noteq> None"
  shows "outcome = Inr v \<Longrightarrow> fetched_of (rm_description s) v = Inr f \<Longrightarrow>
      fst (config_refresh_remote ops outcome s) = Inr () \<and>
      op_document ops (rm_engine (snd (config_refresh_remote ops outcome s))) = Some f"
    "outcome = Inl e \<Longrightarrow> ex_is_exception e \<Longrightarrow>
      fst (config_refresh_remote ops outcome s) = Inl (recorded (rm_description s) e, Some e) \<and>
      op_document ops (rm_engine (snd (config_refresh_remote ops outcome s))) = op_document ops (rm_engine s)"
  using assms slot_okD [OF assms(1)]
  by (auto simp: config_refresh_remote_def core_refresh_remote_def object_fetch_def remote_failure_def Let_def split_def)


text \<open>The text the wheel wrote does not reach the error itself: the base wheel withholds the message of
  every exception a \<open>fetch()\<close> raises.\<close>

lemma wheel_message_is_withheld:
  "recorded d (as_exception (W_remote_error m)) = recorded d (as_exception (W_remote_error m'))"
  by (simp add: recorded_def as_exception_def)

subsection \<open>At concrete inputs\<close>

definition rotating :: "string \<Rightarrow> calls" where
  "rotating token = (\<lambda>_. Inr (PStr token))"

definition sample_vault :: "unit store" where
  "sample_vault =
     \<lparr>st_auth = A_vault (vault_token (Callable 0)),
      st_native = N_vault ''https://vault'' ''secret'' ''myapp/db'' ''db'' None ''10.0'' None\<rparr>"

definition vault_server :: "unit fetcher" where
  "vault_server n arguments =
     (if nth (fst arguments) 2 = Some ''new'' then Inr (''{}'', ''json'') else Inl (Store_auth_error ''403''))"


theorem accepted_git_store_is_consistent_witness:
  "\<exists>s. git_new (\<lambda>_. True) (\<lambda>_. Inr ()) ''https://git.example/r.git'' (Path_value (PStr ''db.yaml'')) (Some ''main'') None None
     None (Some (Inr (git_token (Callable 0)))) None None None None (No_tls :: unit tls_argument) = Inr s \<and>
     st_auth s = A_git (git_token (Callable 0)) \<and> py_startswith ''https://git.example/r.git'' ''https://''"
proof -
  let ?new = "git_new (\<lambda>_. True) (\<lambda>_. Inr ()) ''https://git.example/r.git'' (Path_value (PStr ''db.yaml'')) (Some ''main'') None None
     None (Some (Inr (git_token (Callable 0)))) None None None None (No_tls :: unit tls_argument)"
  obtain s where s: "?new = Inr s"
    by (simp add: git_new_def one_transport_def git_transport_def git_token_def py_startswith_def git_keys_argument_def
        text_of_def git_reference_def List.map_filter_simps unwrapped_def built_def)
  from accepted_git_store_is_consistent [OF s] obtain a where "st_auth s = A_git a" by blast
  moreover have "st_auth s = A_git (git_token (Callable 0))"
    using s by (auto simp: git_new_def Let_def rbind_Inr_iff built_Inr)
  ultimately show ?thesis using s by (auto simp: py_startswith_def)
qed

end
