(* ===== verification/Compiled.thy ===== *)
theory Compiled
  imports Wheel
begin

section \<open>The second wheel's compiled half\<close>

text \<open>
  What the eight compiled stores share (\<open>redact.rs\<close>, \<open>errors.rs\<close>, \<open>format.rs\<close>) and how four of
  them keep a client beside the credential it was built with (\<open>vault.rs\<close>, \<open>consul.rs\<close>, \<open>etcd.rs\<close>,
  \<open>redis.rs\<close>). The clients themselves are the store crates': building one, and what a client
  answers, are parameters. A read holds the lock while it looks for its client, so looking is one
  step. \<open>redacted\<close>, the rule that takes a password out of a url, is the shared crate's and a
  parameter too.
\<close>

subsection \<open>Redaction\<close>

type_synonym redactor = "(string \<times> string) list"

definition redactor_new :: "(string \<Rightarrow> string) \<Rightarrow> string list \<Rightarrow> redactor" where
  "redactor_new redacted urls =
     List.map_filter (\<lambda>raw. let safe = redacted raw in if safe \<noteq> raw then Some (raw, safe) else None) urls"

definition stars :: string where
  "stars = ''***''"

definition hide :: "string \<Rightarrow> string \<Rightarrow> string" where
  "hide secret s = (if secret \<noteq> [] then py_replace secret stars s else s)"

definition redactor_scrub :: "redactor \<Rightarrow> string \<Rightarrow> string list \<Rightarrow> string" where
  "redactor_scrub r s secrets = fold hide secrets (fold (\<lambda>(raw, safe). py_replace raw safe) r s)"

record engine_error =
  ee_is_auth :: bool
  ee_text :: string

definition store_raised :: "engine_error \<Rightarrow> redactor \<Rightarrow> string list \<Rightarrow> native_error" where
  "store_raised e r secrets =
     (let message = redactor_scrub r (ee_text e) secrets
      in if ee_is_auth e then Store_auth_error message else Store_error message)"

text \<open>\<open>format.rs\<close>: reading a format's name, and writing it.\<close>

definition format_parsed :: "string \<Rightarrow> string option" where
  "format_parsed named =
     (let f = py_lower named in
      if f \<in> {''json'', ''toml'', ''ini'', ''properties''} then Some f
      else if f \<in> {''yaml'', ''yml''} then Some ''yaml'' else None)"

subsection \<open>Which halves of a credential are secret\<close>

definition vault_secrets :: "string \<times> string \<times> string \<times> string \<Rightarrow> string list" where
  "vault_secrets = (\<lambda>(kind, mount, first, second).
     if kind \<in> {''token'', ''jwt''} then [first]
     else if kind \<in> {''app_role'', ''userpass'', ''ldap''} then [second] else [])"

definition consul_secrets :: "string \<times> string \<times> string \<times> (string \<times> string) list \<Rightarrow> string list" where
  "consul_secrets = (\<lambda>(kind, meth, bearer, meta). if kind \<in> {''token'', ''login''} then [bearer] else [])"

definition pair_secret :: "(string \<times> string) option \<Rightarrow> string" where
  "pair_secret c = (case c of None \<Rightarrow> [] | Some (_, password) \<Rightarrow> password)"

subsection \<open>A client beside its credential\<close>

type_synonym ('c, 'x) slot = "('c \<times> 'x) option"

definition vault_kinds :: "string list" where
  "vault_kinds = [''token'', ''app_role'', ''kubernetes'', ''userpass'', ''ldap'', ''jwt'', ''certificate'']"

definition consul_kinds :: "string list" where
  "consul_kinds = [''anonymous'', ''token'', ''login'', ''login_file'']"

text \<open>\<open>{:?}\<close> of a text without quotes or escapes in it.\<close>

definition not_a_method :: "string \<Rightarrow> string \<Rightarrow> engine_error" where
  "not_a_method kind store = \<lparr>ee_is_auth = False, ee_text = quoted kind @ '' is not a '' @ store @ '' auth method''\<rparr>"

definition vault_client where
  "vault_client build credential slot =
     (let rebuilt = (case credential of (kind, mount, first, second) \<Rightarrow>
        if kind \<notin> set vault_kinds then (Inl (not_a_method kind ''Vault''), slot)
        else (let vault = build credential in (Inr vault, Some (credential, vault))))
      in case slot of
           Some (built_with, vault) \<Rightarrow> if built_with = credential then (Inr vault, slot) else rebuilt
         | None \<Rightarrow> rebuilt)"

definition consul_client where
  "consul_client build credential slot =
     (let rebuilt = (case credential of (kind, meth, bearer, meta) \<Rightarrow>
        if kind \<notin> set consul_kinds then (Inl (not_a_method kind ''Consul''), slot)
        else (let consul = build credential in (Inr consul, Some (credential, consul))))
      in case slot of
           Some (built_with, consul) \<Rightarrow> if built_with = credential then (Inr consul, slot) else rebuilt
         | None \<Rightarrow> rebuilt)"

text \<open>etcd's and Redis' constructors may fail; then the slot keeps what it had.\<close>

definition etcd_client where
  "etcd_client connect credentials slot =
     (let rebuilt = (case connect credentials of
        Inl e \<Rightarrow> (Inl e, slot)
      | Inr etcd \<Rightarrow> (Inr etcd, Some (credentials, etcd)))
      in case slot of
           Some (built_with, etcd) \<Rightarrow> if built_with = credentials then (Inr etcd, slot) else rebuilt
         | None \<Rightarrow> rebuilt)"

subsection \<open>Redis: the credential in the url\<close>

definition unreserved :: "char \<Rightarrow> bool" where
  "unreserved c \<longleftrightarrow>
     (let n = of_char c :: nat in 65 \<le> n \<and> n \<le> 90 \<or> 97 \<le> n \<and> n \<le> 122 \<or> 48 \<le> n \<and> n \<le> 57) \<or> c \<in> set ''-._~''"

definition hex_digit :: "nat \<Rightarrow> char" where
  "hex_digit n = (if n < 10 then char_of (48 + n) else char_of (55 + n))"

definition encoded_char :: "char \<Rightarrow> string" where
  "encoded_char c =
     (if unreserved c then [c]
      else [CHR ''%'', hex_digit (of_char c div 16), hex_digit (of_char c mod 16)])"

definition encoded :: "string \<Rightarrow> string" where
  "encoded component = concat (map encoded_char component)"

text \<open>\<open>split_once\<close> of a text, and the part behind the last occurrence of a character.\<close>

fun split_once :: "string \<Rightarrow> string \<Rightarrow> (string \<times> string) option" where
  "split_once sep s =
     (if prefix sep s then Some ([], drop (length sep) s)
      else (case s of [] \<Rightarrow> None | c # cs \<Rightarrow> map_option (\<lambda>(a, b). (c # a, b)) (split_once sep cs)))"

declare split_once.simps [simp del]

definition behind_last :: "char \<Rightarrow> string \<Rightarrow> string" where
  "behind_last c s = rev (takeWhile (\<lambda>x. x \<noteq> c) (rev s))"

definition authenticated :: "string \<Rightarrow> string \<Rightarrow> string \<Rightarrow> string" where
  "authenticated url user password =
     (case split_once ''://'' url of
        None \<Rightarrow> url
      | Some (scheme, rest) \<Rightarrow>
          scheme @ ''://'' @ encoded user @ '':'' @ encoded password @ ''@'' @ behind_last CHR ''@'' rest)"

definition redis_url :: "string \<Rightarrow> (string \<times> string) option \<Rightarrow> string" where
  "redis_url url credentials =
     (case credentials of None \<Rightarrow> url | Some (user, password) \<Rightarrow> authenticated url user password)"

definition redis_client where
  "redis_client new url credentials slot =
     (let rebuilt = (case new (redis_url url credentials) of
        Inl e \<Rightarrow> (Inl e, slot)
      | Inr redis \<Rightarrow> (Inr redis, Some (credentials, redis)))
      in case slot of
           Some (built_with, redis) \<Rightarrow> if built_with = credentials then (Inr redis, slot) else rebuilt
         | None \<Rightarrow> rebuilt)"

text \<open>\<open>fetch\<close>'s pair: a password alone has the empty user, and no halves are no credentials.\<close>

definition redis_pair :: "string option \<Rightarrow> string option \<Rightarrow> (string \<times> string) option" where
  "redis_pair user password =
     (case (user, password) of
        (None, None) \<Rightarrow> None
      | (u, p) \<Rightarrow> Some (case u of None \<Rightarrow> [] | Some x \<Rightarrow> x, case p of None \<Rightarrow> [] | Some x \<Rightarrow> x))"

definition etcd_pair :: "string option \<Rightarrow> string option \<Rightarrow> (string \<times> string) option" where
  "etcd_pair user password = (case (user, password) of (Some u, Some p) \<Rightarrow> Some (u, p) | _ \<Rightarrow> None)"

text \<open>A fetch: the client for this credential, one read, and a failure scrubbed of what this call used.\<close>

definition vault_fetch where
  "vault_fetch build read redactor credential slot =
     (let (r, slot1) = vault_client build credential slot in
      (case rbind r read of
         Inl e \<Rightarrow> Inl (store_raised e redactor (vault_secrets credential))
       | Inr document \<Rightarrow> Inr (document, ''json''), slot1))"

definition consul_fetch where
  "consul_fetch build read redactor credential slot =
     (let (r, slot1) = consul_client build credential slot in
      (case rbind r read of
         Inl e \<Rightarrow> Inl (store_raised e redactor (consul_secrets credential))
       | Inr answer \<Rightarrow> Inr answer, slot1))"

definition etcd_fetch where
  "etcd_fetch connect read redactor user password slot =
     (let credentials = etcd_pair user password; (r, slot1) = etcd_client connect credentials slot in
      (case rbind r read of
         Inl e \<Rightarrow> Inl (store_raised e redactor [pair_secret credentials])
       | Inr answer \<Rightarrow> Inr answer, slot1))"

definition redis_fetch where
  "redis_fetch new url read redactor user password slot =
     (let credentials = redis_pair user password; (r, slot1) = redis_client new url credentials slot in
      (case rbind r read of
         Inl e \<Rightarrow> Inl (store_raised e redactor [pair_secret credentials])
       | Inr answer \<Rightarrow> Inr answer, slot1))"

subsection \<open>The contract of a slot\<close>

text \<open>A look for a client reuses the one that was built with the credential it has, and otherwise
  builds one or leaves the slot as it was.\<close>

locale credential_slot =
  fixes look :: "'c \<Rightarrow> ('c, 'x) slot \<Rightarrow> ('e, 'x) result \<times> ('c, 'x) slot"
    and make :: "'c \<Rightarrow> ('e, 'x) result"
  assumes reuses: "look c (Some (c, x)) = (Inr x, Some (c, x))"
    and makes: "(\<And>x. slot \<noteq> Some (c, x)) \<Longrightarrow> make c = Inr x \<Longrightarrow> look c slot = (Inr x, Some (c, x))"
    and keeps: "(\<And>x. slot \<noteq> Some (c, x)) \<Longrightarrow> make c = Inl e \<Longrightarrow> look c slot = (Inl e, slot)"
begin

definition honest :: "('c, 'x) slot \<Rightarrow> bool" where
  "honest slot \<longleftrightarrow> (\<forall>c x. slot = Some (c, x) \<longrightarrow> make c = Inr x)"

lemma look_answers: "honest slot \<Longrightarrow> fst (look c slot) = make c"
proof -
  assume h: "honest slot"
  show ?thesis
  proof (cases "\<exists>x. slot = Some (c, x)")
    case True
    with h reuses show ?thesis by (auto simp: honest_def)
  next
    case False
    with makes [of slot c] keeps [of slot c] show ?thesis by (cases "make c") auto
  qed
qed

lemma look_honest: "honest slot \<Longrightarrow> honest (snd (look c slot))"
proof -
  assume h: "honest slot"
  show ?thesis
  proof (cases "\<exists>x. slot = Some (c, x)")
    case True
    with h reuses show ?thesis by (auto simp: honest_def)
  next
    case False
    with h makes [of slot c] keeps [of slot c] show ?thesis by (cases "make c") (auto simp: honest_def)
  qed
qed

fun looks :: "'c list \<Rightarrow> ('c, 'x) slot \<Rightarrow> ('e, 'x) result list \<times> ('c, 'x) slot" where
  "looks [] slot = ([], slot)"
| "looks (c # cs) slot = (let (r, slot1) = look c slot; (rs, slot2) = looks cs slot1 in (r # rs, slot2))"

lemma looks_answer: "honest slot \<Longrightarrow> fst (looks cs slot) = map make cs \<and> honest (snd (looks cs slot))"
proof (induction cs arbitrary: slot)
  case (Cons c cs)
  have "honest (snd (look c slot))" by (rule look_honest [OF Cons.prems])
  from Cons.IH [OF this] look_answers [OF Cons.prems, of c] show ?case by (simp add: split_def Let_def)
qed simp

text \<open>The credential of the slot is the last one a client could be made for.\<close>

lemma looks_slot:
  "honest slot \<Longrightarrow> snd (looks cs slot) =
   fold (\<lambda>c s. case make c of Inr x \<Rightarrow> Some (c, x) | Inl _ \<Rightarrow> s) cs slot"
proof (induction cs arbitrary: slot)
  case (Cons c cs)
  have "snd (look c slot) = (case make c of Inr x \<Rightarrow> Some (c, x) | Inl _ \<Rightarrow> slot)"
  proof (cases "\<exists>x. slot = Some (c, x)")
    case True
    with Cons.prems reuses show ?thesis by (auto simp: honest_def)
  next
    case False
    with makes [of slot c] keeps [of slot c] show ?thesis by (cases "make c") auto
  qed
  with Cons.IH [OF look_honest [OF Cons.prems, of c]] show ?case by (simp add: split_def Let_def)
qed simp

end

definition vault_make where
  "vault_make build credential =
     (if fst credential \<notin> set vault_kinds then Inl (not_a_method (fst credential) ''Vault'') else Inr (build credential))"

definition consul_make where
  "consul_make build credential =
     (if fst credential \<notin> set consul_kinds then Inl (not_a_method (fst credential) ''Consul'') else Inr (build credential))"

interpretation vault: credential_slot "vault_client build" "vault_make build" for build
  by unfold_locales (auto simp: vault_client_def vault_make_def Let_def split: option.splits prod.splits if_splits)

interpretation consul: credential_slot "consul_client build" "consul_make build" for build
  by unfold_locales (auto simp: consul_client_def consul_make_def Let_def split: option.splits prod.splits if_splits)

interpretation etcd: credential_slot "etcd_client connect" connect for connect
  by unfold_locales (auto simp: etcd_client_def Let_def split: option.splits prod.splits if_splits)

interpretation redis: credential_slot "redis_client new url" "\<lambda>credentials. new (redis_url url credentials)" for new url
  by unfold_locales (auto simp: redis_client_def Let_def split: option.splits prod.splits if_splits)

subsection \<open>Fetches one after the other\<close>

fun fetch_all :: "('c \<Rightarrow> 's \<Rightarrow> 'r \<times> 's) \<Rightarrow> 'c list \<Rightarrow> 's \<Rightarrow> 'r list \<times> 's" where
  "fetch_all fetch [] slot = ([], slot)"
| "fetch_all fetch (c # cs) slot =
     (let (r, slot1) = fetch c slot; (rs, slot2) = fetch_all fetch cs slot1 in (r # rs, slot2))"

context credential_slot
begin

lemma honest_None: "honest None"
  by (simp add: honest_def)

lemma fetches_answer:
  assumes "\<And>c slot. fetch c slot = (g c (fst (look (key c) slot)), snd (look (key c) slot))" "honest slot"
  shows "fst (fetch_all fetch cs slot) = map (\<lambda>c. g c (make (key c))) cs"
  using assms(2)
proof (induction cs arbitrary: slot)
  case (Cons c cs)
  have "honest (snd (look (key c) slot))" by (rule look_honest [OF Cons.prems])
  from Cons.IH [OF this] look_answers [OF Cons.prems, of "key c"] show ?case
    by (simp add: assms(1) split_def Let_def)
qed simp

text \<open>A store with a slot answers like the store that builds its client for every fetch.\<close>

lemma fetches_are_fresh:
  assumes "\<And>c slot. fetch c slot = (g c (fst (look (key c) slot)), snd (look (key c) slot))"
  shows "fst (fetch_all fetch cs None) = map (\<lambda>c. fst (fetch c None)) cs"
  using fetches_answer [of fetch g key None cs] look_answers [OF honest_None] assms honest_None by simp

end

subsection \<open>What is taken out stays out\<close>

lemma stars_nonempty [simp]: "stars \<noteq> []"
  by (simp add: stars_def)

lemma star_free: "CHR ''*'' \<notin> set s \<Longrightarrow> set s \<inter> set stars = {}"
  by (auto simp: stars_def)

lemma hide_gone: "s \<noteq> [] \<Longrightarrow> CHR ''*'' \<notin> set s \<Longrightarrow> \<not> sublist s (hide s m)"
  using not_sublist_py_replace [of s stars m] star_free [of s] by (simp add: hide_def)

lemma hide_stays_gone:
  "s \<noteq> [] \<Longrightarrow> CHR ''*'' \<notin> set s \<Longrightarrow> \<not> sublist s m \<Longrightarrow> \<not> sublist s (hide t m)"
  using sublist_py_replace [of t stars s m] star_free [of s] by (auto simp: hide_def)

lemma hide_all_stays_gone:
  "s \<noteq> [] \<Longrightarrow> CHR ''*'' \<notin> set s \<Longrightarrow> \<not> sublist s m \<Longrightarrow> \<not> sublist s (fold hide ts m)"
  by (induction ts arbitrary: m) (simp_all add: hide_stays_gone)

lemma hide_all_gone:
  "s \<in> set ts \<Longrightarrow> s \<noteq> [] \<Longrightarrow> CHR ''*'' \<notin> set s \<Longrightarrow> \<not> sublist s (fold hide ts m)"
proof (induction ts arbitrary: m)
  case (Cons t ts)
  then show ?case using hide_all_stays_gone [OF Cons.prems(2,3) hide_gone [OF Cons.prems(2,3)]] by auto
qed simp

lemma redactor_scrub_hides:
  "s \<in> set secrets \<Longrightarrow> s \<noteq> [] \<Longrightarrow> CHR ''*'' \<notin> set s \<Longrightarrow> \<not> py_in s (redactor_scrub r m secrets)"
  by (simp add: redactor_scrub_def py_in_def hide_all_gone)

text \<open>The half of a Vault login that Python keeps out of its \<open>repr\<close> is the half the compiled half
  scrubs, through every modifier.\<close>

lemma secret_slot_cases:
  "secret_slot kind = Some 0 \<longleftrightarrow> kind \<in> {''token'', ''jwt''}"
  "secret_slot kind = Some 1 \<longleftrightarrow> kind \<in> {''app_role'', ''userpass'', ''ldap''}"
  by (auto simp: secret_slot_def split: if_splits)

definition keeps_the_secret :: "credential \<Rightarrow> vault_auth \<Rightarrow> bool" where
  "keeps_the_secret secret a \<longleftrightarrow>
     secret_slot (va_kind a) = Some 0 \<and> va_first a = secret \<or> secret_slot (va_kind a) = Some 1 \<and> va_second a = secret"

lemma login_keeps_the_secret: "keeps_the_secret secret (vault_login l secret)"
  unfolding keeps_the_secret_def secret_slot_cases
  by (cases l) (simp_all add: vault_token_def vault_app_role_def vault_jwt_def
    vault_userpass_def vault_ldap_def)

lemma modified_keeps_the_secret: "keeps_the_secret secret a \<Longrightarrow> keeps_the_secret secret (modified m a)"
  unfolding keeps_the_secret_def secret_slot_cases
  by (cases m) (auto simp: vault_at_mount_def vault_with_role_def
    vault_with_token_path_def)

lemma all_modified_keep_the_secret: "keeps_the_secret secret a \<Longrightarrow> keeps_the_secret secret (fold modified ms a)"
  by (induction ms arbitrary: a) (simp_all add: modified_keeps_the_secret)

lemma resolve_argument: "resolve calls c argument = Inr s \<Longrightarrow> resolve calls c argument' = Inr s"
  by (auto simp: resolve_def split: sum.splits option.splits)

lemma vault_secret_is_listed:
  assumes "vault_resolve calls (fold modified ms (vault_login l secret)) = Inr c"
    "resolve calls secret argument = Inr s"
  shows "s \<in> set (vault_secrets c)"
proof -
  let ?a = "fold modified ms (vault_login l secret)"
  have keeps: "keeps_the_secret secret ?a"
    by (rule all_modified_keep_the_secret [OF login_keeps_the_secret])
  obtain first second where c: "c = (va_kind ?a, va_mount ?a, first, second)"
    "resolve calls (va_first ?a) (va_kind ?a @ [CHR 0x27] @ ''s first argument'') = Inr first"
    "resolve calls (va_second ?a) (va_kind ?a @ [CHR 0x27] @ ''s second argument'') = Inr second"
    using assms(1) by (auto simp: vault_resolve_def rbind_def split: sum.splits)
  from keeps consider "va_kind ?a \<in> {''token'', ''jwt''}" "va_first ?a = secret"
    | "va_kind ?a \<in> {''app_role'', ''userpass'', ''ldap''}" "va_second ?a = secret"
    unfolding keeps_the_secret_def secret_slot_cases by blast
  then show ?thesis
  proof cases
    case 1
    with c(2) resolve_argument [OF assms(2)] have "first = s" by simp
    with c(1) 1 show ?thesis by (auto simp: vault_secrets_def)
  next
    case 2
    with c(3) resolve_argument [OF assms(2)] have "second = s" by simp
    with c(1) 2 show ?thesis by (auto simp: vault_secrets_def)
  qed
qed

lemma consul_meta_keeps:
  "ca_kind (fold (\<lambda>(name, v). consul_with_meta name v) metas a) = ca_kind a \<and>
   ca_bearer (fold (\<lambda>(name, v). consul_with_meta name v) metas a) = ca_bearer a"
  by (induction metas arbitrary: a) (auto simp: consul_with_meta_def)

lemma consul_secret_is_listed:
  assumes "a \<in> {consul_token secret, consul_jwt meth secret}"
    "consul_resolve calls (fold (\<lambda>(name, v). consul_with_meta name v) metas a) = Inr d"
    "resolve calls secret argument = Inr s"
  shows "s \<in> set (consul_secrets d)"
  using assms(1,2) resolve_argument [OF assms(3)]
  by (auto simp: consul_resolve_def consul_meta_keeps consul_token_def consul_jwt_def consul_secrets_def
    rbind_def split: sum.splits)

fun native_message :: "native_error \<Rightarrow> string" where
  "native_message (Store_auth_error m) = m"
| "native_message (Store_error m) = m"
| "native_message (Other_exception e) = ex_message e"

lemma store_raised_message: "native_message (store_raised e r secrets) = redactor_scrub r (ee_text e) secrets"
  by (simp add: store_raised_def Let_def)

subsection \<open>Percent-encoding\<close>

definition hex_value :: "char \<Rightarrow> nat" where
  "hex_value c = (let n = of_char c :: nat in if n < 58 then n - 48 else n - 55)"

text \<open>The reference reader of an authority component, as RFC 3986 has it.\<close>

fun pct_decode :: "string \<Rightarrow> string" where
  "pct_decode [] = []"
| "pct_decode (c # cs) =
     (if c = CHR ''%'' then
        (case cs of a # b # rest \<Rightarrow> char_of (16 * hex_value a + hex_value b) # pct_decode rest | _ \<Rightarrow> c # cs)
      else c # pct_decode cs)"

lemma hex_round [simp]: "n < 16 \<Longrightarrow> hex_value (hex_digit n) = n"
  by (auto simp: hex_digit_def hex_value_def)

lemma encoded_Cons [simp]: "encoded (c # cs) = encoded_char c @ encoded cs"
  by (simp add: encoded_def)

lemma encoded_Nil [simp]: "encoded [] = []"
  by (simp add: encoded_def)

lemma high_half: "(of_char c :: nat) div 16 < 16"
proof -
  have "(of_char c :: nat) < 16 * 16" by simp
  then show ?thesis by (rule less_mult_imp_div_less)
qed

lemma char_halves: "char_of (16 * (of_char c div 16) + of_char c mod 16 :: nat) = c"
  by simp

lemma unreserved_not_pct: "\<not> unreserved CHR ''%''"
  by (simp add: unreserved_def)

lemma pct_decode_encoded [simp]: "pct_decode (encoded s) = s"
proof (induction s)
  case (Cons c cs)
  from Cons high_half [of c] show ?case
    by (auto simp: encoded_char_def unreserved_not_pct)
qed simp

lemma hex_digit_plain: "n < 16 \<Longrightarrow> unreserved (hex_digit n)"
  by (auto simp: hex_digit_def unreserved_def)

lemma encoded_chars: "x \<in> set (encoded s) \<Longrightarrow> unreserved x \<or> x = CHR ''%''"
proof (induction s)
  case (Cons c cs)
  from Cons high_half [of c] show ?case by (auto simp: encoded_char_def hex_digit_plain split: if_splits)
qed simp

lemma encoded_no_separator: "CHR '':'' \<notin> set (encoded s)" "CHR ''@'' \<notin> set (encoded s)"
  using encoded_chars [of "CHR '':''" s] encoded_chars [of "CHR ''@''" s] by (auto simp: unreserved_def)

lemma behind_last_no: "c \<notin> set (behind_last c s)"
  by (auto simp: behind_last_def dest: set_takeWhileD)

lemma takeWhile_until: "c \<notin> set xs \<Longrightarrow> takeWhile (\<lambda>x. x \<noteq> c) (xs @ c # ys) = xs"
  by (induction xs) auto

lemma behind_last_append: "c \<notin> set ys \<Longrightarrow> behind_last c (xs @ c # ys) = ys"
  by (simp add: behind_last_def takeWhile_until)

subsection \<open>Properties\<close>

text \<open>C20: A store that keeps its client answers, for every sequence of credentials presented to it, exactly
  like the store that builds a new client for every fetch: a rotated credential is never read
  with the old client, and a credential that could not be used leaves nothing behind.\<close>

theorem stores_follow_the_rotation:
  "fst (fetch_all (vault_fetch build read r) vs None) = map (\<lambda>c. fst (vault_fetch build read r c None)) vs \<and>
   fst (fetch_all (consul_fetch build' read' r) cs None) = map (\<lambda>c. fst (consul_fetch build' read' r c None)) cs \<and>
   fst (fetch_all (\<lambda>(u, p). etcd_fetch connect read' r u p) ps None) =
     map (\<lambda>(u, p). fst (etcd_fetch connect read' r u p None)) ps \<and>
   fst (fetch_all (\<lambda>(u, p). redis_fetch new url read' r u p) ps None) =
     map (\<lambda>(u, p). fst (redis_fetch new url read' r u p None)) ps"
proof (intro conjI)
  show "fst (fetch_all (vault_fetch build read r) vs None) = map (\<lambda>c. fst (vault_fetch build read r c None)) vs"
    by (rule vault.fetches_are_fresh [where key = "\<lambda>c. c" and g = "\<lambda>c r'. case rbind r' read of
          Inl e \<Rightarrow> Inl (store_raised e r (vault_secrets c)) | Inr d \<Rightarrow> Inr (d, ''json'')"])
      (simp add: vault_fetch_def split_def Let_def)
  show "fst (fetch_all (consul_fetch build' read' r) cs None) = map (\<lambda>c. fst (consul_fetch build' read' r c None)) cs"
    by (rule consul.fetches_are_fresh [where key = "\<lambda>c. c" and g = "\<lambda>c r'. case rbind r' read' of
          Inl e \<Rightarrow> Inl (store_raised e r (consul_secrets c)) | Inr d \<Rightarrow> Inr d"])
      (simp add: consul_fetch_def split_def Let_def)
  have "fst (fetch_all (\<lambda>(u, p). etcd_fetch connect read' r u p) ps None) =
      map (\<lambda>c. fst ((\<lambda>(u, p). etcd_fetch connect read' r u p) c None)) ps"
    by (rule etcd.fetches_are_fresh [where key = "\<lambda>(u, p). etcd_pair u p" and g = "\<lambda>c r'. case rbind r' read' of
          Inl e \<Rightarrow> Inl (store_raised e r [pair_secret (etcd_pair (fst c) (snd c))]) | Inr d \<Rightarrow> Inr d"])
      (simp add: etcd_fetch_def split_def Let_def)
  then show "fst (fetch_all (\<lambda>(u, p). etcd_fetch connect read' r u p) ps None) =
     map (\<lambda>(u, p). fst (etcd_fetch connect read' r u p None)) ps" by (simp add: split_def)
  have "fst (fetch_all (\<lambda>(u, p). redis_fetch new url read' r u p) ps None) =
      map (\<lambda>c. fst ((\<lambda>(u, p). redis_fetch new url read' r u p) c None)) ps"
    by (rule redis.fetches_are_fresh [where key = "\<lambda>(u, p). redis_pair u p" and g = "\<lambda>c r'. case rbind r' read' of
          Inl e \<Rightarrow> Inl (store_raised e r [pair_secret (redis_pair (fst c) (snd c))]) | Inr d \<Rightarrow> Inr d"])
      (simp add: redis_fetch_def split_def Let_def)
  then show "fst (fetch_all (\<lambda>(u, p). redis_fetch new url read' r u p) ps None) =
     map (\<lambda>(u, p). fst (redis_fetch new url read' r u p None)) ps" by (simp add: split_def)
qed

text \<open>C24: A failed fetch does not quote the credential it used: however a Vault or Consul login was built
  in Python, and for the password of etcd and of Redis, no text of the secret that has no asterisk
  is left in the message, whatever the store crate, the client or the url's redaction wrote.\<close>

theorem failed_fetch_hides_its_credential:
  assumes "s \<noteq> []" "CHR ''*'' \<notin> set s" "resolve calls secret argument = Inr s"
    "vault_resolve calls (fold modified ms (vault_login l secret)) = Inr c \<and>
       fst (vault_fetch build read r c vslot) = Inl e \<or>
     a \<in> {consul_token secret, consul_jwt meth secret} \<and>
       consul_resolve calls (fold (\<lambda>(name, v). consul_with_meta name v) metas a) = Inr d \<and>
       fst (consul_fetch build' read' r d cslot) = Inl e \<or>
     fst (etcd_fetch connect read' r (Some u) (Some s) eslot) = Inl e \<or>
     fst (redis_fetch new url read' r u' (Some s) rslot) = Inl e"
  shows "\<not> py_in s (native_message e)"
proof -
  have "\<exists>x secrets. e = store_raised x r secrets \<and> s \<in> set secrets"
    using assms(4)
  proof (elim disjE conjE)
    assume "vault_resolve calls (fold modified ms (vault_login l secret)) = Inr c"
      and e: "fst (vault_fetch build read r c vslot) = Inl e"
    from vault_secret_is_listed [OF this(1) assms(3)] e show ?thesis
      by (auto simp: vault_fetch_def split_def Let_def split: sum.splits)
  next
    assume "a \<in> {consul_token secret, consul_jwt meth secret}"
      "consul_resolve calls (fold (\<lambda>(name, v). consul_with_meta name v) metas a) = Inr d"
      and e: "fst (consul_fetch build' read' r d cslot) = Inl e"
    from consul_secret_is_listed [OF this(1,2) assms(3)] e show ?thesis
      by (auto simp: consul_fetch_def split_def Let_def split: sum.splits)
  next
    assume "fst (etcd_fetch connect read' r (Some u) (Some s) eslot) = Inl e"
    then show ?thesis
      by (force simp: etcd_fetch_def etcd_pair_def pair_secret_def split_def Let_def split: sum.splits)
  next
    assume "fst (redis_fetch new url read' r u' (Some s) rslot) = Inl e"
    then show ?thesis
      by (force simp: redis_fetch_def redis_pair_def pair_secret_def split_def Let_def split: sum.splits option.splits)
  qed
  then show ?thesis using redactor_scrub_hides assms(1,2) by (auto simp: store_raised_message)
qed


text \<open>A credential the url carried before is gone.\<close>

lemma redis_url_host_has_no_at: "CHR ''@'' \<notin> set (behind_last CHR ''@'' rest)"
  by (rule behind_last_no)

subsection \<open>At the edges\<close>

text \<open>An at sign behind the host is taken for the end of the authority, and the host is lost.\<close>

lemma at_sign_in_the_path_loses_the_host:
  "authenticated ''redis://h:6379/0?name=a@b'' ''u'' ''p'' = ''redis://u:p@b''"
  by (simp add: authenticated_def split_once.simps behind_last_def encoded_char_def unreserved_def)

text \<open>A password that the url has to encode is in the url in a form the scrubber does not look for.\<close>

lemma encoded_password_is_not_scrubbed:
  "redactor_scrub [] (authenticated ''redis://h'' [] ''p@ss'') [''p@ss''] = ''redis://:p%40ss@h''"
  by code_simp

text \<open>Two formats the engine and the compiled half read are refused by the Python half.\<close>

lemma ini_is_refused_by_the_facade:
  "format_parsed ''ini'' = Some ''ini'' \<and> (\<exists>e. checked_format repr key (Some ''ini'') = Inl e)"
  by (simp add: format_parsed_def checked_format_def py_lower_def lower_char_def format_names_def)

subsection \<open>At concrete inputs\<close>


theorem failed_fetch_hides_its_credential_witness:
  "\<not> py_in ''hvs.1'' (native_message (case fst (vault_fetch (\<lambda>_. ())
     (\<lambda>_. (Inl \<lparr>ee_is_auth = True, ee_text = ''403 for token hvs.1''\<rparr> :: (engine_error, string) result)) [] (''token'', [], ''hvs.1'', []) None) of
       Inl e \<Rightarrow> e | Inr _ \<Rightarrow> Store_error []))"
proof -
  let ?read = "\<lambda>_::unit. (Inl \<lparr>ee_is_auth = True, ee_text = ''403 for token hvs.1''\<rparr> :: (engine_error, string) result)"
  let ?c = "(''token'', [], ''hvs.1'', []) :: string \<times> string \<times> string \<times> string"
  let ?secret = "Value (PStr ''hvs.1'')" and ?calls = "\<lambda>_. Inr PNone"
  have e: "fst (vault_fetch (\<lambda>_. ()) ?read [] ?c None) =
      Inl (store_raised \<lparr>ee_is_auth = True, ee_text = ''403 for token hvs.1''\<rparr> [] (vault_secrets ?c))"
    by (simp add: vault_fetch_def vault_client_def vault_kinds_def Let_def)
  have s: "resolve ?calls ?secret [] = Inr ''hvs.1''" by (simp add: resolve_def text_of_def)
  have c: "vault_resolve ?calls (fold modified [] (vault_login L_vault_token ?secret)) = Inr ?c"
    by (simp add: vault_resolve_def vault_token_def no_credential_def resolve_def text_of_def)
  have star: "CHR ''*'' \<notin> set ''hvs.1''" by simp
  from failed_fetch_hides_its_credential [OF _ star s disjI1 [OF conjI [OF c e]]] e
  show ?thesis by simp
qed

end
