(* ===== verification/Closing.thy ===== *)
theory Closing
  imports Prelude
begin

section \<open>The finalization gate: \<open>gate.rs\<close>\<close>

text \<open>
  A background thread enters Python through \<open>attach\<close>: it counts itself, then looks at the flag, and
  backs out if the flag is up. The exit handler raises the flag, then polls the counter until it
  is zero or five seconds have passed. Every atomic operation is a step, and any thread may run
  between two steps; the accesses are sequentially consistent. A call is a place in the list of
  visitors, which starts over when it is outside again; a call made inside another is another
  place. \<open>vi_panics\<close> is a panic of the closure, which skips the second half of \<open>attach\<close>. That
  \<open>py.detach\<close> lets a visitor take the interpreter lock during the wait is not modelled: a visitor
  that was let in may always go on.
\<close>

datatype visitor = Outside | Counted | Cleared | Inside | Returned | Refused

datatype closer = Open | Polling | Drained | Gave_up

record closing =
  cl_finalizing :: bool
  cl_in_python :: nat
  cl_visitors :: "visitor list"
  cl_closer :: closer
  cl_leaked :: nat

definition closing_init :: "nat \<Rightarrow> closing" where
  "closing_init n =
     \<lparr>cl_finalizing = False, cl_in_python = 0, cl_visitors = replicate n Outside, cl_closer = Open, cl_leaked = 0\<rparr>"

definition at :: "nat \<Rightarrow> visitor \<Rightarrow> closing \<Rightarrow> bool" where
  "at i v s \<longleftrightarrow> i < length (cl_visitors s) \<and> cl_visitors s ! i = v"

definition move :: "nat \<Rightarrow> visitor \<Rightarrow> closing \<Rightarrow> closing" where
  "move i v s = s\<lparr>cl_visitors := (cl_visitors s)[i := v]\<rparr>"

definition counted :: "closing \<Rightarrow> closing" where
  "counted s = s\<lparr>cl_in_python := Suc (cl_in_python s)\<rparr>"

definition uncounted :: "closing \<Rightarrow> closing" where
  "uncounted s = s\<lparr>cl_in_python := cl_in_python s - 1\<rparr>"

text \<open>\<open>attach\<close>, one atomic operation at a time.\<close>

inductive visit_step :: "closing \<Rightarrow> closing \<Rightarrow> bool" where
  vi_enters: "at i Outside s \<Longrightarrow> visit_step s (move i Counted (counted s))"
| vi_looks: "at i Counted s \<Longrightarrow> visit_step s (move i (if cl_finalizing s then Refused else Cleared) s)"
| vi_backs_out: "at i Refused s \<Longrightarrow> visit_step s (move i Outside (uncounted s))"
| vi_attaches: "at i Cleared s \<Longrightarrow> visit_step s (move i Inside s)"
| vi_returns: "at i Inside s \<Longrightarrow> visit_step s (move i Returned s)"
| vi_leaves: "at i Returned s \<Longrightarrow> visit_step s (move i Outside (uncounted s))"
| vi_panics: "at i Inside s \<Longrightarrow> visit_step s ((move i Outside s)\<lparr>cl_leaked := Suc (cl_leaked s)\<rparr>)"

text \<open>\<open>_interpreter_closing\<close>.\<close>

inductive close_step :: "closing \<Rightarrow> closing \<Rightarrow> bool" where
  cl_raises: "cl_closer s = Open \<Longrightarrow> close_step s (s\<lparr>cl_finalizing := True, cl_closer := Polling\<rparr>)"
| cl_drains: "cl_closer s = Polling \<Longrightarrow> cl_in_python s = 0 \<Longrightarrow> close_step s (s\<lparr>cl_closer := Drained\<rparr>)"
| cl_times_out: "cl_closer s = Polling \<Longrightarrow> cl_in_python s \<noteq> 0 \<Longrightarrow> close_step s (s\<lparr>cl_closer := Gave_up\<rparr>)"

definition closing_step :: "closing \<Rightarrow> closing \<Rightarrow> bool" where
  "closing_step s t \<longleftrightarrow> visit_step s t \<or> close_step s t"

inductive closing_reach :: "closing \<Rightarrow> bool" where
  cl_start: "closing_reach (closing_init n)"
| cl_next: "closing_reach s \<Longrightarrow> closing_step s t \<Longrightarrow> closing_reach t"

subsection \<open>The invariant\<close>

abbreviation busy :: "visitor \<Rightarrow> bool" where
  "busy v \<equiv> v \<noteq> Outside"

definition attached :: "visitor \<Rightarrow> bool" where
  "attached v \<longleftrightarrow> v = Cleared \<or> v = Inside \<or> v = Returned"

definition closing_inv :: "closing \<Rightarrow> bool" where
  "closing_inv s \<longleftrightarrow>
     cl_in_python s = length (filter busy (cl_visitors s)) + cl_leaked s \<and>
     (cl_finalizing s \<longleftrightarrow> cl_closer s \<noteq> Open) \<and>
     (cl_closer s = Drained \<longrightarrow> cl_leaked s = 0 \<and> (\<forall>v \<in> set (cl_visitors s). \<not> attached v))"

lemma busy_update:
  assumes "i < length vs"
  shows "length (filter busy (vs[i := v])) + (if busy (vs ! i) then 1 else 0) =
    length (filter busy vs) + (if busy v then 1 else 0)"
  using assms
proof (induction vs arbitrary: i)
  case (Cons x xs)
  show ?case
  proof (cases i)
    case 0
    then show ?thesis by simp
  next
    case (Suc j)
    with Cons.IH [of j] Cons.prems show ?thesis by (auto split: if_splits)
  qed
qed simp

lemma in_updated: "v \<in> set (vs[i := w]) \<Longrightarrow> v = w \<or> v \<in> set vs"
  using set_update_subset_insert [of vs i w] by auto

lemmas moves = move_def counted_def uncounted_def at_def

lemma attached_simps [simp]:
  "attached Cleared" "attached Inside" "attached Returned"
  "\<not> attached Outside" "\<not> attached Counted" "\<not> attached Refused"
  by (simp_all add: attached_def)

lemma at_attached: "closing_inv s \<Longrightarrow> at i v s \<Longrightarrow> attached v \<Longrightarrow> cl_closer s \<noteq> Drained"
  by (auto simp: closing_inv_def at_def)

lemma visit_step_inv: "visit_step s t \<Longrightarrow> closing_inv s \<Longrightarrow> closing_inv t"
proof (induction rule: visit_step.induct)
  case (vi_enters i s)
  then show ?case
    using busy_update [of i "cl_visitors s" Counted] by (auto simp: closing_inv_def moves dest!: in_updated)
next
  case (vi_looks i s)
  then show ?case
    using busy_update [of i "cl_visitors s" Refused] busy_update [of i "cl_visitors s" Cleared]
    by (auto simp: closing_inv_def moves dest!: in_updated)
next
  case (vi_backs_out i s)
  then show ?case
    using busy_update [of i "cl_visitors s" Outside] by (auto simp: closing_inv_def moves dest!: in_updated)
next
  case (vi_attaches i s)
  then show ?case
    using busy_update [of i "cl_visitors s" Inside] at_attached [of s i Cleared] by (auto simp: closing_inv_def moves)
next
  case (vi_returns i s)
  then show ?case
    using busy_update [of i "cl_visitors s" Returned] at_attached [of s i Inside] by (auto simp: closing_inv_def moves)
next
  case (vi_leaves i s)
  then show ?case
    using busy_update [of i "cl_visitors s" Outside] at_attached [of s i Returned] by (auto simp: closing_inv_def moves)
next
  case (vi_panics i s)
  then show ?case
    using busy_update [of i "cl_visitors s" Outside] at_attached [of s i Inside] by (auto simp: closing_inv_def moves)
qed

lemma close_step_inv: "close_step s t \<Longrightarrow> closing_inv s \<Longrightarrow> closing_inv t"
  by (induction rule: close_step.induct) (auto simp: closing_inv_def filter_empty_conv)

lemma closing_inv_init: "closing_inv (closing_init n)"
  by (simp add: closing_inv_def closing_init_def)

lemma closing_inv_reach: "closing_reach s \<Longrightarrow> closing_inv s"
proof (induction rule: closing_reach.induct)
  case (cl_start n)
  show ?case by (rule closing_inv_init)
next
  case (cl_next s t)
  then show ?case by (auto simp: closing_step_def intro: visit_step_inv close_step_inv)
qed

subsection \<open>What is left for the visitors to do\<close>

text \<open>The steps a visitor still takes before it is outside.\<close>

fun steps_left :: "visitor \<Rightarrow> nat" where
  "steps_left Outside = 0"
| "steps_left Counted = 4"
| "steps_left Cleared = 3"
| "steps_left Inside = 2"
| "steps_left Returned = 1"
| "steps_left Refused = 1"

definition work :: "closing \<Rightarrow> nat" where
  "work s = sum_list (map steps_left (cl_visitors s))"

lemma work_move:
  assumes "at i v s"
  shows "work (move i w s) + steps_left v = work s + steps_left w"
proof -
  have "sum_list (map steps_left (vs[i := w])) + steps_left (vs ! i) = sum_list (map steps_left vs) + steps_left w"
    if "i < length vs" for vs
    using that
  proof (induction vs arbitrary: i)
    case (Cons x xs)
    then show ?case by (cases i) auto
  qed simp
  with assms show ?thesis by (auto simp: at_def move_def work_def)
qed

lemma work_ignores [simp]:
  "work (counted s) = work s" "work (uncounted s) = work s" "work (s\<lparr>cl_leaked := n\<rparr>) = work s"
  by (simp_all add: work_def counted_def uncounted_def)

lemma at_ignores [simp]: "at i v (uncounted s) = at i v s"
  by (simp add: at_def uncounted_def)

text \<open>Whoever is not outside has a step, which no other step disables, and it is one of those that
  \<open>attach\<close> takes when the closure does not panic.\<close>

lemma visitor_goes_on:
  assumes "at i v s" "v \<noteq> Outside"
  shows "\<exists>t. visit_step s t \<and> work t < work s \<and> cl_leaked t = cl_leaked s \<and> cl_finalizing t = cl_finalizing s \<and>
    cl_closer t = cl_closer s \<and> length (cl_visitors t) = length (cl_visitors s)"
proof -
  have "\<exists>w t. visit_step s t \<and> (t = move i w s \<or> t = move i w (uncounted s)) \<and> steps_left w < steps_left v"
    using assms
  proof (cases v)
    case Counted
    with vi_looks [of i s] assms(1) show ?thesis
      by (intro exI [of _ "if cl_finalizing s then Refused else Cleared"]) auto
  next
    case Cleared
    with vi_attaches [of i s] assms(1) show ?thesis by (intro exI [of _ Inside]) auto
  next
    case Inside
    with vi_returns [of i s] assms(1) show ?thesis by (intro exI [of _ Returned]) auto
  next
    case Returned
    with vi_leaves [of i s] assms(1) show ?thesis by (intro exI [of _ Outside]) auto
  next
    case Refused
    with vi_backs_out [of i s] assms(1) show ?thesis by (intro exI [of _ Outside]) auto
  qed simp
  then obtain w t where t: "visit_step s t" "t = move i w s \<or> t = move i w (uncounted s)" "steps_left w < steps_left v"
    by blast
  have "work t < work s"
    using t(2,3) work_move [OF assms(1), of w] work_move [of i v "uncounted s" w] assms(1) by auto
  with t(1,2) show ?thesis by (auto simp: move_def uncounted_def)
qed

lemma visitors_leave:
  "\<exists>t. visit_step\<^sup>*\<^sup>* s t \<and> (\<forall>v \<in> set (cl_visitors t). v = Outside) \<and> cl_leaked t = cl_leaked s \<and>
     cl_finalizing t = cl_finalizing s \<and> cl_closer t = cl_closer s"
proof (induction "work s" arbitrary: s rule: less_induct)
  case less
  show ?case
  proof (cases "\<forall>v \<in> set (cl_visitors s). v = Outside")
    case True
    then show ?thesis by blast
  next
    case False
    then obtain i v where "at i v s" "v \<noteq> Outside" by (auto simp: at_def in_set_conv_nth)
    from visitor_goes_on [OF this] obtain s1 where s1: "visit_step s s1" "work s1 < work s"
      "cl_leaked s1 = cl_leaked s" "cl_finalizing s1 = cl_finalizing s" "cl_closer s1 = cl_closer s" by blast
    from less [OF s1(2)] obtain t where t: "visit_step\<^sup>*\<^sup>* s1 t" "\<forall>v \<in> set (cl_visitors t). v = Outside"
      "cl_leaked t = cl_leaked s1" "cl_finalizing t = cl_finalizing s1" "cl_closer t = cl_closer s1" by blast
    with s1 show ?thesis by (metis converse_rtranclp_into_rtranclp)
  qed
qed

lemma visits_reach: "visit_step\<^sup>*\<^sup>* s t \<Longrightarrow> closing_reach s \<Longrightarrow> closing_reach t"
  by (induction rule: rtranclp_induct) (auto intro: cl_next simp: closing_step_def)

subsection \<open>Properties\<close>

text \<open>C21: No thread attaches to a dying interpreter: once the exit handler's wait has seen the counter at
  zero, no visitor is inside Python or cleared to go in, in any interleaving, and none ever is
  again, because the state that holds is reached again by every later step.\<close>

theorem drained_gate_lets_nobody_in:
  assumes "closing_reach s" "cl_closer s = Drained" "closing_step\<^sup>*\<^sup>* s t"
  shows "cl_closer t = Drained \<and> (\<forall>v \<in> set (cl_visitors t). v \<noteq> Cleared \<and> v \<noteq> Inside)"
proof -
  have keeps: "cl_closer t = Drained" if "closing_step s t" "cl_closer s = Drained" for s t
    using that by (auto simp: closing_step_def moves elim!: visit_step.cases close_step.cases)
  from assms(3,1,2) have "closing_reach t \<and> cl_closer t = Drained"
    by (induction rule: rtranclp_induct) (auto intro: cl_next keeps)
  then show ?thesis using closing_inv_reach [of t] by (auto simp: closing_inv_def)
qed

text \<open>The wait ends: after the flag is up, whoever is inside can finish and everybody else backs out,
  and with no closure that panicked the counter is then zero, so the handler drains without its
  deadline.\<close>

theorem exit_can_always_drain:
  assumes "closing_reach s" "cl_closer s = Polling" "cl_leaked s = 0"
  shows "\<exists>t. closing_step\<^sup>*\<^sup>* s t \<and> cl_closer t = Drained"
proof -
  obtain t where t: "visit_step\<^sup>*\<^sup>* s t" "\<forall>v \<in> set (cl_visitors t). v = Outside" "cl_leaked t = cl_leaked s"
    "cl_closer t = cl_closer s" using visitors_leave [of s] by blast
  have "closing_inv t" by (rule closing_inv_reach [OF visits_reach [OF t(1) assms(1)]])
  then have "cl_in_python t = 0" using t(2,3) assms(3) by (auto simp: closing_inv_def filter_empty_conv)
  then have "closing_step t (t\<lparr>cl_closer := Drained\<rparr>)"
    using cl_drains [of t] t(4) assms(2) by (simp add: closing_step_def)
  moreover have "closing_step\<^sup>*\<^sup>* s t"
    using t(1) by (induction rule: rtranclp_induct)
      (auto simp: closing_step_def intro: rtranclp.rtrancl_into_rtrancl)
  ultimately have "closing_step\<^sup>*\<^sup>* s (t\<lparr>cl_closer := Drained\<rparr>)"
    by (rule rtranclp.rtrancl_into_rtrancl [rotated])
  then show ?thesis by (intro exI [of _ "t\<lparr>cl_closer := Drained\<rparr>"]) simp
qed

text \<open>A closure that panics leaves the counter up: the handler can only give up.\<close>

lemma panic_keeps_the_exit_waiting:
  assumes "closing_reach s" "0 < cl_leaked s"
  shows "cl_closer s \<noteq> Drained \<and> 0 < cl_in_python s"
  using closing_inv_reach [OF assms(1)] assms(2) by (auto simp: closing_inv_def)

subsection \<open>At concrete inputs\<close>

text \<open>One visitor is inside when the flag is raised, another counts itself after it.\<close>

definition one_inside :: closing where
  "one_inside = \<lparr>cl_finalizing = True, cl_in_python = 1, cl_visitors = [Inside, Outside], cl_closer = Polling,
     cl_leaked = 0\<rparr>"

lemma one_inside_reach: "closing_reach one_inside"
proof -
  let ?s1 = "move 0 Counted (counted (closing_init 2))"
  let ?s2 = "move 0 Cleared ?s1"
  let ?s3 = "move 0 Inside ?s2"
  have s1: "closing_step (closing_init 2) ?s1"
    using vi_enters [of 0 "closing_init 2"] by (simp add: closing_step_def at_def closing_init_def)
  have s2: "closing_step ?s1 ?s2"
    using vi_looks [of 0 ?s1] by (simp add: closing_step_def moves closing_init_def)
  have s3: "closing_step ?s2 ?s3"
    using vi_attaches [of 0 ?s2] by (simp add: closing_step_def moves closing_init_def)
  have s4: "closing_step ?s3 one_inside"
    using cl_raises [of ?s3] by (simp add: closing_step_def moves closing_init_def one_inside_def numeral_2_eq_2)
  show ?thesis by (rule cl_next [OF cl_next [OF cl_next [OF cl_next [OF cl_start s1] s2] s3] s4])
qed

theorem exit_can_always_drain_witness:
  "\<exists>t. closing_step\<^sup>*\<^sup>* one_inside t \<and> cl_closer t = Drained"
  by (rule exit_can_always_drain [OF one_inside_reach]) (simp_all add: one_inside_def)

definition drained_late :: closing where
  "drained_late = (closing_init 1)\<lparr>cl_finalizing := True, cl_closer := Drained\<rparr>"

lemma drained_late_reach: "closing_reach drained_late"
proof -
  let ?s1 = "(closing_init 1)\<lparr>cl_finalizing := True, cl_closer := Polling\<rparr>"
  have "closing_step (closing_init 1) ?s1"
    using cl_raises [of "closing_init 1"] by (simp add: closing_step_def closing_init_def)
  moreover have "closing_step ?s1 drained_late"
    using cl_drains [of ?s1] by (simp add: closing_step_def closing_init_def drained_late_def)
  ultimately show ?thesis by (blast intro: closing_reach.intros)
qed

theorem drained_gate_lets_nobody_in_witness:
  "\<exists>t. closing_step\<^sup>*\<^sup>* drained_late t \<and> cl_visitors t = [Counted] \<and>
     (\<forall>v \<in> set (cl_visitors t). v \<noteq> Cleared \<and> v \<noteq> Inside)"
proof -
  let ?t = "move 0 Counted (counted drained_late)"
  have step: "closing_step\<^sup>*\<^sup>* drained_late ?t"
    using vi_enters [of 0 drained_late] by (auto simp: closing_step_def at_def drained_late_def closing_init_def)
  moreover have "cl_visitors ?t = [Counted]" by (simp add: moves drained_late_def closing_init_def)
  moreover have "cl_closer drained_late = Drained" by (simp add: drained_late_def)
  moreover from drained_gate_lets_nobody_in [OF drained_late_reach this step]
  have "\<forall>v \<in> set (cl_visitors ?t). v \<noteq> Cleared \<and> v \<noteq> Inside" by (rule conjunct2)
  ultimately show ?thesis by (intro exI [of _ ?t]) simp
qed

end
