(* ===== verification/Telemetry.thy ===== *)
theory Telemetry
  imports PyValue
begin

section \<open>Statuses and the exposition: \<open>_telemetry.py\<close>, \<open>telemetry.rs\<close>\<close>

text \<open>
  The engine's two statuses cross the boundary as dictionaries, which \<open>telemetry.rs\<close> writes and the
  frozen dataclasses of \<open>_telemetry.py\<close> are built from. A duration is the text of its seconds. The
  engine's renderer is a parameter of the exposition, which keeps the labels and the statuses it
  was given; the statuses are taken when they are added.
\<close>

subsection \<open>What the engine knows\<close>

record failure =
  fl_kind :: string
  fl_path :: string
  fl_seconds_ago :: string

record config_status =
  cs_generation :: nat
  cs_stale_for :: "string option"
  cs_last_reason :: "string option"
  cs_last_failure :: "failure option"
  cs_consecutive_failures :: nat
  cs_is_healthy :: bool

record remote_status =
  rs_fetches :: nat
  rs_stale_for :: "string option"
  rs_last_fetch_duration :: "string option"
  rs_last_failure :: "failure option"
  rs_consecutive_failures :: nat
  rs_reachable :: "bool option"

subsection \<open>Writing the dictionaries: \<open>telemetry.rs\<close>\<close>

definition optional :: "('a \<Rightarrow> pyval) \<Rightarrow> 'a option \<Rightarrow> pyval" where
  "optional f x = (case x of None \<Rightarrow> PNone | Some v \<Rightarrow> f v)"

definition failure_dict :: "failure option \<Rightarrow> pyval" where
  "failure_dict = optional (\<lambda>f. PDict
     [(''kind'', PStr (fl_kind f)), (''path'', PStr (fl_path f)), (''seconds_ago'', PFloat (fl_seconds_ago f))])"

definition config_status_dict :: "config_status \<Rightarrow> (string, pyval) dict" where
  "config_status_dict s =
     [(''generation'', PInt (int (cs_generation s))), (''stale_for'', optional PFloat (cs_stale_for s)),
      (''last_reason'', optional PStr (cs_last_reason s)), (''last_failure'', failure_dict (cs_last_failure s)),
      (''consecutive_failures'', PInt (int (cs_consecutive_failures s))), (''is_healthy'', PBool (cs_is_healthy s))]"

definition remote_status_dict :: "remote_status \<Rightarrow> (string, pyval) dict" where
  "remote_status_dict s =
     [(''fetches'', PInt (int (rs_fetches s))), (''stale_for'', optional PFloat (rs_stale_for s)),
      (''last_fetch_duration'', optional PFloat (rs_last_fetch_duration s)),
      (''last_failure'', failure_dict (rs_last_failure s)),
      (''consecutive_failures'', PInt (int (rs_consecutive_failures s))), (''reachable'', optional PBool (rs_reachable s))]"

subsection \<open>Reading them: the dataclasses\<close>

text \<open>\<open>raw[key]\<close>, and \<open>int\<close>, \<open>str\<close>, \<open>float\<close> and \<open>bool\<close> of what it holds. What they make of another
  kind of value is not modelled, and is the error here: the engine sends none.\<close>

definition item :: "string \<Rightarrow> (string, pyval) dict \<Rightarrow> (string, pyval) result" where
  "item key raw = (case map_of raw key of None \<Rightarrow> Inl ''KeyError'' | Some v \<Rightarrow> Inr v)"

fun as_nat :: "pyval \<Rightarrow> (string, nat) result" where
  "as_nat (PInt n) = (if n < 0 then Inl ''ValueError'' else Inr (nat n))"
| "as_nat _ = Inl ''TypeError''"

fun as_text :: "pyval \<Rightarrow> (string, string) result" where
  "as_text (PStr s) = Inr s"
| "as_text _ = Inl ''TypeError''"

fun as_seconds :: "pyval \<Rightarrow> (string, string) result" where
  "as_seconds (PFloat x) = Inr x"
| "as_seconds _ = Inl ''TypeError''"

fun as_bool :: "pyval \<Rightarrow> (string, bool) result" where
  "as_bool (PBool b) = Inr b"
| "as_bool _ = Inl ''TypeError''"

text \<open>\<open>None if raw[key] is None else f(raw[key])\<close>.\<close>

definition unless_none :: "(pyval \<Rightarrow> (string, 'a) result) \<Rightarrow> pyval \<Rightarrow> (string, 'a option) result" where
  "unless_none f v = (if v = PNone then Inr None else rbind (f v) (\<lambda>x. Inr (Some x)))"

definition failure_of :: "pyval \<Rightarrow> (string, failure option) result" where
  "failure_of v =
     unless_none (\<lambda>v. let raw = mapping_items v in
       rbind (rbind (item ''kind'' raw) as_text) (\<lambda>kind.
       rbind (rbind (item ''path'' raw) as_text) (\<lambda>path.
       rbind (rbind (item ''seconds_ago'' raw) as_seconds) (\<lambda>ago.
         Inr \<lparr>fl_kind = kind, fl_path = path, fl_seconds_ago = ago\<rparr>)))) v"

definition config_status_of :: "(string, pyval) dict \<Rightarrow> (string, config_status) result" where
  "config_status_of raw =
     rbind (rbind (item ''generation'' raw) as_nat) (\<lambda>generation.
     rbind (rbind (item ''stale_for'' raw) (unless_none as_seconds)) (\<lambda>stale_for.
     rbind (rbind (item ''last_reason'' raw) (unless_none as_text)) (\<lambda>last_reason.
     rbind (rbind (item ''last_failure'' raw) failure_of) (\<lambda>last_failure.
     rbind (rbind (item ''consecutive_failures'' raw) as_nat) (\<lambda>consecutive.
     rbind (rbind (item ''is_healthy'' raw) as_bool) (\<lambda>healthy.
       Inr \<lparr>cs_generation = generation, cs_stale_for = stale_for, cs_last_reason = last_reason,
            cs_last_failure = last_failure, cs_consecutive_failures = consecutive, cs_is_healthy = healthy\<rparr>))))))"

definition remote_status_of :: "(string, pyval) dict \<Rightarrow> (string, remote_status) result" where
  "remote_status_of raw =
     rbind (rbind (item ''fetches'' raw) as_nat) (\<lambda>fetches.
     rbind (rbind (item ''stale_for'' raw) (unless_none as_seconds)) (\<lambda>stale_for.
     rbind (rbind (item ''last_fetch_duration'' raw) (unless_none as_seconds)) (\<lambda>duration.
     rbind (rbind (item ''last_failure'' raw) failure_of) (\<lambda>last_failure.
     rbind (rbind (item ''consecutive_failures'' raw) as_nat) (\<lambda>consecutive.
     rbind (rbind (item ''reachable'' raw) (unless_none as_bool)) (\<lambda>reachable.
       Inr \<lparr>rs_fetches = fetches, rs_stale_for = stale_for, rs_last_fetch_duration = duration,
            rs_last_failure = last_failure, rs_consecutive_failures = consecutive, rs_reachable = reachable\<rparr>))))))"

text \<open>\<open>status()\<close> and \<open>remote_status()\<close>: the engine's record, through the dictionary.\<close>

definition config_status_read :: "config_status \<Rightarrow> (string, config_status) result" where
  "config_status_read s = config_status_of (config_status_dict s)"

definition config_remote_status_read :: "remote_status \<Rightarrow> (string, remote_status) result" where
  "config_remote_status_read s = remote_status_of (remote_status_dict s)"

subsection \<open>The exposition\<close>

type_synonym labels = "(string \<times> string) list"

datatype series = Config_series labels config_status | Remote_series labels remote_status

definition exposition_new :: "series list" where
  "exposition_new = []"

definition exposition_add_with :: "labels \<Rightarrow> config_status \<Rightarrow> series list \<Rightarrow> series list" where
  "exposition_add_with labels s e = e @ [Config_series labels s]"

definition exposition_add :: "string \<Rightarrow> config_status \<Rightarrow> series list \<Rightarrow> series list" where
  "exposition_add name s e = exposition_add_with [(''config'', name)] s e"

definition exposition_add_remote_with :: "labels \<Rightarrow> remote_status \<Rightarrow> series list \<Rightarrow> series list" where
  "exposition_add_remote_with labels s e = e @ [Remote_series labels s]"

definition exposition_add_remote :: "string \<Rightarrow> remote_status \<Rightarrow> series list \<Rightarrow> series list" where
  "exposition_add_remote name s e = exposition_add_remote_with [(''config'', name)] s e"

definition exposition_render :: "(series list \<Rightarrow> string) \<Rightarrow> series list \<Rightarrow> string" where
  "exposition_render render e = render e"

subsection \<open>Nothing is lost at the boundary\<close>

lemma optional_simps [simp]: "optional f None = PNone" "optional f (Some v) = f v"
  by (simp_all add: optional_def)

lemma unless_none_optional:
  "(\<And>v. f (g v) = Inr v) \<Longrightarrow> (\<And>v. g v \<noteq> PNone) \<Longrightarrow> unless_none f (optional g x) = Inr x"
  by (cases x) (simp_all add: unless_none_def)

lemma failure_of_dict: "failure_of (failure_dict f) = Inr f"
  by (cases f) (simp_all add: failure_of_def failure_dict_def unless_none_def item_def)

text \<open>What the dataclasses hold is what the engine knew: both statuses come back from the dictionary
  field by field, the absent ones absent.\<close>

theorem statuses_cross_whole:
  "config_status_read s = Inr s \<and> config_remote_status_read r = Inr r"
  by (simp add: config_status_read_def config_remote_status_read_def config_status_of_def remote_status_of_def
    config_status_dict_def remote_status_dict_def item_def failure_of_dict unless_none_optional)

end
