(* ===== verification/Events.thy ===== *)
theory Events
  imports Notifier Telemetry Diagnostics
begin

section \<open>The event stream: \<open>EventNotifier\<close> and \<open>events()\<close>\<close>

text \<open>
  The notifier that refusals wake too, and the iterator over typed events. The steps are cut as in
  the theory \<open>Notifier\<close>: an install bumps the generation with the new model in the native cache
  and runs the hooks in a second step; a refusal bumps its own counter. The engine's status moves
  with the counters. The iterator registers, reads the two counters, one after the other, and
  either takes what is current or awaits; what it yields is recorded. The status is read when an
  event is made, not when the wake was.
\<close>

subsection \<open>Events\<close>

datatype event =
    Reloaded nat "string list" string
  | ReloadFailed nat string string nat

definition refusal :: "config_status \<Rightarrow> nat \<Rightarrow> event" where
  "refusal status consecutive =
     (case cs_last_failure status of
        None \<Rightarrow> ReloadFailed (cs_generation status) ''unknown'' [] consecutive
      | Some f \<Rightarrow> ReloadFailed (cs_generation status) (fl_kind f) (fl_path f) consecutive)"

definition reloaded :: "('m \<Rightarrow> 'm \<Rightarrow> (string \<times> string) list) \<Rightarrow> config_status \<Rightarrow> 'm option \<Rightarrow> 'm \<Rightarrow> event" where
  "reloaded differ status before model =
     Reloaded (cs_generation status)
       (case before of None \<Rightarrow> [] | Some old \<Rightarrow> map ch_path (changed_paths differ old model))
       (case cs_last_reason status of None \<Rightarrow> ''manual'' | Some r \<Rightarrow> if r = [] then ''manual'' else r)"

subsection \<open>The notifier\<close>

type_synonym 'm news = "(nat \<times> nat \<times> 'm option) option"

datatype 'w promise = Open_promise | Kept 'w | Cancelled

datatype 'm watcher =
    Absent
  | Waits nat nat
  | Awake nat nat nat
  | Holds "'m news"
  | Looks nat nat
  | Ends

record 'm wire =
  x_generation :: nat
  x_refusals :: nat
  x_cache :: "'m option"
  x_cached :: "'m option"
  x_unpublished :: "'m list"
  x_released :: bool
  x_status :: config_status
  y_closed :: bool
  y_waiters :: "nat list"
  y_thread :: "'m watcher"
  y_futures :: "'m news promise list"

definition fresh_status :: config_status where
  "fresh_status =
     \<lparr>cs_generation = 0, cs_stale_for = None, cs_last_reason = None, cs_last_failure = None,
      cs_consecutive_failures = 0, cs_is_healthy = True\<rparr>"

definition wire_init :: "'m wire" where
  "wire_init =
     \<lparr>x_generation = 0, x_refusals = 0, x_cache = None, x_cached = None, x_unpublished = [], x_released = False,
      x_status = fresh_status, y_closed = False, y_waiters = [], y_thread = Absent, y_futures = []\<rparr>"

definition wire_install :: "'m \<Rightarrow> string \<Rightarrow> 'm wire \<Rightarrow> 'm wire" where
  "wire_install m reason b =
     b\<lparr>x_generation := Suc (x_generation b), x_cache := Some m, x_unpublished := x_unpublished b @ [m],
       x_status := (x_status b)\<lparr>cs_generation := Suc (cs_generation (x_status b)), cs_last_reason := Some reason,
         cs_consecutive_failures := 0, cs_is_healthy := True\<rparr>\<rparr>"

definition wire_publish :: "'m wire \<Rightarrow> 'm wire" where
  "wire_publish b =
     (case x_unpublished b of [] \<Rightarrow> b | m # rest \<Rightarrow> b\<lparr>x_cached := Some m, x_unpublished := rest\<rparr>)"

definition wire_refuse :: "failure \<Rightarrow> 'm wire \<Rightarrow> 'm wire" where
  "wire_refuse f b =
     b\<lparr>x_refusals := Suc (x_refusals b),
       x_status := (x_status b)\<lparr>cs_last_failure := Some f,
         cs_consecutive_failures := Suc (cs_consecutive_failures (x_status b)), cs_is_healthy := False\<rparr>\<rparr>"

definition wire_release :: "'m wire \<Rightarrow> 'm wire" where
  "wire_release b = b\<lparr>x_cache := None, x_released := True\<rparr>"

text \<open>\<open>EventNotifier._start_locked\<close>, \<open>wait\<close>, \<open>_resolve_all\<close> and \<open>close\<close>.\<close>

definition event_start_locked :: "'m wire \<Rightarrow> 'm wire" where
  "event_start_locked b =
     (if y_thread b \<noteq> Absent then b else b\<lparr>y_thread := Waits (x_generation b) (x_refusals b)\<rparr>)"

definition event_wait :: "'m wire \<Rightarrow> nat \<times> 'm wire" where
  "event_wait b =
     (let f = length (y_futures b) in
      if y_closed b then (f, b\<lparr>y_futures := y_futures b @ [Kept None]\<rparr>)
      else (f, event_start_locked (b\<lparr>y_futures := y_futures b @ [Open_promise], y_waiters := y_waiters b @ [f]\<rparr>)))"

definition keep_promise :: "'w \<Rightarrow> 'w promise \<Rightarrow> 'w promise" where
  "keep_promise w p = (if p = Open_promise then Kept w else p)"

definition event_resolve_all :: "'m news \<Rightarrow> 'm wire \<Rightarrow> 'm wire" where
  "event_resolve_all w b =
     b\<lparr>y_waiters := [], y_futures := fold (\<lambda>i fs. fs[i := keep_promise w (fs ! i)]) (y_waiters b) (y_futures b)\<rparr>"

definition event_close :: "'m wire \<Rightarrow> 'm wire" where
  "event_close b = event_resolve_all None (b\<lparr>y_closed := True\<rparr>)"

definition event_cancel :: "nat \<Rightarrow> 'm wire \<Rightarrow> 'm wire" where
  "event_cancel f b =
     (if f < length (y_futures b) \<and> y_futures b ! f = Open_promise
      then b\<lparr>y_futures := (y_futures b)[f := Cancelled]\<rparr> else b)"

text \<open>\<open>EventNotifier._run\<close>: the model rides along only when the generation moved.\<close>

inductive event_thread_step :: "'m wire \<Rightarrow> 'm wire \<Rightarrow> bool" where
  et_awake: "y_thread b = Waits g r \<Longrightarrow> g < x_generation b \<or> r < x_refusals b \<Longrightarrow>
     event_thread_step b (b\<lparr>y_thread := Awake g (x_generation b) (x_refusals b)\<rparr>)"
| et_released: "y_thread b = Waits g r \<Longrightarrow> \<not> g < x_generation b \<Longrightarrow> \<not> r < x_refusals b \<Longrightarrow> x_released b \<Longrightarrow>
     event_thread_step b (b\<lparr>y_thread := Holds None\<rparr>)"
| et_read: "y_thread b = Awake g g' r \<Longrightarrow>
     event_thread_step b (b\<lparr>y_thread := Holds (Some (g', r, if g < g' then x_cache b else None))\<rparr>)"
| et_resolve: "y_thread b = Holds w \<Longrightarrow>
     event_thread_step b ((event_resolve_all w b)\<lparr>y_thread :=
       (case w of None \<Rightarrow> Ends | Some (g, r, _) \<Rightarrow> Looks g r)\<rparr>)"
| et_look: "y_thread b = Looks g r \<Longrightarrow>
     event_thread_step b (b\<lparr>y_thread := (if y_waiters b = [] then Absent else Waits g r)\<rparr>)"
| et_ends: "y_thread b = Ends \<Longrightarrow> event_thread_step b (b\<lparr>y_thread := Absent\<rparr>)"

inductive wire_step :: "'m wire \<Rightarrow> 'm wire \<Rightarrow> bool" where
  wi_install: "\<not> x_released b \<Longrightarrow> wire_step b (wire_install m reason b)"
| wi_publish: "wire_step b (wire_publish b)"
| wi_refuse: "\<not> x_released b \<Longrightarrow> wire_step b (wire_refuse f b)"
| wi_release: "wire_step b (wire_release b)"
| wi_wait: "wire_step b (snd (event_wait b))"
| wi_cancel: "wire_step b (event_cancel f b)"
| wi_close: "wire_step b (event_close b)"
| wi_thread: "event_thread_step b c \<Longrightarrow> wire_step b c"

subsection \<open>\<open>_events()\<close>\<close>

datatype 'm stage =
    Rest
  | Joined nat
  | Counted_to nat nat
  | Took nat "'m news"
  | Pending nat
  | Serving nat "'m option"
  | Over

record 'm events =
  ev_seen :: nat
  ev_seen_refusals :: nat
  ev_previous :: "'m option"
  ev_stage :: "'m stage"
  ev_reports :: "(bool \<times> nat) list"
  ev_yielded :: "event list"

definition events_start :: "'m wire \<Rightarrow> 'm events" where
  "events_start b =
     \<lparr>ev_seen = x_generation b, ev_seen_refusals = x_refusals b, ev_previous = x_cached b, ev_stage = Rest,
      ev_reports = [], ev_yielded = []\<rparr>"

text \<open>\<open>ev_reports\<close> is a record for the proofs: which counter each event was made for. What the iterator
  does with a wake, up to its first yield: the refusal first.\<close>

definition events_take :: "'m news \<Rightarrow> config_status \<Rightarrow> 'm events \<Rightarrow> 'm events" where
  "events_take wake status c =
     (case wake of
        None \<Rightarrow> c\<lparr>ev_stage := Over\<rparr>
      | Some (generation, refusals, model) \<Rightarrow>
          (if ev_seen_refusals c < refusals
           then c\<lparr>ev_seen_refusals := refusals, ev_stage := Serving generation model,
                  ev_reports := ev_reports c @ [(False, refusals)],
                  ev_yielded := ev_yielded c @ [refusal status (cs_consecutive_failures status)]\<rparr>
           else c\<lparr>ev_stage := Serving generation model\<rparr>))"

definition events_serve ::
  "('m \<Rightarrow> 'm \<Rightarrow> (string \<times> string) list) \<Rightarrow> nat \<Rightarrow> 'm option \<Rightarrow> config_status \<Rightarrow> 'm events \<Rightarrow> 'm events" where
  "events_serve differ generation model status c =
     (if generation \<le> ev_seen c then c\<lparr>ev_stage := Rest\<rparr>
      else (case model of
          None \<Rightarrow> c\<lparr>ev_stage := Over\<rparr>
        | Some m \<Rightarrow> c\<lparr>ev_seen := generation, ev_previous := Some m, ev_stage := Rest,
            ev_reports := ev_reports c @ [(True, generation)],
            ev_yielded := ev_yielded c @ [reloaded differ status (ev_previous c) m]\<rparr>))"

inductive events_step ::
  "('m \<Rightarrow> 'm \<Rightarrow> (string \<times> string) list) \<Rightarrow> 'm wire \<times> 'm events \<Rightarrow> 'm wire \<times> 'm events \<Rightarrow> bool" for differ where
  es_wait: "ev_stage c = Rest \<Longrightarrow>
     events_step differ (b, c) (snd (event_wait b), c\<lparr>ev_stage := Joined (fst (event_wait b))\<rparr>)"
| es_generation: "ev_stage c = Joined f \<Longrightarrow>
     events_step differ (b, c) (b, c\<lparr>ev_stage := Counted_to f (x_generation b)\<rparr>)"
| es_refusals: "ev_stage c = Counted_to f now \<Longrightarrow>
     events_step differ (b, c)
       (if ev_seen c < now \<or> ev_seen_refusals c < x_refusals b
        then (event_cancel f b, c\<lparr>ev_stage := Took now (Some (now, x_refusals b, None))\<rparr>)
        else (b, c\<lparr>ev_stage := Pending f\<rparr>))"
| es_current: "ev_stage c = Took now (Some (now, r, None)) \<Longrightarrow>
     events_step differ (b, c)
       (b, events_take (Some (now, r, if ev_seen c < now then x_cached b else None)) (x_status b) c)"
| es_woken: "ev_stage c = Pending f \<Longrightarrow> f < length (y_futures b) \<Longrightarrow> y_futures b ! f = Kept w \<Longrightarrow>
     events_step differ (b, c) (b, events_take w (x_status b) c)"
| es_serve: "ev_stage c = Serving g model \<Longrightarrow>
     events_step differ (b, c) (b, events_serve differ g model (x_status b) c)"

inductive events_reach ::
  "('m \<Rightarrow> 'm \<Rightarrow> (string \<times> string) list) \<Rightarrow> 'm wire \<times> 'm events \<Rightarrow> bool" for differ where
  er_here: "wire_step\<^sup>*\<^sup>* wire_init b \<Longrightarrow> events_reach differ (b, events_start b)"
| er_wire: "events_reach differ (b, c) \<Longrightarrow> wire_step b b' \<Longrightarrow> events_reach differ (b', c)"
| er_events: "events_reach differ s \<Longrightarrow> events_step differ s t \<Longrightarrow> events_reach differ t"

subsection \<open>The invariants\<close>

fun thread_at :: "'m watcher \<Rightarrow> (nat \<times> nat) option" where
  "thread_at (Waits g r) = Some (g, r)"
| "thread_at (Awake _ g r) = Some (g, r)"
| "thread_at (Holds (Some (g, r, _))) = Some (g, r)"
| "thread_at (Looks g r) = Some (g, r)"
| "thread_at _ = None"

text \<open>Nobody knows of a counter that was not reached, an open future is registered, and while the
  configuration lives a registered future has a thread that is not ending.\<close>

definition news_ok :: "'m wire \<Rightarrow> bool" where
  "news_ok b \<longleftrightarrow>
     (\<forall>g r. thread_at (y_thread b) = Some (g, r) \<longrightarrow> g \<le> x_generation b \<and> r \<le> x_refusals b) \<and>
     (\<forall>p \<in> set (y_futures b). \<forall>g r m. p = Kept (Some (g, r, m)) \<longrightarrow> g \<le> x_generation b \<and> r \<le> x_refusals b)"

definition open_ok :: "'m wire \<Rightarrow> bool" where
  "open_ok b \<longleftrightarrow>
     (\<forall>f < length (y_futures b). y_futures b ! f = Open_promise \<longrightarrow> f \<in> set (y_waiters b)) \<and>
     (\<forall>f \<in> set (y_waiters b). f < length (y_futures b))"

definition served_ok :: "'m wire \<Rightarrow> bool" where
  "served_ok b \<longleftrightarrow> (\<not> x_released b \<longrightarrow>
     (y_waiters b \<noteq> [] \<longrightarrow> y_thread b \<noteq> Absent) \<and> y_thread b \<noteq> Ends \<and> y_thread b \<noteq> Holds None)"

lemma keep_promise_simps [simp]:
  "keep_promise w p \<noteq> Open_promise" "keep_promise w (keep_promise w p) = keep_promise w p"
  "keep_promise w p = Kept v \<longleftrightarrow> p = Kept v \<or> p = Open_promise \<and> v = w"
  by (auto simp: keep_promise_def)

lemma fold_keep:
  "length (fold (\<lambda>i fs. fs[i := keep_promise w (fs ! i)]) ws fs) = length fs \<and>
   (\<forall>j < length fs. fold (\<lambda>i fs. fs[i := keep_promise w (fs ! i)]) ws fs ! j =
      (if j \<in> set ws then keep_promise w (fs ! j) else fs ! j))"
proof (induction ws arbitrary: fs)
  case (Cons i ws)
  show ?case
    using Cons.IH [of "fs[i := keep_promise w (fs ! i)]"]
    by (cases "i < length fs") (auto simp: nth_list_update list_update_beyond)
qed simp

lemma event_resolve_all_simps [simp]:
  "length (y_futures (event_resolve_all w b)) = length (y_futures b)"
  "j < length (y_futures b) \<Longrightarrow> y_futures (event_resolve_all w b) ! j =
     (if j \<in> set (y_waiters b) then keep_promise w (y_futures b ! j) else y_futures b ! j)"
  "y_waiters (event_resolve_all w b) = []" "x_generation (event_resolve_all w b) = x_generation b"
  "x_refusals (event_resolve_all w b) = x_refusals b" "x_released (event_resolve_all w b) = x_released b"
  "y_thread (event_resolve_all w b) = y_thread b" "y_closed (event_resolve_all w b) = y_closed b"
  by (simp_all add: event_resolve_all_def fold_keep)

lemma event_resolve_all_kept:
  "Kept v \<in> set (y_futures (event_resolve_all w b)) \<Longrightarrow> Kept v \<in> set (y_futures b) \<or> v = w"
  by (auto simp: in_set_conv_nth split: if_splits)

lemmas wire_defs = wire_install_def wire_publish_def wire_refuse_def wire_release_def event_wait_def
  event_start_locked_def event_cancel_def event_close_def Let_def

lemma news_ok_thread: "event_thread_step b c \<Longrightarrow> news_ok b \<Longrightarrow> news_ok c"
proof (induction rule: event_thread_step.induct)
  case (et_resolve b w)
  then show ?case
    by (auto simp: news_ok_def dest!: event_resolve_all_kept split: option.splits)
qed (auto simp: news_ok_def)

lemma news_ok_step: "wire_step b c \<Longrightarrow> news_ok b \<Longrightarrow> news_ok c"
proof (induction rule: wire_step.induct)
  case (wi_install b m reason)
  then show ?case by (auto simp: news_ok_def wire_defs le_SucI)
next
  case (wi_refuse b f)
  then show ?case by (auto simp: news_ok_def wire_defs le_SucI)
next
  case (wi_wait b)
  then show ?case by (auto simp: news_ok_def wire_defs)
next
  case (wi_cancel b f)
  then show ?case
    by (fastforce simp: news_ok_def wire_defs dest!: set_update_subset_insert [THEN subsetD])
next
  case (wi_close b)
  then show ?case by (auto simp: news_ok_def wire_defs dest!: event_resolve_all_kept)
next
  case (wi_thread b c)
  then show ?case by (rule news_ok_thread)
qed (auto simp: news_ok_def wire_publish_def wire_release_def split: list.splits)

lemma open_ok_thread_update [simp]: "open_ok (b\<lparr>y_thread := t\<rparr>) = open_ok b"
  by (simp add: open_ok_def)

lemma open_ok_resolve: "open_ok b \<Longrightarrow> open_ok (event_resolve_all w b)"
  by (auto simp: open_ok_def)

lemma open_ok_step: "wire_step b c \<Longrightarrow> open_ok b \<Longrightarrow> open_ok c"
proof (induction rule: wire_step.induct)
  case (wi_wait b)
  then show ?case by (auto simp: open_ok_def wire_defs nth_append less_Suc_eq)
next
  case (wi_cancel b f)
  then show ?case by (auto simp: open_ok_def wire_defs nth_list_update)
next
  case (wi_close b)
  have "open_ok (b\<lparr>y_closed := True\<rparr>)" using wi_close by (simp add: open_ok_def)
  then show ?case by (simp add: event_close_def open_ok_resolve)
next
  case (wi_thread b c)
  then show ?case by (auto elim!: event_thread_step.cases simp: open_ok_resolve)
qed (auto simp: open_ok_def wire_defs split: list.splits)

lemma served_ok_step: "wire_step b c \<Longrightarrow> served_ok b \<Longrightarrow> served_ok c"
proof (induction rule: wire_step.induct)
  case (wi_thread b c)
  then show ?case by (auto elim!: event_thread_step.cases simp: served_ok_def split: option.splits if_splits)
qed (auto simp: served_ok_def wire_defs split: list.splits)

lemma wire_ok:
  assumes "wire_step\<^sup>*\<^sup>* wire_init b"
  shows "news_ok b \<and> open_ok b \<and> served_ok b"
  using assms
proof (induction rule: rtranclp_induct)
  case base
  show ?case by (simp add: wire_init_def news_ok_def open_ok_def served_ok_def)
next
  case (step b c)
  then show ?case by (blast intro: news_ok_step open_ok_step served_ok_step)
qed

subsection \<open>What the iterator has told\<close>

definition told :: "bool \<Rightarrow> (bool \<times> nat) list \<Rightarrow> nat list" where
  "told kind reports = map snd (filter (\<lambda>r. fst r = kind) reports)"

definition is_install :: "event \<Rightarrow> bool" where
  "is_install e = (case e of Reloaded _ _ _ \<Rightarrow> True | ReloadFailed _ _ _ _ \<Rightarrow> False)"

lemma told_simps [simp]:
  "told kind [] = []" "told kind (rs @ [(k, n)]) = told kind rs @ (if k = kind then [n] else [])"
  by (simp_all add: told_def)

lemma is_install_simps [simp]: "is_install (reloaded differ s before m)" "\<not> is_install (refusal s n)"
  by (simp_all add: is_install_def reloaded_def refusal_def split: option.splits)

definition told_ok :: "'m events \<Rightarrow> bool" where
  "told_ok c \<longleftrightarrow>
     sorted_wrt (<) (told True (ev_reports c)) \<and> (\<forall>g \<in> set (told True (ev_reports c)). g \<le> ev_seen c) \<and>
     sorted_wrt (<) (told False (ev_reports c)) \<and> (\<forall>r \<in> set (told False (ev_reports c)). r \<le> ev_seen_refusals c) \<and>
     map is_install (ev_yielded c) = map fst (ev_reports c)"

lemma told_ok_take: "told_ok c \<Longrightarrow> told_ok (events_take w s c)"
  by (auto simp: told_ok_def events_take_def sorted_wrt_append split: option.splits)

lemma told_ok_serve: "told_ok c \<Longrightarrow> told_ok (events_serve differ g m s c)"
  by (auto simp: told_ok_def events_serve_def sorted_wrt_append split: option.splits)

lemma told_ok_step: "events_step differ s t \<Longrightarrow> told_ok (snd s) \<Longrightarrow> told_ok (snd t)"
proof (induction rule: events_step.induct)
  case (es_wait c b)
  then show ?case by (simp add: told_ok_def)
next
  case (es_generation c f b)
  then show ?case by (simp add: told_ok_def)
next
  case (es_refusals c f now b)
  then show ?case by (simp add: told_ok_def)
qed (simp_all add: told_ok_take told_ok_serve)

text \<open>The iterator knows of no counter that was not reached, and while it waits the thread's baseline
  is not ahead of what it has seen.\<close>

definition known_ok :: "'m wire \<Rightarrow> 'm events \<Rightarrow> bool" where
  "known_ok b c \<longleftrightarrow> ev_seen c \<le> x_generation b \<and> ev_seen_refusals c \<le> x_refusals b \<and>
     (case ev_stage c of
        Counted_to f now \<Rightarrow> now \<le> x_generation b
      | Took _ (Some (g, r, _)) \<Rightarrow> g \<le> x_generation b \<and> r \<le> x_refusals b
      | Serving g _ \<Rightarrow> g \<le> x_generation b
      | _ \<Rightarrow> True)"

definition baseline :: "'m watcher \<Rightarrow> (nat \<times> nat) option" where
  "baseline t = (case t of Waits g r \<Rightarrow> Some (g, r) | Looks g r \<Rightarrow> Some (g, r) | _ \<Rightarrow> None)"

lemma baseline_simps [simp]:
  "baseline (Waits g r) = Some (g, r)" "baseline (Looks g r) = Some (g, r)" "baseline Absent = None"
  "baseline (Awake a g r) = None" "baseline (Holds w) = None" "baseline Ends = None"
  by (simp_all add: baseline_def)

definition waits_ok :: "'m wire \<Rightarrow> 'm events \<Rightarrow> bool" where
  "waits_ok b c \<longleftrightarrow>
     (case ev_stage c of
        Joined f \<Rightarrow> f < length (y_futures b)
      | Counted_to f now \<Rightarrow> f < length (y_futures b) \<and>
          (\<forall>g r. \<not> x_released b \<longrightarrow> y_futures b ! f = Open_promise \<longrightarrow> baseline (y_thread b) = Some (g, r) \<longrightarrow>
             g \<le> now)
      | Pending f \<Rightarrow> f < length (y_futures b) \<and>
          (\<forall>g r. \<not> x_released b \<longrightarrow> y_futures b ! f = Open_promise \<longrightarrow> baseline (y_thread b) = Some (g, r) \<longrightarrow>
             g \<le> ev_seen c \<and> r \<le> ev_seen_refusals c)
      | _ \<Rightarrow> True)"

text \<open>While the configuration lives, a step of the others leaves an open future's place and either
  keeps the thread's baseline or resolves the future.\<close>

lemma thread_keeps_the_baseline:
  assumes "event_thread_step b c" "open_ok b" "f < length (y_futures b)"
  shows "f < length (y_futures c) \<and> (x_released c \<longleftrightarrow> x_released b) \<and> (y_futures c ! f = Open_promise \<longrightarrow>
     y_futures b ! f = Open_promise \<and> (baseline (y_thread c) = None \<or> baseline (y_thread c) = baseline (y_thread b)))"
  using assms
  by (cases rule: event_thread_step.cases) (auto simp: open_ok_def split: option.splits if_splits)

lemma step_keeps_the_baseline:
  assumes "wire_step b c" "open_ok b" "served_ok b" "f < length (y_futures b)"
  shows "f < length (y_futures c) \<and> (\<not> x_released c \<longrightarrow> y_futures c ! f = Open_promise \<longrightarrow> \<not> x_released b \<and>
     y_futures b ! f = Open_promise \<and> (baseline (y_thread c) = None \<or> baseline (y_thread c) = baseline (y_thread b)))"
  using assms
proof (cases rule: wire_step.cases)
  case wi_wait
  with assms show ?thesis
    by (auto simp: wire_defs open_ok_def served_ok_def nth_append)
next
  case wi_close
  with assms show ?thesis by (auto simp: wire_defs open_ok_def)
next
  case wi_thread
  with thread_keeps_the_baseline [OF this assms(2,4)] show ?thesis by auto
qed (auto simp: wire_defs nth_list_update split: list.splits if_splits)

lemma counters_grow: "wire_step b c \<Longrightarrow> x_generation b \<le> x_generation c \<and> x_refusals b \<le> x_refusals c"
proof (induction rule: wire_step.induct)
  case (wi_thread b c)
  then show ?case by (auto elim!: event_thread_step.cases)
qed (auto simp: wire_defs split: list.splits)

lemma known_ok_wire: "wire_step b b' \<Longrightarrow> known_ok b c \<Longrightarrow> known_ok b' c"
  by (drule counters_grow) (auto simp: known_ok_def split: stage.splits option.splits)

lemma waits_ok_wire:
  assumes "wire_step b b'" "open_ok b" "served_ok b" "waits_ok b c"
  shows "waits_ok b' c"
proof -
  have "f < length (y_futures b) \<Longrightarrow> f < length (y_futures b') \<and> (\<not> x_released b' \<longrightarrow>
      y_futures b' ! f = Open_promise \<longrightarrow> \<not> x_released b \<and> y_futures b ! f = Open_promise \<and>
      (baseline (y_thread b') = None \<or> baseline (y_thread b') = baseline (y_thread b)))" for f
    using step_keeps_the_baseline assms(1-3) by blast
  with assms(4) show ?thesis by (fastforce simp: waits_ok_def split: stage.splits)
qed

lemma known_ok_take:
  "known_ok b c \<Longrightarrow> \<forall>g r m. w = Some (g, r, m) \<longrightarrow> g \<le> x_generation b \<and> r \<le> x_refusals b \<Longrightarrow>
   known_ok b (events_take w s c)"
  by (auto simp: known_ok_def events_take_def split: option.splits)

lemma known_ok_stage_le:
  "known_ok b c \<Longrightarrow> ev_stage c = Took k (Some (g, r, m)) \<Longrightarrow> g \<le> x_generation b \<and> r \<le> x_refusals b"
  "known_ok b c \<Longrightarrow> ev_stage c = Serving g m \<Longrightarrow> g \<le> x_generation b"
  by (simp_all add: known_ok_def)

lemma known_ok_serve: "known_ok b c \<Longrightarrow> g \<le> x_generation b \<Longrightarrow> known_ok b (events_serve differ g m s c)"
  by (auto simp: known_ok_def events_serve_def split: option.splits)

lemma waits_ok_take [simp]: "waits_ok b (events_take w s c)"
  by (auto simp: waits_ok_def events_take_def split: option.splits)

lemma waits_ok_serve [simp]: "waits_ok b (events_serve differ g m s c)"
  by (auto simp: waits_ok_def events_serve_def split: option.splits)

lemma wait_counters [simp]:
  "x_generation (snd (event_wait b)) = x_generation b" "x_refusals (snd (event_wait b)) = x_refusals b"
  "fst (event_wait b) < length (y_futures (snd (event_wait b)))"
  by (auto simp: event_wait_def event_start_locked_def Let_def)

lemma cancel_counters [simp]:
  "x_generation (event_cancel f b) = x_generation b" "x_refusals (event_cancel f b) = x_refusals b"
  by (auto simp: event_cancel_def)

lemma baseline_known: "news_ok b \<Longrightarrow> baseline (y_thread b) = Some (g, r) \<Longrightarrow> g \<le> x_generation b \<and> r \<le> x_refusals b"
  by (cases "y_thread b") (auto simp: news_ok_def)

definition stream_inv :: "'m wire \<times> 'm events \<Rightarrow> bool" where
  "stream_inv s \<longleftrightarrow> (case s of (b, c) \<Rightarrow>
     news_ok b \<and> open_ok b \<and> served_ok b \<and> told_ok c \<and> known_ok b c \<and> waits_ok b c)"

lemma stream_inv_wire: "wire_step b b' \<Longrightarrow> stream_inv (b, c) \<Longrightarrow> stream_inv (b', c)"
  unfolding stream_inv_def prod.case
  by (blast intro: news_ok_step open_ok_step served_ok_step known_ok_wire waits_ok_wire)

lemma stream_inv_events: "events_step differ s t \<Longrightarrow> stream_inv s \<Longrightarrow> stream_inv t"
proof (induction rule: events_step.induct)
  case (es_wait c b)
  then show ?case
    using news_ok_step [OF wi_wait, of b] open_ok_step [OF wi_wait, of b] served_ok_step [OF wi_wait, of b]
    by (auto simp: stream_inv_def told_ok_def waits_ok_def known_ok_def)
next
  case (es_generation c f b)
  then show ?case
    by (auto simp: stream_inv_def told_ok_def waits_ok_def known_ok_def dest: baseline_known)
next
  case (es_refusals c f now b)
  then show ?case
    using news_ok_step [OF wi_cancel, of b f] open_ok_step [OF wi_cancel, of b f] served_ok_step [OF wi_cancel, of b f]
    by (fastforce simp: stream_inv_def told_ok_def waits_ok_def known_ok_def dest: baseline_known)
next
  case (es_current c now r b)
  then show ?case
    using known_ok_stage_le [of b c]
    by (auto simp: stream_inv_def told_ok_take intro!: known_ok_take)
next
  case (es_woken c f b w)
  then show ?case
    using nth_mem [of f "y_futures b"]
    by (auto simp: stream_inv_def told_ok_take news_ok_def intro!: known_ok_take)
next
  case (es_serve c g model b)
  then show ?case
    using known_ok_stage_le [of b c]
    by (auto simp: stream_inv_def told_ok_serve intro!: known_ok_serve)
qed

lemma stream_inv_reach: "events_reach differ s \<Longrightarrow> stream_inv s"
proof (induction rule: events_reach.induct)
  case (er_here b)
  from wire_ok [OF this] show ?case
    by (simp add: stream_inv_def told_ok_def known_ok_def waits_ok_def events_start_def)
next
  case (er_wire b c b')
  then show ?case by (blast intro: stream_inv_wire)
next
  case (er_events s t)
  then show ?case by (blast intro: stream_inv_events)
qed

subsection \<open>A waiting stream is woken\<close>

lemma held_keeps:
  assumes "y_thread b = Holds (Some w)" "f \<in> set (y_waiters b)" "f < length (y_futures b)"
    "y_futures b ! f = Open_promise"
  shows "\<exists>c. event_thread_step\<^sup>*\<^sup>* b c \<and> y_futures c ! f = Kept (Some w)"
proof -
  let ?c = "(event_resolve_all (Some w) b)\<lparr>y_thread := (case Some w of None \<Rightarrow> Ends | Some (g, r, _) \<Rightarrow> Looks g r)\<rparr>"
  from et_resolve [OF assms(1)] have "event_thread_step\<^sup>*\<^sup>* b ?c" by (rule r_into_rtranclp)
  moreover have "y_futures ?c ! f = Kept (Some w)" using assms(2-4) by (simp add: keep_promise_def)
  ultimately show ?thesis by blast
qed

lemma awake_keeps:
  assumes "y_thread b = Awake g0 g r" "f \<in> set (y_waiters b)" "f < length (y_futures b)"
    "y_futures b ! f = Open_promise"
  shows "\<exists>c m. event_thread_step\<^sup>*\<^sup>* b c \<and> y_futures c ! f = Kept (Some (g, r, m))"
proof -
  obtain c where "event_thread_step\<^sup>*\<^sup>* (b\<lparr>y_thread := Holds (Some (g, r, if g0 < g then x_cache b else None))\<rparr>) c"
      "y_futures c ! f = Kept (Some (g, r, if g0 < g then x_cache b else None))"
    using held_keeps [where b = "b\<lparr>y_thread := Holds (Some (g, r, if g0 < g then x_cache b else None))\<rparr>"
      and w = "(g, r, if g0 < g then x_cache b else None)" and f = f] assms(2-4) by force
  with converse_rtranclp_into_rtranclp [where r = event_thread_step, OF et_read [OF assms(1)]] show ?thesis by blast
qed

lemma waits_keeps:
  assumes "y_thread b = Waits g r" "g < x_generation b \<or> r < x_refusals b" "f \<in> set (y_waiters b)"
    "f < length (y_futures b)" "y_futures b ! f = Open_promise"
  shows "\<exists>c m. event_thread_step\<^sup>*\<^sup>* b c \<and> y_futures c ! f = Kept (Some (x_generation b, x_refusals b, m))"
proof -
  obtain c m where "event_thread_step\<^sup>*\<^sup>* (b\<lparr>y_thread := Awake g (x_generation b) (x_refusals b)\<rparr>) c"
      "y_futures c ! f = Kept (Some (x_generation b, x_refusals b, m))"
    using awake_keeps [where b = "b\<lparr>y_thread := Awake g (x_generation b) (x_refusals b)\<rparr>"] assms(3-5) by force
  with converse_rtranclp_into_rtranclp [where r = event_thread_step, OF et_awake [OF assms(1,2)]] show ?thesis by blast
qed

lemma pending_is_kept:
  assumes "stream_inv (b, c)" "\<not> x_released b" "ev_stage c = Pending f" "y_futures b ! f = Open_promise"
    "ev_seen c < x_generation b \<or> ev_seen_refusals c < x_refusals b"
  shows "\<exists>b' w. event_thread_step\<^sup>*\<^sup>* b b' \<and> y_futures b' ! f = Kept (Some w)"
proof -
  have len: "f < length (y_futures b)" using assms(1,3) by (simp add: stream_inv_def waits_ok_def)
  with assms have w: "f \<in> set (y_waiters b)" by (auto simp: stream_inv_def open_ok_def)
  with assms(1,2) have alive: "y_thread b \<noteq> Absent" "y_thread b \<noteq> Ends" "y_thread b \<noteq> Holds None"
    by (auto simp: stream_inv_def served_ok_def)
  have moved: "g < x_generation b \<or> r < x_refusals b" if "baseline (y_thread b) = Some (g, r)" for g r
    using assms that by (auto simp: stream_inv_def waits_ok_def)
  show ?thesis
  proof (cases "y_thread b")
    case (Waits g r)
    with waits_keeps [OF Waits _ w len assms(4)] moved [of g r] show ?thesis by auto
  next
    case (Awake a g r)
    from awake_keeps [OF Awake w len assms(4)] show ?thesis by blast
  next
    case (Holds w')
    with alive obtain v where "w' = Some v" by (cases w') auto
    with held_keeps [OF _ w len assms(4)] Holds show ?thesis by blast
  next
    case (Looks g r)
    let ?b1 = "b\<lparr>y_thread := Waits g r\<rparr>"
    have "event_thread_step b ?b1" using et_look [OF Looks] w by (cases "y_waiters b") auto
    moreover obtain b' m where "event_thread_step\<^sup>*\<^sup>* ?b1 b'"
        "y_futures b' ! f = Kept (Some (x_generation b, x_refusals b, m))"
      using waits_keeps [of ?b1 g r f] moved [of g r] Looks w len assms(4) by auto
    ultimately show ?thesis by (meson converse_rtranclp_into_rtranclp)
  qed (use alive in simp_all)
qed

subsection \<open>Properties\<close>

text \<open>C38: The event stream tells nothing twice and nothing that did not happen: in every interleaving of
  installs, refusals, releases, other waiters and the notifier thread, the generations its install
  events were made for are strictly increasing and were reached, so are the counts its refusal
  events were made for, and the yielded events are of the recorded kinds, one by one.\<close>

theorem events_tell_each_thing_once:
  assumes "events_reach differ (b, c)"
  shows "sorted_wrt (<) (told True (ev_reports c)) \<and> (\<forall>g \<in> set (told True (ev_reports c)). g \<le> x_generation b) \<and>
    sorted_wrt (<) (told False (ev_reports c)) \<and> (\<forall>r \<in> set (told False (ev_reports c)). r \<le> x_refusals b) \<and>
    map is_install (ev_yielded c) = map fst (ev_reports c)"
  using stream_inv_reach [OF assms] by (auto simp: stream_inv_def told_ok_def known_ok_def intro: order_trans)

text \<open>C18: No install and no refusal passes a waiting stream by: on a configuration that is not released,
  in every reachable state, a stream that awaits its future although one of the counters has moved
  past what it has seen is resolved with a wake by the notifier thread's own next steps.\<close>

theorem no_event_is_lost:
  assumes "events_reach differ (b, c)" "\<not> x_released b" "ev_stage c = Pending f"
    "y_futures b ! f = Open_promise" "ev_seen c < x_generation b \<or> ev_seen_refusals c < x_refusals b"
  shows "\<exists>b' w. event_thread_step\<^sup>*\<^sup>* b b' \<and> y_futures b' ! f = Kept (Some w)"
  by (rule pending_is_kept [OF stream_inv_reach [OF assms(1)] assms(2-5)])

subsection \<open>Runs\<close>

text \<open>A stream that comes back from its consumer's body to counters that have moved takes what is
  current, as one run.\<close>

definition catches_up :: "('m \<Rightarrow> 'm \<Rightarrow> (string \<times> string) list) \<Rightarrow> 'm wire \<Rightarrow> 'm events \<Rightarrow> 'm events" where
  "catches_up differ b c =
     (let model = (if ev_seen c < x_generation b then x_cached b else None) in
      events_serve differ (x_generation b) model (x_status b)
        (events_take (Some (x_generation b, x_refusals b, model)) (x_status b) c))"

lemma wait_cancel_simps [simp]:
  "x_status (snd (event_wait b)) = x_status b" "x_cached (snd (event_wait b)) = x_cached b"
  "x_status (event_cancel f b) = x_status b" "x_cached (event_cancel f b) = x_cached b"
  "x_released (snd (event_wait b)) = x_released b" "x_released (event_cancel f b) = x_released b"
  by (auto simp: event_wait_def event_start_locked_def event_cancel_def Let_def)

lemma take_ignores_the_stage [simp]: "events_take w s (c\<lparr>ev_stage := st\<rparr>) = events_take w s c"
  by (simp add: events_take_def split: option.splits)

lemma catches_up_reach:
  assumes "events_reach differ (b, c)" "ev_stage c = Rest"
    "ev_seen c < x_generation b \<or> ev_seen_refusals c < x_refusals b"
  shows "\<exists>b'. events_reach differ (b', catches_up differ b c) \<and> x_released b' = x_released b"
proof -
  let ?b1 = "snd (event_wait b)" and ?f = "fst (event_wait b)"
  let ?c1 = "c\<lparr>ev_stage := Joined ?f\<rparr>"
  let ?c2 = "?c1\<lparr>ev_stage := Counted_to ?f (x_generation b)\<rparr>"
  let ?b3 = "event_cancel ?f ?b1"
  let ?c3 = "?c2\<lparr>ev_stage := Took (x_generation b) (Some (x_generation b, x_refusals b, None))\<rparr>"
  let ?m = "if ev_seen c < x_generation b then x_cached b else None"
  let ?c4 = "events_take (Some (x_generation b, x_refusals b, ?m)) (x_status b) c"
  have "events_step differ (b, c) (?b1, ?c1)" by (rule es_wait [OF assms(2)])
  from er_events [OF assms(1) this] have r1: "events_reach differ (?b1, ?c1)" .
  have "events_step differ (?b1, ?c1) (?b1, ?c2)"
    using es_generation [where b = ?b1 and c = ?c1 and f = ?f and differ = differ] by simp
  from er_events [OF r1 this] have r2: "events_reach differ (?b1, ?c2)" .
  have "events_step differ (?b1, ?c2) (?b3, ?c3)"
    using es_refusals [where b = ?b1 and c = ?c2 and f = ?f and now = "x_generation b" and differ = differ] assms(3)
    by simp
  from er_events [OF r2 this] have r3: "events_reach differ (?b3, ?c3)" .
  have "events_step differ (?b3, ?c3) (?b3, ?c4)"
    using es_current [where b = ?b3 and c = ?c3 and now = "x_generation b" and r = "x_refusals b" and differ = differ]
    by (simp split del: if_split cong: if_cong)
  from er_events [OF r3 this] have r4: "events_reach differ (?b3, ?c4)" .
  have "ev_stage ?c4 = Serving (x_generation b) ?m" by (simp add: events_take_def)
  from er_events [OF r4 es_serve [OF this]] show ?thesis
    by (intro exI [of _ ?b3]) (simp add: catches_up_def Let_def)
qed

definition bad_port :: failure where
  "bad_port = \<lparr>fl_kind = ''validation'', fl_path = ''server.port'', fl_seconds_ago = ''0.0''\<rparr>"

lemma started_wire: "events_reach differ (wire_init, events_start wire_init)"
  by (rule er_here) simp

lemma wire_install_live [simp]: "x_released (wire_install m reason b) = x_released b"
  and wire_publish_live [simp]: "x_released (wire_publish b) = x_released b"
  and wire_init_live [simp]: "\<not> x_released wire_init"
  by (auto simp: wire_install_def wire_publish_def wire_init_def split: list.splits)

lemmas event_evals = catches_up_def events_take_def events_serve_def events_start_def wire_init_def wire_install_def
  wire_publish_def wire_refuse_def fresh_status_def bad_port_def refusal_def reloaded_def Let_def

text \<open>The order of the two events is the iterator's, not the history's: a model is installed, then a
  reload is refused, and the stream that wakes to both tells the refusal first.\<close>

lemma refusal_is_told_first:
  "\<exists>b' (c :: nat events). events_reach differ (b', c) \<and>
     ev_yielded c = [ReloadFailed 1 ''validation'' ''server.port'' 1, Reloaded 1 [] ''reload'']"
proof -
  let ?b1 = "wire_publish (wire_install 7 ''reload'' wire_init)"
  let ?b2 = "wire_refuse bad_port ?b1"
  have "events_reach differ (?b1, events_start wire_init)"
    by (rule er_wire [OF er_wire [OF started_wire wi_install] wi_publish]) simp
  then have r: "events_reach differ (?b2, events_start wire_init)"
    by (rule er_wire [OF _ wi_refuse]) simp
  obtain b' where "events_reach differ (b', catches_up differ ?b2 (events_start wire_init))"
    using catches_up_reach [OF r] by (auto simp: event_evals)
  moreover have "ev_yielded (catches_up differ ?b2 (events_start wire_init)) =
      [ReloadFailed 1 ''validation'' ''server.port'' 1, Reloaded 1 [] ''reload'']"
    by (simp add: event_evals)
  ultimately show ?thesis by blast
qed

text \<open>A refusal that an install has followed is told as the refusal of a healthy configuration: the
  count of consecutive failures is read from the status of now and is zero.\<close>

lemma refusal_is_told_with_no_failures:
  "\<exists>b' (c :: nat events). events_reach differ (b', c) \<and>
     ev_yielded c = [ReloadFailed 1 ''validation'' ''server.port'' 0, Reloaded 1 [] ''reload'']"
proof -
  let ?b1 = "wire_refuse bad_port wire_init"
  let ?b2 = "wire_publish (wire_install 7 ''reload'' ?b1)"
  have "events_reach differ (?b1, events_start wire_init)"
    by (rule er_wire [OF started_wire wi_refuse]) simp
  then have r: "events_reach differ (?b2, events_start wire_init)"
    by (rule er_wire [OF er_wire [OF _ wi_install] wi_publish]) (simp add: wire_refuse_def)
  obtain b' where "events_reach differ (b', catches_up differ ?b2 (events_start wire_init))"
    using catches_up_reach [OF r] by (auto simp: event_evals)
  moreover have "ev_yielded (catches_up differ ?b2 (events_start wire_init)) =
      [ReloadFailed 1 ''validation'' ''server.port'' 0, Reloaded 1 [] ''reload'']"
    by (simp add: event_evals)
  ultimately show ?thesis by blast
qed

text \<open>The stream ends on a living configuration: the generation is bumped before the hook fills
  \<open>_cached\<close>, so a stream started before the first load that looks in between takes the missing model
  for a release and returns.\<close>

lemma stream_ends_without_a_release:
  "\<exists>b (c :: nat events). events_reach differ (b, c) \<and> ev_stage c = Over \<and> ev_yielded c = [] \<and> \<not> x_released b"
proof -
  let ?b1 = "wire_install 7 ''init'' wire_init"
  have r: "events_reach differ (?b1, events_start wire_init)"
    by (rule er_wire [OF started_wire wi_install]) simp
  obtain b' where "events_reach differ (b', catches_up differ ?b1 (events_start wire_init)) \<and> \<not> x_released b'"
    using catches_up_reach [OF r] by (auto simp: event_evals)
  moreover have "ev_stage (catches_up differ ?b1 (events_start wire_init)) = Over"
      "ev_yielded (catches_up differ ?b1 (events_start wire_init)) = []"
    by (simp_all add: event_evals)
  ultimately show ?thesis by blast
qed

subsection \<open>Witnesses\<close>

theorem events_tell_each_thing_once_witness:
  "\<exists>b c. events_reach (\<lambda>(_::nat) _. []) (b, c) \<and> told True (ev_reports c) = [1] \<and> told False (ev_reports c) = [1] \<and>
     1 \<le> x_generation b \<and> map is_install (ev_yielded c) = [False, True]"
proof -
  let ?differ = "\<lambda>(_::nat) _. []"
  let ?b1 = "wire_refuse bad_port wire_init"
  let ?b2 = "wire_publish (wire_install 7 ''reload'' ?b1)"
  let ?c = "catches_up ?differ ?b2 (events_start wire_init)"
  have "events_reach ?differ (?b1, events_start wire_init)"
    by (rule er_wire [OF started_wire wi_refuse]) simp
  then have r: "events_reach ?differ (?b2, events_start wire_init)"
    by (rule er_wire [OF er_wire [OF _ wi_install] wi_publish]) (simp add: wire_refuse_def)
  obtain b where b: "events_reach ?differ (b, ?c)"
    using catches_up_reach [OF r] by (auto simp: event_evals)
  have "ev_reports ?c = [(False, 1), (True, 1)]" by (simp add: event_evals)
  with b events_tell_each_thing_once [OF b] show ?thesis
    by (intro exI [of _ b] exI [of _ ?c]) (simp add: told_def)
qed

definition waiting_wire :: "nat wire" where
  "waiting_wire = snd (event_wait wire_init)"

definition waiting_stream :: "nat events" where
  "waiting_stream = (events_start wire_init)\<lparr>ev_stage := Pending 0\<rparr>"

lemmas waiting_evals = waiting_wire_def waiting_stream_def events_start_def event_wait_def event_start_locked_def
  wire_init_def wire_refuse_def Let_def

lemma waiting_reach: "events_reach differ (waiting_wire, waiting_stream)"
proof -
  let ?c1 = "(events_start wire_init)\<lparr>ev_stage := Joined 0\<rparr> :: nat events"
  let ?c2 = "?c1\<lparr>ev_stage := Counted_to 0 0\<rparr>"
  have "events_step differ (wire_init, events_start wire_init) (waiting_wire, ?c1)"
    using es_wait [of "events_start wire_init" differ "wire_init :: nat wire"] by (simp add: waiting_evals)
  from er_events [OF started_wire this] have r1: "events_reach differ (waiting_wire, ?c1)" .
  have "events_step differ (waiting_wire, ?c1) (waiting_wire, ?c2)"
    using es_generation [of ?c1 0 differ waiting_wire] by (simp add: waiting_evals)
  from er_events [OF r1 this] have r2: "events_reach differ (waiting_wire, ?c2)" .
  have "events_step differ (waiting_wire, ?c2) (waiting_wire, waiting_stream)"
    using es_refusals [of ?c2 0 0 differ waiting_wire] by (simp add: waiting_evals)
  from er_events [OF r2 this] show ?thesis .
qed

theorem no_event_is_lost_witness:
  "\<exists>b w. event_thread_step\<^sup>*\<^sup>* (wire_refuse bad_port waiting_wire) b \<and> y_futures b ! 0 = Kept (Some w)"
proof -
  have live: "\<not> x_released waiting_wire" by (simp add: waiting_evals)
  show ?thesis
    by (rule no_event_is_lost [OF er_wire [OF waiting_reach [of "\<lambda>_ _. []"] wi_refuse [OF live]], where f = 0])
      (simp_all add: waiting_evals)
qed

subsection \<open>The call of \<open>events()\<close>\<close>

text \<open>What the call itself does, before the iterator is asked for its first event: the deprecated
  argument warns once, and is used for nothing else.\<close>

definition config_events :: "'p option \<Rightarrow> string list" where
  "config_events failure_poll =
     (case failure_poll of
        None \<Rightarrow> []
      | Some _ \<Rightarrow> [''failure_poll is ignored: a refused reload wakes events() '' @ ''natively now, and nothing is polled''])"

end
