(* ===== verification/Commits.thy ===== *)
theory Commits
  imports Core
begin

section \<open>Loads on several threads: the commit protocol of \<open>inner.rs\<close>\<close>

text \<open>
  \<open>Inner.validate\<close> and \<open>Inner.commit\<close> as threads run them, one access of the shared state after
  the other. A thread does one job at a time: a plain load, which only stages; a reload (or an
  \<open>init\<close>, or the commit of a prepared tree), whose install is followed by the engine's hook and
  the explicit commit; or a reload of the watcher, which has the hook alone. The engine swaps its
  snapshot and calls the hook on the thread that installed, but not for the first install; what
  a job's sources resolve to is the tree it begins with.

  With the interpreter lock, native code that is between its accesses cannot be overtaken:
  \<open>cm_turn\<close> names the thread that is there, and every other step that needs Python waits for it.
  The schema's own code gives the lock away. \<open>free\<close> is the interpreter without that lock. The
  hooks of \<open>run_hooks\<close> leave this state alone and are not steps here; \<open>cm_log\<close> is a record for
  the proofs: what was published, with the sequence it was published under and the tree the commit
  was asked for.
\<close>

datatype job = Loads | Reloads | Watches

datatype stage = From_hook job | Explicitly

datatype ('t, 'm) pc =
    Resting
  | Validating job 't
  | Numbered job 't nat 'm
  | Loaded job 't
  | Committing stage 't
  | Revalidating stage 't
  | Renumbered stage 't nat 'm
  | Restaged stage 't
  | Claimed stage 't nat 'm
  | Cached stage
  | Installed

record ('t, 'm) commits =
  cm_engine :: "'t option"
  cm_staged :: "('t, 'm) staged option"
  cm_next :: nat
  cm_last :: nat
  cm_cache :: "'m option"
  cm_generation :: nat
  cm_turn :: "nat option"
  cm_threads :: "('t, 'm) pc list"
  cm_log :: "(nat \<times> 't \<times> 'm) list"

definition commits_init :: "nat \<Rightarrow> ('t, 'm) commits" where
  "commits_init n =
     \<lparr>cm_engine = None, cm_staged = None, cm_next = 0, cm_last = 0, cm_cache = None, cm_generation = 0,
      cm_turn = None, cm_threads = replicate n Resting, cm_log = []\<rparr>"

definition now :: "nat \<Rightarrow> ('t, 'm) pc \<Rightarrow> nat option \<Rightarrow> ('t, 'm) commits \<Rightarrow> ('t, 'm) commits" where
  "now i pc turn s = s\<lparr>cm_threads := (cm_threads s)[i := pc], cm_turn := turn\<rparr>"

text \<open>What follows a commit.\<close>

definition follow :: "stage \<Rightarrow> ('t, 'm) pc" where
  "follow st = (if st = From_hook Reloads then Installed else Resting)"

text \<open>\<open>Inner.validate\<close>, in its two halves: the number, and the staging.\<close>

definition take_number :: "('t, 'm) commits \<Rightarrow> ('t, 'm) commits" where
  "take_number s = s\<lparr>cm_next := Suc (cm_next s)\<rparr>"

definition stage_pair :: "nat \<Rightarrow> 't \<Rightarrow> 'm \<Rightarrow> ('t, 'm) commits \<Rightarrow> ('t, 'm) commits" where
  "stage_pair seq tree m s = s\<lparr>cm_staged := Some \<lparr>st_sequence = seq, st_tree = tree, st_model = m\<rparr>\<rparr>"

text \<open>The first half of \<open>Inner.commit\<close>, under the lock of \<open>staged\<close>: compare, and claim.\<close>

definition compare_and_claim :: "nat \<Rightarrow> stage \<Rightarrow> 't \<Rightarrow> ('t, 'm) commits \<Rightarrow> ('t, 'm) commits" where
  "compare_and_claim i st tree s =
     (case cm_staged s of
        Some p \<Rightarrow>
          if st_tree p = tree then
            if st_sequence p \<le> cm_last s then now i (follow st) None s
            else now i (Claimed st tree (st_sequence p) (st_model p)) (Some i) (s\<lparr>cm_last := st_sequence p\<rparr>)
          else now i (Revalidating st tree) None s
      | None \<Rightarrow> now i (Revalidating st tree) None s)"

text \<open>The next step of thread \<open>i\<close>.\<close>

definition advance :: "('t, 'm) world \<Rightarrow> nat \<Rightarrow> ('t, 'm) commits \<Rightarrow> ('t, 'm) commits" where
  "advance w i s =
     (case cm_threads s ! i of
        Resting \<Rightarrow> s
      | Validating job tree \<Rightarrow>
          (case w_validate w tree of
             Inl _ \<Rightarrow> now i Resting None s
           | Inr m \<Rightarrow> now i (Numbered job tree (Suc (cm_next s)) m) (Some i) (take_number s))
      | Numbered job tree seq m \<Rightarrow>
          now i (if job = Loads then Resting else Loaded job tree) None (stage_pair seq tree m s)
      | Loaded job tree \<Rightarrow>
          (let pc = (if cm_engine s \<noteq> None then Committing (From_hook job) tree
                     else if job = Reloads then Installed else Resting)
           in now i pc (cm_turn s) (s\<lparr>cm_engine := Some tree\<rparr>))
      | Committing st tree \<Rightarrow> compare_and_claim i st tree s
      | Revalidating st tree \<Rightarrow>
          (case w_validate w tree of
             Inl _ \<Rightarrow> now i (follow st) None s
           | Inr m \<Rightarrow> now i (Renumbered st tree (Suc (cm_next s)) m) (Some i) (take_number s))
      | Renumbered st tree seq m \<Rightarrow> now i (Restaged st tree) (Some i) (stage_pair seq tree m s)
      | Restaged st tree \<Rightarrow>
          (case cm_staged s of
             None \<Rightarrow> now i (follow st) None s
           | Some p \<Rightarrow> now i (Claimed st tree (st_sequence p) (st_model p)) (Some i)
               (s\<lparr>cm_last := max (cm_last s) (st_sequence p)\<rparr>))
      | Claimed st tree seq m \<Rightarrow>
          now i (Cached st) (Some i) (s\<lparr>cm_cache := Some m, cm_log := cm_log s @ [(seq, tree, m)]\<rparr>)
      | Cached st \<Rightarrow> now i (follow st) None (s\<lparr>cm_generation := Suc (cm_generation s)\<rparr>)
      | Installed \<Rightarrow>
          (case cm_engine s of
             None \<Rightarrow> now i Resting None s
           | Some tree \<Rightarrow> now i (Committing Explicitly tree) (Some i) s))"

text \<open>An install does not need Python; every other step does.\<close>

definition may_advance :: "bool \<Rightarrow> nat \<Rightarrow> ('t, 'm) commits \<Rightarrow> bool" where
  "may_advance free i s \<longleftrightarrow> i < length (cm_threads s) \<and>
     (free \<or> cm_turn s = None \<or> cm_turn s = Some i \<or> (\<exists>job tree. cm_threads s ! i = Loaded job tree))"

text \<open>\<open>jobs\<close> says which thread may begin which job.\<close>

inductive commits_step ::
  "bool \<Rightarrow> (nat \<Rightarrow> job \<Rightarrow> bool) \<Rightarrow> ('t, 'm) world \<Rightarrow> ('t, 'm) commits \<Rightarrow> ('t, 'm) commits \<Rightarrow> bool"
  for free jobs w where
  cs_begin: "i < length (cm_threads s) \<Longrightarrow> cm_threads s ! i = Resting \<Longrightarrow> jobs i job \<Longrightarrow>
     commits_step free jobs w s (now i (Validating job tree) (cm_turn s) s)"
| cs_advance: "may_advance free i s \<Longrightarrow> commits_step free jobs w s (advance w i s)"

inductive commits_reach ::
  "bool \<Rightarrow> (nat \<Rightarrow> job \<Rightarrow> bool) \<Rightarrow> ('t, 'm) world \<Rightarrow> ('t, 'm) commits \<Rightarrow> bool" for free jobs w where
  cs_start: "commits_reach free jobs w (commits_init n)"
| cs_next: "commits_reach free jobs w s \<Longrightarrow> commits_step free jobs w s t \<Longrightarrow> commits_reach free jobs w t"

subsection \<open>Schedules\<close>

text \<open>A list of moves as a run: \<open>None\<close> if one of them is not allowed where it stands.\<close>

datatype 't move = Begin nat job 't | Go nat

definition at_an_install :: "('t, 'm) pc \<Rightarrow> bool" where
  "at_an_install pc = (case pc of Loaded _ _ \<Rightarrow> True | _ \<Rightarrow> False)"

definition schedule_move ::
  "bool \<Rightarrow> (nat \<Rightarrow> job \<Rightarrow> bool) \<Rightarrow> ('t, 'm) world \<Rightarrow> 't move \<Rightarrow> ('t, 'm) commits \<Rightarrow> ('t, 'm) commits option" where
  "schedule_move free jobs w mv s =
     (case mv of
        Begin i job tree \<Rightarrow>
          if i < length (cm_threads s) \<and> cm_threads s ! i = Resting \<and> jobs i job
          then Some (now i (Validating job tree) (cm_turn s) s) else None
      | Go i \<Rightarrow>
          if i < length (cm_threads s) \<and>
             (free \<or> cm_turn s = None \<or> cm_turn s = Some i \<or> at_an_install (cm_threads s ! i))
          then Some (advance w i s) else None)"

fun schedule ::
  "bool \<Rightarrow> (nat \<Rightarrow> job \<Rightarrow> bool) \<Rightarrow> ('t, 'm) world \<Rightarrow> 't move list \<Rightarrow> ('t, 'm) commits \<Rightarrow> ('t, 'm) commits option" where
  "schedule free jobs w [] s = Some s"
| "schedule free jobs w (mv # mvs) s = Option.bind (schedule_move free jobs w mv s) (schedule free jobs w mvs)"

lemma schedule_move_step: "schedule_move free jobs w mv s = Some t \<Longrightarrow> commits_step free jobs w s t"
  by (cases mv) (auto simp: schedule_move_def may_advance_def at_an_install_def intro!: cs_begin cs_advance
    split: if_splits pc.splits)

lemma schedule_reach:
  "schedule free jobs w mvs s = Some t \<Longrightarrow> commits_reach free jobs w s \<Longrightarrow> commits_reach free jobs w t"
proof (induction mvs arbitrary: s)
  case (Cons mv mvs)
  then obtain u where "schedule_move free jobs w mv s = Some u" "schedule free jobs w mvs u = Some t"
    by (auto simp: bind_eq_Some_conv)
  with Cons.IH [of u] cs_next [OF Cons.prems(2) schedule_move_step] show ?case by blast
qed simp

subsection \<open>The invariant with the interpreter lock\<close>

text \<open>The places in native code where nobody who needs Python can be in between.\<close>

definition critical :: "('t, 'm) pc \<Rightarrow> bool" where
  "critical pc =
     (case pc of
        Numbered _ _ _ _ \<Rightarrow> True | Renumbered _ _ _ _ \<Rightarrow> True | Restaged _ _ \<Rightarrow> True
      | Claimed _ _ _ _ \<Rightarrow> True | Cached _ \<Rightarrow> True | Committing st _ \<Rightarrow> st = Explicitly | _ \<Rightarrow> False)"

definition valid_as :: "('t, 'm) world \<Rightarrow> 't \<Rightarrow> 'm \<Rightarrow> bool" where
  "valid_as w tree m \<longleftrightarrow> w_validate w tree = Inr m"

definition turn_ok :: "('t, 'm) commits \<Rightarrow> bool" where
  "turn_ok s \<longleftrightarrow> (\<forall>i < length (cm_threads s). critical (cm_threads s ! i) \<longleftrightarrow> cm_turn s = Some i) \<and>
     (\<forall>i. cm_turn s = Some i \<longrightarrow> i < length (cm_threads s))"

definition unbumped :: "('t, 'm) commits \<Rightarrow> nat" where
  "unbumped s = (case cm_turn s of None \<Rightarrow> 0 | Some i \<Rightarrow> (case cm_threads s ! i of Cached _ \<Rightarrow> 1 | _ \<Rightarrow> 0))"

definition shared_ok :: "('t, 'm) world \<Rightarrow> ('t, 'm) commits \<Rightarrow> bool" where
  "shared_ok w s \<longleftrightarrow>
     cm_last s \<le> cm_next s \<and>
     (\<forall>p. cm_staged s = Some p \<longrightarrow> st_sequence p \<le> cm_next s \<and> valid_as w (st_tree p) (st_model p)) \<and>
     sorted_wrt (<) (map fst (cm_log s)) \<and> (\<forall>e \<in> set (cm_log s). fst e \<le> cm_last s \<and> valid_as w (fst (snd e)) (snd (snd e))) \<and>
     length (cm_log s) = cm_generation s + unbumped s \<and>
     cm_cache s = (if cm_log s = [] then None else Some (snd (snd (last (cm_log s)))))"

definition pc_ok :: "('t, 'm) world \<Rightarrow> ('t, 'm) commits \<Rightarrow> ('t, 'm) pc \<Rightarrow> bool" where
  "pc_ok w s pc =
     (case pc of
        Numbered job tree seq m \<Rightarrow> valid_as w tree m \<and> seq = cm_next s \<and> cm_last s < cm_next s
      | Renumbered st tree seq m \<Rightarrow> valid_as w tree m \<and> seq = cm_next s \<and> cm_last s < cm_next s
      | Restaged st tree \<Rightarrow> cm_last s < cm_next s \<and>
          (\<exists>p. cm_staged s = Some p \<and> st_sequence p = cm_next s \<and> st_tree p = tree)
      | Claimed st tree seq m \<Rightarrow> valid_as w tree m \<and> seq = cm_last s \<and> (\<forall>e \<in> set (cm_log s). fst e < cm_last s)
      | _ \<Rightarrow> True)"

definition commits_inv :: "('t, 'm) world \<Rightarrow> ('t, 'm) commits \<Rightarrow> bool" where
  "commits_inv w s \<longleftrightarrow> turn_ok s \<and> shared_ok w s \<and> (\<forall>pc \<in> set (cm_threads s). pc_ok w s pc)"

lemma now_simps [simp]:
  "cm_engine (now i pc turn s) = cm_engine s" "cm_staged (now i pc turn s) = cm_staged s"
  "cm_next (now i pc turn s) = cm_next s" "cm_last (now i pc turn s) = cm_last s"
  "cm_cache (now i pc turn s) = cm_cache s" "cm_generation (now i pc turn s) = cm_generation s"
  "cm_turn (now i pc turn s) = turn" "cm_log (now i pc turn s) = cm_log s"
  "cm_threads (now i pc turn s) = (cm_threads s)[i := pc]"
  by (simp_all add: now_def)

lemma number_simps [simp]:
  "cm_engine (take_number s) = cm_engine s" "cm_staged (take_number s) = cm_staged s" "cm_next (take_number s) = Suc (cm_next s)"
  "cm_last (take_number s) = cm_last s" "cm_cache (take_number s) = cm_cache s" "cm_generation (take_number s) = cm_generation s"
  "cm_turn (take_number s) = cm_turn s" "cm_log (take_number s) = cm_log s" "cm_threads (take_number s) = cm_threads s"
  by (simp_all add: take_number_def)

lemma stage_pair_simps [simp]:
  "cm_engine (stage_pair seq tree m s) = cm_engine s" "cm_next (stage_pair seq tree m s) = cm_next s"
  "cm_last (stage_pair seq tree m s) = cm_last s" "cm_cache (stage_pair seq tree m s) = cm_cache s"
  "cm_generation (stage_pair seq tree m s) = cm_generation s" "cm_turn (stage_pair seq tree m s) = cm_turn s"
  "cm_log (stage_pair seq tree m s) = cm_log s" "cm_threads (stage_pair seq tree m s) = cm_threads s"
  "cm_staged (stage_pair seq tree m s) = Some \<lparr>st_sequence = seq, st_tree = tree, st_model = m\<rparr>"
  by (simp_all add: stage_pair_def)

lemma pc_ok_calm: "\<not> critical pc \<Longrightarrow> pc_ok w s pc"
  by (simp add: critical_def pc_ok_def split: pc.splits)

lemma critical_simps [simp]:
  "\<not> critical Resting" "\<not> critical (Validating job tree)" "critical (Numbered job tree seq m)"
  "\<not> critical (Loaded job tree)" "critical (Committing st tree) \<longleftrightarrow> st = Explicitly"
  "\<not> critical (Revalidating st tree)" "critical (Renumbered st tree seq m)" "critical (Restaged st tree)"
  "critical (Claimed st tree seq m)" "critical (Cached st)" "\<not> critical Installed"
  by (simp_all add: critical_def)

lemma follow_calm [simp]: "\<not> critical (follow st)"
  by (simp add: follow_def)

text \<open>A thread that has the turn, or finds it free, moves: the others are not at critical places.\<close>

lemma commits_inv_now:
  assumes "commits_inv w s" "i < length (cm_threads s)" "cm_turn s = None \<or> cm_turn s = Some i"
    "cm_threads u = cm_threads s" "critical pc \<longleftrightarrow> turn = Some i" "turn = None \<or> turn = Some i"
    "shared_ok w (now i pc turn u)" "pc_ok w (now i pc turn u) pc"
  shows "commits_inv w (now i pc turn u)"
proof -
  have calm: "\<not> critical (cm_threads s ! j)" if "j \<noteq> i" "j < length (cm_threads s)" for j
    using assms(1,3) that by (auto simp: commits_inv_def turn_ok_def)
  have "turn_ok (now i pc turn u)"
    using assms(2,4-6) calm by (auto simp: turn_ok_def nth_list_update)
  moreover have "pc_ok w (now i pc turn u) x" if x: "x \<in> set ((cm_threads s)[i := pc])" for x
  proof -
    obtain j where j: "j < length (cm_threads s)" "x = (cm_threads s)[i := pc] ! j"
      using x by (auto simp: in_set_conv_nth)
    show ?thesis
    proof (cases "j = i")
      case True
      with j assms(8) show ?thesis by simp
    next
      case False
      with j calm [of j] show ?thesis by (simp add: pc_ok_calm)
    qed
  qed
  ultimately show ?thesis using assms(4,7) by (simp add: commits_inv_def)
qed

text \<open>A move from one calm place to another, which changes nothing the invariant reads.\<close>

lemma commits_inv_calm:
  assumes "commits_inv w s" "i < length (cm_threads s)" "\<not> critical (cm_threads s ! i)" "\<not> critical pc"
    "u = s \<or> u = s\<lparr>cm_engine := e\<rparr>"
  shows "commits_inv w (now i pc (cm_turn s) u)"
proof -
  have turn: "cm_turn s \<noteq> Some i" using assms(1-3) by (auto simp: commits_inv_def turn_ok_def)
  have u: "cm_staged u = cm_staged s" "cm_next u = cm_next s" "cm_last u = cm_last s" "cm_cache u = cm_cache s"
      "cm_generation u = cm_generation s" "cm_log u = cm_log s" "cm_threads u = cm_threads s"
    using assms(5) by auto
  have same: "pc_ok w (now i pc (cm_turn s) u) x = pc_ok w s x" for x
    by (simp add: pc_ok_def u split: pc.splits)
  have "turn_ok (now i pc (cm_turn s) u)"
    using assms(1-4) by (auto simp: commits_inv_def turn_ok_def nth_list_update u)
  moreover have "unbumped (now i pc (cm_turn s) u) = unbumped s"
    using turn by (auto simp: unbumped_def u nth_list_update split: option.splits)
  then have "shared_ok w (now i pc (cm_turn s) u)"
    using assms(1) by (simp add: commits_inv_def shared_ok_def u)
  moreover have "pc_ok w s x" if "x \<in> set ((cm_threads s)[i := pc])" for x
    using that assms(1) pc_ok_calm [OF assms(4)] set_update_subset_insert [of "cm_threads s" i pc]
    by (auto simp: commits_inv_def)
  ultimately show ?thesis by (simp add: commits_inv_def same u)
qed

lemma unbumped_now [simp]:
  assumes "i < length (cm_threads s)"
  shows "unbumped (now i pc None s) = 0"
    "unbumped (now i pc (Some i) s) = (case pc of Cached _ \<Rightarrow> 1 | _ \<Rightarrow> 0)"
  using assms by (simp_all add: unbumped_def)

lemma unbumped_here:
  assumes "commits_inv w s" "i < length (cm_threads s)" "cm_turn s = None \<or> cm_turn s = Some i"
  shows "unbumped s = (case cm_threads s ! i of Cached _ \<Rightarrow> 1 | _ \<Rightarrow> 0)"
proof (cases "cm_turn s")
  case None
  with assms(1,2) have "\<not> critical (cm_threads s ! i)" by (simp add: commits_inv_def turn_ok_def)
  with None show ?thesis by (simp add: unbumped_def critical_def split: pc.splits)
next
  case (Some j)
  with assms(3) show ?thesis by (simp add: unbumped_def)
qed

lemma commits_inv_advance:
  assumes inv: "commits_inv w s" and may: "may_advance False i s"
  shows "commits_inv w (advance w i s)"
proof (cases "\<exists>job tree. cm_threads s ! i = Loaded job tree")
  case True
  then obtain job tree where "cm_threads s ! i = Loaded job tree" by blast
  then show ?thesis
    using commits_inv_calm [OF inv, of i _ "s\<lparr>cm_engine := Some tree\<rparr>" "Some tree"] may
    by (auto simp: advance_def may_advance_def Let_def)
next
  case False
  with may have i: "i < length (cm_threads s)" and turn: "cm_turn s = None \<or> cm_turn s = Some i"
    by (auto simp: may_advance_def)
  note move = commits_inv_now [OF inv i turn]
  have shared: "shared_ok w s" and here: "pc_ok w s (cm_threads s ! i)"
    using inv i by (auto simp: commits_inv_def)
  note bumped = unbumped_here [OF inv i turn]
  note places = pc_ok_def shared_ok_def valid_as_def
  show ?thesis
  proof (cases "cm_threads s ! i")
    case Resting
    with inv show ?thesis by (simp add: advance_def)
  next
    case (Validating job tree)
    with shared bumped i show ?thesis
      by (auto simp: advance_def places intro!: move split: sum.splits)
  next
    case (Numbered job tree seq m)
    with shared bumped here i show ?thesis by (auto simp: advance_def places intro!: move)
  next
    case (Loaded job tree)
    with False show ?thesis by blast
  next
    case (Committing st tree)
    with shared bumped i show ?thesis
      by (auto simp: advance_def compare_and_claim_def shared_ok_def pc_ok_calm intro!: move split: option.splits)
        (auto simp: pc_ok_def)
  next
    case (Revalidating st tree)
    with shared bumped i show ?thesis
      by (auto simp: advance_def shared_ok_def pc_ok_calm intro!: move split: sum.splits)
        (auto simp: pc_ok_def valid_as_def)
  next
    case (Renumbered st tree seq m)
    with shared bumped here i show ?thesis by (auto simp: advance_def places intro!: move)
  next
    case (Restaged st tree)
    with shared bumped here i show ?thesis by (auto simp: advance_def places intro!: move split: option.splits) fastforce+
  next
    case (Claimed st tree seq m)
    with shared bumped here i show ?thesis
      by (auto simp: advance_def places sorted_wrt_append intro!: move)
  next
    case (Cached st)
    with shared bumped i show ?thesis by (auto simp: advance_def shared_ok_def pc_ok_calm intro!: move)
  next
    case Installed
    with shared bumped i show ?thesis by (auto simp: advance_def places intro!: move split: option.splits)
  qed
qed

lemma commits_inv_init: "commits_inv w (commits_init n)"
  by (auto simp: commits_inv_def turn_ok_def shared_ok_def commits_init_def unbumped_def pc_ok_def)

lemma commits_inv_reach: "commits_reach False jobs w s \<Longrightarrow> commits_inv w s"
proof (induction rule: commits_reach.induct)
  case (cs_start n)
  show ?case by (rule commits_inv_init)
next
  case (cs_next s t)
  from cs_next(2,3) show ?case
  proof (cases rule: commits_step.cases)
    case (cs_begin i job tree)
    with commits_inv_calm [OF cs_next(3), of i "Validating job tree" s] show ?thesis by simp
  next
    case (cs_advance i)
    with cs_next(3) show ?thesis by (simp add: commits_inv_advance)
  qed
qed

subsection \<open>One thread that reloads\<close>

definition one_writer :: "nat \<Rightarrow> nat \<Rightarrow> job \<Rightarrow> bool" where
  "one_writer i j job \<longleftrightarrow> job = Loads \<or> j = i \<and> job = Reloads"

text \<open>Python reads the model of the tree the engine has.\<close>

definition settled :: "('t, 'm) world \<Rightarrow> ('t, 'm) commits \<Rightarrow> bool" where
  "settled w s \<longleftrightarrow>
     (case cm_engine s of None \<Rightarrow> cm_cache s = None | Some tree \<Rightarrow> \<exists>m. valid_as w tree m \<and> cm_cache s = Some m)"

definition has_installed :: "('t, 'm) world \<Rightarrow> ('t, 'm) commits \<Rightarrow> 't \<Rightarrow> bool" where
  "has_installed w s tree \<longleftrightarrow> cm_engine s = Some tree \<and> (\<exists>m. valid_as w tree m)"

definition some_installed :: "('t, 'm) world \<Rightarrow> ('t, 'm) commits \<Rightarrow> bool" where
  "some_installed w s \<longleftrightarrow> (\<exists>tree m. cm_engine s = Some tree \<and> valid_as w tree m)"

lemma some_installed: "has_installed w s tree \<Longrightarrow> some_installed w s"
  by (auto simp: some_installed_def has_installed_def)

definition own_stage :: "stage \<Rightarrow> bool" where
  "own_stage st \<longleftrightarrow> st = From_hook Reloads \<or> st = Explicitly"

definition writer_pc :: "('t, 'm) world \<Rightarrow> ('t, 'm) commits \<Rightarrow> ('t, 'm) pc \<Rightarrow> bool" where
  "writer_pc w s pc =
     (case pc of
        Resting \<Rightarrow> settled w s
      | Validating job tree \<Rightarrow> settled w s \<and> job \<noteq> Watches
      | Numbered job tree seq m \<Rightarrow> settled w s \<and> job \<noteq> Watches
      | Loaded job tree \<Rightarrow> settled w s \<and> job = Reloads \<and> (\<exists>m. valid_as w tree m)
      | Committing st tree \<Rightarrow> own_stage st \<and> has_installed w s tree
      | Revalidating st tree \<Rightarrow> own_stage st \<and> has_installed w s tree
      | Renumbered st tree seq m \<Rightarrow> own_stage st \<and> has_installed w s tree
      | Restaged st tree \<Rightarrow> own_stage st \<and> has_installed w s tree
      | Claimed st tree seq m \<Rightarrow> own_stage st \<and> has_installed w s tree
      | Cached st \<Rightarrow> own_stage st \<and> settled w s \<and> some_installed w s
      | Installed \<Rightarrow> some_installed w s)"

definition loader_pc :: "('t, 'm) pc \<Rightarrow> bool" where
  "loader_pc pc =
     (case pc of
        Resting \<Rightarrow> True | Validating job _ \<Rightarrow> job = Loads | Numbered job _ _ _ \<Rightarrow> job = Loads | _ \<Rightarrow> False)"

lemma loader_pc_simps [simp]:
  "loader_pc Resting" "loader_pc (Validating job tree) \<longleftrightarrow> job = Loads" "loader_pc (Numbered job tree seq m) \<longleftrightarrow> job = Loads"
  "\<not> loader_pc (Loaded job tree)" "\<not> loader_pc (Committing st tree)" "\<not> loader_pc (Revalidating st tree)"
  "\<not> loader_pc (Renumbered st tree seq m)" "\<not> loader_pc (Restaged st tree)" "\<not> loader_pc (Claimed st tree seq m)"
  "\<not> loader_pc (Cached st)" "\<not> loader_pc Installed"
  by (simp_all add: loader_pc_def)

text \<open>A staged pair whose number has been claimed is the model Python reads, or about to be.\<close>

definition about_to_be_read :: "('t, 'm) pc \<Rightarrow> 'm option \<Rightarrow> 'm option" where
  "about_to_be_read pc cache = (case pc of Claimed _ _ _ m \<Rightarrow> Some m | _ \<Rightarrow> cache)"

lemma about_to_be_read_simps [simp]:
  "about_to_be_read (Claimed st tree seq m) cache = Some m"
  "(\<And>st tree seq m. pc \<noteq> Claimed st tree seq m) \<Longrightarrow> about_to_be_read pc cache = cache"
  by (simp_all add: about_to_be_read_def split: pc.splits)

definition claimed_is_read :: "nat \<Rightarrow> ('t, 'm) commits \<Rightarrow> bool" where
  "claimed_is_read i s \<longleftrightarrow>
     (\<forall>p. cm_staged s = Some p \<longrightarrow> st_sequence p \<le> cm_last s \<longrightarrow>
        about_to_be_read (cm_threads s ! i) (cm_cache s) = Some (st_model p))"

definition writer_inv :: "nat \<Rightarrow> ('t, 'm) world \<Rightarrow> ('t, 'm) commits \<Rightarrow> bool" where
  "writer_inv i w s \<longleftrightarrow> i < length (cm_threads s) \<and> writer_pc w s (cm_threads s ! i) \<and> claimed_is_read i s \<and>
     (\<forall>j < length (cm_threads s). j \<noteq> i \<longrightarrow> loader_pc (cm_threads s ! j))"

lemma writer_pc_same:
  assumes "cm_engine t = cm_engine s" "cm_cache t = cm_cache s"
  shows "writer_pc w t pc = writer_pc w s pc"
proof -
  have "settled w t = settled w s" "has_installed w t = has_installed w s" "some_installed w t = some_installed w s"
    using assms by (simp_all add: settled_def has_installed_def some_installed_def fun_eq_iff cong: option.case_cong)
  then show ?thesis by (simp only: writer_pc_def)
qed

text \<open>A loader's step: what the writer reads stays.\<close>

lemma writer_inv_loader:
  assumes "writer_inv i w s" "commits_inv w s" "may_advance False j s" "j \<noteq> i"
  shows "writer_inv i w (advance w j s)"
proof -
  have j: "j < length (cm_threads s)" and l: "loader_pc (cm_threads s ! j)" and i: "i < length (cm_threads s)"
    using assms(1,3,4) by (auto simp: writer_inv_def may_advance_def)
  have fresh: "cm_last s < seq" if "cm_threads s ! j = Numbered job tree seq m" for job tree seq m
    using assms(2) j that nth_mem [OF j] by (force simp: commits_inv_def pc_ok_def)
  have calm: "\<not> critical (cm_threads s ! i)" if "\<exists>job tree seq m. cm_threads s ! j = Numbered job tree seq m"
    using assms(2) that i j assms(4) by (force simp: commits_inv_def turn_ok_def)
  have same: "writer_pc w (now j pc turn u) x = writer_pc w s x"
    if "cm_engine u = cm_engine s" "cm_cache u = cm_cache s" for pc turn u x
    by (rule writer_pc_same) (simp_all add: that)
  have others: "loader_pc ((cm_threads s)[j := pc] ! k)" if "loader_pc pc" "k < length (cm_threads s)" "k \<noteq> i" for pc k
    using assms(1) that by (cases "k = j") (auto simp: writer_inv_def)
  show ?thesis
  proof (cases "cm_threads s ! j")
    case (Validating job tree)
    with l assms(1,4) show ?thesis
      by (cases "w_validate w tree") (auto simp: writer_inv_def advance_def same claimed_is_read_def intro!: others)
  next
    case (Numbered job tree seq m)
    with l fresh [OF Numbered] assms(1,4) show ?thesis
      by (auto simp: writer_inv_def advance_def same claimed_is_read_def intro!: others)
  qed (use l assms(1) in \<open>simp_all add: advance_def\<close>)
qed

text \<open>The writer's own step.\<close>

lemma settled_here:
  "cm_cache t = Some m \<Longrightarrow> cm_engine t = Some tree \<Longrightarrow> valid_as w tree m \<Longrightarrow> settled w t"
  by (auto simp: settled_def)

lemma settled_same: "cm_engine t = cm_engine s \<Longrightarrow> cm_cache t = cm_cache s \<Longrightarrow> settled w t = settled w s"
  by (simp add: settled_def cong: option.case_cong)

lemma follow_simps [simp]: "follow (From_hook Reloads) = Installed" "follow Explicitly = Resting"
  by (simp_all add: follow_def)

lemma follow_own: "own_stage st \<Longrightarrow> st = From_hook Reloads \<and> follow st = Installed \<or> st = Explicitly \<and> follow st = Resting"
  by (auto simp: own_stage_def follow_def)

lemma writer_inv_now:
  assumes "writer_inv i w s" "cm_threads u = cm_threads s" "writer_pc w u pc"
    "\<And>p. cm_staged u = Some p \<Longrightarrow> st_sequence p \<le> cm_last u \<Longrightarrow>
       about_to_be_read pc (cm_cache u) = Some (st_model p)"
  shows "writer_inv i w (now i pc turn u)"
proof -
  have "writer_pc w (now i pc turn u) pc = writer_pc w u pc" by (rule writer_pc_same) simp_all
  then show ?thesis
    using assms by (auto simp: writer_inv_def claimed_is_read_def)
qed

lemma writer_inv_writer:
  assumes inv: "writer_inv i w s" and cinv: "commits_inv w s" and may: "may_advance False i s"
  shows "writer_inv i w (advance w i s)"
proof -
  have i: "i < length (cm_threads s)" and pc: "writer_pc w s (cm_threads s ! i)" and cr: "claimed_is_read i s"
    using inv by (auto simp: writer_inv_def)
  have shared: "shared_ok w s" and here: "pc_ok w s (cm_threads s ! i)"
    using cinv i by (auto simp: commits_inv_def)
  note move = writer_inv_now [OF inv]
  have same: "writer_pc w u x = writer_pc w s x"
    if "cm_engine u = cm_engine s" "cm_cache u = cm_cache s" for u x
    by (rule writer_pc_same [OF that])
  show ?thesis
  proof (cases "cm_threads s ! i")
    case Resting
    with inv show ?thesis by (simp add: advance_def)
  next
    case (Validating job tree)
    with pc cr show ?thesis
      by (cases "w_validate w tree")
        (auto simp: advance_def same writer_pc_def claimed_is_read_def settled_def intro!: move split: option.splits)
  next
    case (Numbered job tree seq m)
    with pc here cr show ?thesis
      using settled_same [of "stage_pair seq tree m s" s w]
      by (cases job) (auto simp: advance_def writer_pc_def pc_ok_def intro!: move)
  next
    case (Loaded job tree)
    with pc have "has_installed w (s\<lparr>cm_engine := Some tree\<rparr>) tree"
      by (auto simp: writer_pc_def has_installed_def)
    with Loaded pc cr show ?thesis
      by (auto simp: advance_def Let_def writer_pc_def claimed_is_read_def own_stage_def intro!: move dest: some_installed)
  next
    case (Committing st tree)
    then have engine: "own_stage st" "has_installed w s tree" using pc by (simp_all add: writer_pc_def)
    show ?thesis
    proof (cases "cm_staged s")
      case None
      with Committing cr engine show ?thesis
        by (auto simp: advance_def compare_and_claim_def writer_pc_def intro!: move)
    next
      case (Some p)
      have "settled w s" if "st_tree p = tree" "st_sequence p \<le> cm_last s"
        using that Some cr Committing engine shared
        by (auto simp: claimed_is_read_def settled_def has_installed_def shared_ok_def)
      moreover have "has_installed w (s\<lparr>cm_last := n\<rparr>) tree" for n
        using engine(2) by (simp add: has_installed_def)
      moreover have "st = From_hook Reloads \<or> st = Explicitly" using engine(1) by (simp add: own_stage_def)
      ultimately show ?thesis
        using Some Committing cr engine some_installed [OF engine(2)]
        by (auto simp: advance_def compare_and_claim_def writer_pc_def claimed_is_read_def intro!: move)
    qed
  next
    case (Revalidating st tree)
    with pc cr show ?thesis
      by (auto simp: advance_def writer_pc_def claimed_is_read_def has_installed_def valid_as_def intro!: move split: sum.splits)
  next
    case (Renumbered st tree seq m)
    with pc here cr show ?thesis
      by (auto simp: advance_def writer_pc_def pc_ok_def has_installed_def intro!: move)
  next
    case (Restaged st tree)
    with pc have "has_installed w (s\<lparr>cm_last := n\<rparr>) tree" for n
      by (simp add: writer_pc_def has_installed_def)
    with Restaged pc here cr show ?thesis
      by (auto simp: advance_def writer_pc_def pc_ok_def intro!: move)
  next
    case (Claimed st tree seq m)
    with pc have installed: "has_installed w (s\<lparr>cm_cache := c, cm_log := l\<rparr>) tree" for c l
      by (simp add: writer_pc_def has_installed_def)
    moreover from Claimed pc here have "settled w (s\<lparr>cm_cache := Some m, cm_log := l\<rparr>)" for l
      by (simp add: writer_pc_def has_installed_def settled_def pc_ok_def)
    ultimately show ?thesis
      using Claimed pc cr
      by (auto simp: advance_def writer_pc_def claimed_is_read_def intro!: move some_installed [OF installed])
  next
    case (Cached st)
    moreover have "settled w (s\<lparr>cm_generation := n\<rparr>) = settled w s" for n by (rule settled_same) simp_all
    moreover have "some_installed w (s\<lparr>cm_generation := n\<rparr>) = some_installed w s" for n
      by (simp add: some_installed_def)
    ultimately show ?thesis
      using pc cr follow_own [of st]
      by (auto simp: advance_def writer_pc_def claimed_is_read_def intro!: move)
  next
    case Installed
    with pc cr show ?thesis
      by (auto simp: advance_def writer_pc_def claimed_is_read_def has_installed_def some_installed_def own_stage_def
        intro!: move) blast
  qed
qed

lemma writer_inv_reach:
  assumes "commits_reach False (one_writer i) w s" "i < length (cm_threads s)"
  shows "writer_inv i w s"
  using assms
proof (induction rule: commits_reach.induct)
  case (cs_start n)
  then show ?case
    by (simp add: writer_inv_def commits_init_def writer_pc_def settled_def claimed_is_read_def)
next
  case (cs_next s t)
  note cinv = commits_inv_reach [OF cs_next(1)]
  from cs_next(2) show ?case
  proof (cases rule: commits_step.cases)
    case (cs_begin j job tree)
    with cs_next have inv: "writer_inv i w s" by simp
    show ?thesis
    proof (cases "j = i")
      case True
      with cs_begin inv show ?thesis
        using settled_same [of "now i pc turn s" s w for pc turn]
        by (auto simp: writer_inv_def writer_pc_def claimed_is_read_def one_writer_def)
    next
      case False
      with cs_begin inv show ?thesis
        by (auto simp: writer_inv_def claimed_is_read_def one_writer_def nth_list_update
          writer_pc_same [of "now j pc turn s" s for pc turn])
    qed
  next
    case (cs_advance j)
    then have "length (cm_threads t) = length (cm_threads s)"
      by (auto simp: advance_def compare_and_claim_def Let_def split: pc.splits option.splits sum.splits)
    with cs_next cs_advance cinv show ?thesis
      by (cases "j = i") (simp_all add: writer_inv_writer writer_inv_loader)
  qed
qed

subsection \<open>Alone\<close>

text \<open>What the sequential model and this one have in common.\<close>

definition looks_like :: "('t, 'm) commits \<Rightarrow> ('t, 'm, 'h) core \<Rightarrow> bool" where
  "looks_like s k \<longleftrightarrow>
     cm_engine s = engine_current k \<and> cm_staged s = k_staged k \<and> cm_next s = k_next_sequence k \<and>
     cm_last s = k_last_committed k \<and> cm_cache s = k_cache k \<and> cm_generation s = k_generation k"

lemma now_twice [simp]: "cm_threads (now i pc turn s) ! i = pc" if "i < length (cm_threads s)"
  using that by simp

subsection \<open>Properties\<close>

text \<open>C2: With the interpreter lock, publication is in order and nothing is mixed up: in every interleaving of
  loads, reloads and a watcher's reloads, each staged pair is published at most once and none after
  a later one, every published model is what the schema answered for the tree its commit was asked
  for, the generation counts the publications, and Python reads the last of them.\<close>

theorem publications_are_in_order:
  assumes "commits_reach False jobs w s"
  shows "sorted_wrt (<) (map fst (cm_log s)) \<and>
    (\<forall>(seq, tree, m) \<in> set (cm_log s). w_validate w tree = Inr m) \<and>
    length (cm_log s) = cm_generation s + (if \<exists>st. Cached st \<in> set (cm_threads s) then 1 else 0) \<and>
    cm_cache s = (if cm_log s = [] then None else Some (snd (snd (last (cm_log s)))))"
proof -
  have inv: "commits_inv w s" by (rule commits_inv_reach [OF assms])
  have "unbumped s = (if \<exists>st. Cached st \<in> set (cm_threads s) then 1 else 0)"
  proof (cases "\<exists>st. Cached st \<in> set (cm_threads s)")
    case True
    then obtain st i where i: "i < length (cm_threads s)" "cm_threads s ! i = Cached st"
      by (auto simp: in_set_conv_nth)
    with inv have "cm_turn s = Some i" by (auto simp: commits_inv_def turn_ok_def)
    with True i show ?thesis by (auto simp: unbumped_def)
  next
    case False
    with inv show ?thesis
      by (auto simp: unbumped_def commits_inv_def turn_ok_def in_set_conv_nth split: option.splits pc.splits)
  qed
  with inv show ?thesis by (auto simp: commits_inv_def shared_ok_def valid_as_def)
qed

text \<open>C3: One thread may reload while any number of others load: whenever the reloading thread is at rest,
  what Python reads is what the schema answered for the tree the engine has.\<close>

theorem one_writer_leaves_python_current:
  assumes "commits_reach False (one_writer i) w s" "i < length (cm_threads s)" "cm_threads s ! i = Resting"
    "cm_engine s = Some tree"
  shows "\<exists>m. w_validate w tree = Inr m \<and> cm_cache s = Some m"
  using writer_inv_reach [OF assms(1,2)] assms(3,4)
  by (auto simp: writer_inv_def writer_pc_def settled_def valid_as_def)

text \<open>A reload that is left alone is the reload of the sequential model: eight steps of its thread bring the
  shared state where \<open>core_reload\<close> brings the native object, whatever the schema says.\<close>

theorem a_reload_alone_is_core_reload:
  assumes "looks_like s k" "cm_last s \<le> cm_next s" "cm_turn s = None" "i < length (cm_threads s)"
    "cm_threads s ! i = Resting" "jobs i Reloads"
  shows "\<exists>t. schedule free jobs w (Begin i Reloads tree # replicate 8 (Go i)) s = Some t \<and>
    looks_like t (after (core_reload w (Inr tree) k)) \<and> cm_threads t = cm_threads s \<and> cm_turn t = None"
proof -
  have same: "(cm_threads s)[i := Resting] = cm_threads s"
    using list_update_id [of "cm_threads s" i] assms(5) by simp
  have eight: "replicate 8 (Go i) = [Go i, Go i, Go i, Go i, Go i, Go i, Go i, Go i]" by (simp add: eval_nat_numeral)
  note run = schedule_move_def advance_def compare_and_claim_def at_an_install_def looks_like_def follow_def Let_def
  note core = core_reload_def load_then_install_def engine_load_def core_dynamic_def core_validate_def raised_def
    core_raise_def install_and_publish_def engine_install_def publish_current_def inner_commit_def staged_for_def
    core_publish_staged_def core_publish_def claim_def engine_current_def
  show ?thesis
  proof (cases "w_validate w tree")
    case (Inl e)
    obtain message reports where e: "e = (message, reports)" by (cases e)
    show ?thesis
    proof (cases "k_engine k")
      case (Building srcs)
      with Inl e assms show ?thesis by (simp add: eight run core same)
    next
      case (Ready srcs current)
      with Inl e assms show ?thesis by (simp add: eight run core same)
    qed
  next
    case (Inr m)
    show ?thesis
    proof (cases "engine_current k")
      case None
      with Inr assms show ?thesis
        by (cases "k_engine k") (simp_all add: eight run core same)
    next
      case (Some old)
      with Inr assms show ?thesis
        by (cases "k_engine k") (simp_all add: eight run core same)
    qed
  qed
qed

subsection \<open>Runs\<close>

text \<open>A schema that takes every number as it is.\<close>

definition numbers :: "(nat, nat) world" where
  "numbers = \<lparr>w_validate = Inr, w_announces = (\<lambda>_. True)\<rparr>"

definition any_job :: "nat \<Rightarrow> job \<Rightarrow> bool" where
  "any_job i job \<longleftrightarrow> True"

definition gos :: "nat \<Rightarrow> nat \<Rightarrow> nat move list" where
  "gos n i = replicate n (Go i)"

text \<open>Thread 0 has loaded the tree 1, and nothing else is going on.\<close>

definition first_load :: "nat move list" where
  "first_load = Begin 0 Reloads 1 # gos 8 0"

lemma run_reach:
  "schedule free jobs w mvs (commits_init n) = Some s \<Longrightarrow> commits_reach free jobs w s"
  by (rule schedule_reach [OF _ cs_start])

text \<open>A load on another thread between the hook's commit and the explicit one makes one reload publish
  twice: two generations, and every hook runs again with the model it has just had.\<close>

lemma a_load_makes_a_reload_publish_twice:
  "\<exists>s. commits_reach False any_job numbers s \<and> cm_log s = [(1, 1, 1), (2, 2, 2), (4, 2, 2)] \<and>
     cm_generation s = 3 \<and> cm_threads s = [Resting, Resting]"
proof -
  let ?run = "first_load @ Begin 0 Reloads 2 # gos 6 0 @ Begin 1 Loads 3 # gos 2 1 @ gos 7 0"
  let ?s = "the (schedule False any_job numbers ?run (commits_init 2))"
  have "schedule False any_job numbers ?run (commits_init 2) = Some ?s \<and>
      cm_log ?s = [(1, 1, 1), (2, 2, 2), (4, 2, 2)] \<and> cm_generation ?s = 3 \<and> cm_threads ?s = [Resting, Resting]"
    by code_simp
  then show ?thesis using run_reach by blast
qed

text \<open>The commit that validates once more publishes a tree that the engine has replaced meanwhile: two
  reloads and a load, and at rest Python reads the older document.\<close>

lemma an_old_document_can_be_published_last:
  "\<exists>s. commits_reach False any_job numbers s \<and> cm_threads s = [Resting, Resting, Resting] \<and>
     cm_engine s = Some 5 \<and> cm_cache s = Some 2"
proof -
  let ?run = "first_load @ Begin 0 Reloads 2 # gos 6 0 @ Begin 1 Loads 3 # gos 2 1 @ gos 2 0 @
    Begin 2 Reloads 5 # gos 8 2 @ gos 5 0"
  let ?s = "the (schedule False any_job numbers ?run (commits_init 3))"
  have "schedule False any_job numbers ?run (commits_init 3) = Some ?s \<and>
      cm_threads ?s = [Resting, Resting, Resting] \<and> cm_engine ?s = Some 5 \<and> cm_cache ?s = Some 2"
    by code_simp
  then show ?thesis using run_reach by blast
qed

text \<open>Without the interpreter lock a thread that has its number can be overtaken before it stages: its
  reload succeeds, the engine has its tree, and nothing is published.\<close>

lemma a_free_thread_can_lose_its_reload:
  "\<exists>s. commits_reach True any_job numbers s \<and> cm_threads s = [Resting, Resting] \<and>
     cm_engine s = Some 2 \<and> cm_cache s = Some 3 \<and> 2 \<notin> snd ` snd ` set (cm_log s)"
proof -
  let ?run = "first_load @ Begin 0 Reloads 2 # gos 1 0 @ Begin 1 Reloads 3 # gos 8 1 @ gos 5 0"
  let ?s = "the (schedule True any_job numbers ?run (commits_init 2))"
  have "schedule True any_job numbers ?run (commits_init 2) = Some ?s \<and> cm_threads ?s = [Resting, Resting] \<and>
      cm_engine ?s = Some 2 \<and> cm_cache ?s = Some 3 \<and> cm_log ?s = [(1, 1, 1), (3, 3, 3)]"
    by code_simp
  then show ?thesis using run_reach by (intro exI [of _ ?s]) auto
qed

subsection \<open>Witnesses\<close>

definition loaded_once :: "(nat, nat) commits" where
  "loaded_once = the (schedule False (one_writer 0) numbers first_load (commits_init 2))"

lemma loaded_once_reach: "commits_reach False (one_writer 0) numbers loaded_once"
proof -
  have "schedule False (one_writer 0) numbers first_load (commits_init 2) = Some loaded_once" by code_simp
  then show ?thesis by (rule run_reach)
qed

theorem publications_are_in_order_witness:
  "sorted_wrt (<) (map fst (cm_log loaded_once)) \<and> length (cm_log loaded_once) = 1"
proof
  show "sorted_wrt (<) (map fst (cm_log loaded_once))"
    using publications_are_in_order [OF loaded_once_reach] by blast
  show "length (cm_log loaded_once) = 1" by code_simp
qed

theorem one_writer_leaves_python_current_witness:
  "\<exists>m. w_validate numbers 1 = Inr m \<and> cm_cache loaded_once = Some m"
proof (rule one_writer_leaves_python_current [OF loaded_once_reach])
  show "0 < length (cm_threads loaded_once)" "cm_threads loaded_once ! 0 = Resting" "cm_engine loaded_once = Some 1"
    by code_simp+
qed

theorem a_reload_alone_is_core_reload_witness:
  "\<exists>t. schedule False any_job numbers (Begin 0 Reloads 7 # replicate 8 (Go 0)) (commits_init 1) = Some t \<and>
     looks_like t (after (core_reload numbers (Inr 7) (core_new ''app'' None [] :: (nat, nat, unit) core)))"
proof -
  let ?k = "core_new ''app'' None [] :: (nat, nat, unit) core"
  have "looks_like (commits_init 1) ?k"
    by (simp add: looks_like_def commits_init_def core_new_def engine_current_def)
  from a_reload_alone_is_core_reload [OF this, of 0 any_job False numbers 7] show ?thesis
    by (auto simp: commits_init_def any_job_def)
qed

end
