(* ===== verification/Changed.thy ===== *)
theory Changed
  imports Notifier
begin

section \<open>Waiting for one install: \<open>changed()\<close> and \<open>changed_async()\<close>\<close>

text \<open>
  The two single shots, on the bridge of the theory \<open>Notifier\<close>. The blocking one reads the
  generation and sleeps in the native object until it is past that, until the release, or until
  its time is up; then it reads the model. The awaited one reads the generation, registers with
  the notifier, and reads the generation again. \<open>limit\<close> says whether the caller gave a time; a
  time that is up is a step that may happen at any moment.
\<close>

subsection \<open>Blocking\<close>

datatype 'm caller = Calls | Blocks nat | Woke nat | Answers "'m option"

inductive caller_step :: "bool \<Rightarrow> 'm bridge \<times> 'm caller \<Rightarrow> 'm bridge \<times> 'm caller \<Rightarrow> bool" for limit where
  cl_enters: "caller_step limit (b, Calls) (b, Blocks (b_generation b))"
| cl_reached: "seen < b_generation b \<Longrightarrow> caller_step limit (b, Blocks seen) (b, Woke (b_generation b))"
| cl_released: "\<not> seen < b_generation b \<Longrightarrow> b_released b \<Longrightarrow> caller_step limit (b, Blocks seen) (b, Answers None)"
| cl_times_out: "\<not> seen < b_generation b \<Longrightarrow> limit \<Longrightarrow> caller_step limit (b, Blocks seen) (b, Answers None)"
| cl_model: "caller_step limit (b, Woke g) (b, Answers (b_cache b))"

inductive_cases caller_stepE: "caller_step limit (b, Blocks seen) s"

subsection \<open>Awaited\<close>

datatype 'm asker = Asks | Read nat | Joins nat nat | Short_cut | Awaits nat nat | Gets "'m option"

inductive asker_step :: "bool \<Rightarrow> 'm bridge \<times> 'm asker \<Rightarrow> 'm bridge \<times> 'm asker \<Rightarrow> bool" for limit where
  ak_reads: "asker_step limit (b, Asks) (b, Read (b_generation b))"
| ak_waits: "asker_step limit (b, Read seen) (snd (notifier_wait b), Joins seen (fst (notifier_wait b)))"
| ak_looks: "asker_step limit (b, Joins seen f)
     (if seen < b_generation b then (drop_future f b, Short_cut) else (b, Awaits seen f))"
| ak_current: "asker_step limit (b, Short_cut) (b, Gets (b_cached b))"
| ak_woken: "f < length (n_futures b) \<Longrightarrow> snd (n_futures b ! f) = Settled wake \<Longrightarrow>
     asker_step limit (b, Awaits seen f) (b, Gets (map_option snd wake))"
| ak_times_out: "limit \<Longrightarrow> snd (n_futures b ! f) = Unresolved \<Longrightarrow>
     asker_step limit (b, Awaits seen f) (drop_future f b, Gets None)"

inductive asker_reach :: "bool \<Rightarrow> 'm bridge \<times> 'm asker \<Rightarrow> bool" for limit where
  ar_here: "bridge_reach b \<Longrightarrow> asker_reach limit (b, Asks)"
| ar_bridge: "asker_reach limit (b, a) \<Longrightarrow> bridge_step b b' \<Longrightarrow> asker_reach limit (b', a)"
| ar_asker: "asker_reach limit s \<Longrightarrow> asker_step limit s t \<Longrightarrow> asker_reach limit t"

text \<open>A future keeps its place and the generation of its registration.\<close>

definition keeps_futures :: "'m bridge \<Rightarrow> 'm bridge \<Rightarrow> bool" where
  "keeps_futures b c \<longleftrightarrow> length (n_futures b) \<le> length (n_futures c) \<and>
     (\<forall>f < length (n_futures b). fst (n_futures c ! f) = fst (n_futures b ! f))"

lemma keeps_futures_same [simp]: "n_futures c = n_futures b \<Longrightarrow> keeps_futures b c"
  by (simp add: keeps_futures_def)

lemma keeps_futures_resolve: "keeps_futures b (resolve_all w b)"
  by (simp add: keeps_futures_def)

lemma keeps_futures_wait: "keeps_futures b (snd (notifier_wait b))"
  by (auto simp: keeps_futures_def notifier_wait_def start_locked_def nth_append Let_def)

lemma keeps_futures_drop: "keeps_futures b (drop_future f b)"
  by (auto simp: keeps_futures_def drop_future_def nth_list_update)

lemma keeps_futures_thread: "thread_step b c \<Longrightarrow> keeps_futures b c"
  by (erule thread_step.cases) (auto simp: keeps_futures_def)

lemma keeps_futures_step: "bridge_step b c \<Longrightarrow> keeps_futures b c"
proof (induction rule: bridge_step.induct)
  case (br_close b)
  show ?case using keeps_futures_resolve [of "b\<lparr>n_closed := True\<rparr>" None]
    by (simp add: notifier_close_def keeps_futures_def)
qed (auto simp: bridge_install_def bridge_publish_def bridge_release_def keeps_futures_wait keeps_futures_drop
  keeps_futures_thread split: list.splits)

definition asker_ok :: "'m bridge \<times> 'm asker \<Rightarrow> bool" where
  "asker_ok s \<longleftrightarrow>
     (case snd s of
        Joins seen f \<Rightarrow> f < length (n_futures (fst s))
      | Awaits seen f \<Rightarrow> f < length (n_futures (fst s)) \<and> fst (n_futures (fst s) ! f) \<le> seen
      | _ \<Rightarrow> True)"

lemma asker_ok_bridge: "asker_ok (b, a) \<Longrightarrow> keeps_futures b c \<Longrightarrow> asker_ok (c, a)"
  by (auto simp: asker_ok_def keeps_futures_def split: asker.splits)

lemma wait_place: "fst (notifier_wait b) < length (n_futures (snd (notifier_wait b)))"
  by (simp add: notifier_wait_def start_locked_def Let_def)

lemma asker_ok_step: "asker_step limit s t \<Longrightarrow> asker_ok s \<Longrightarrow> bridge_inv (fst s) \<Longrightarrow> asker_ok t"
proof (induction rule: asker_step.induct)
  case (ak_looks b seen f)
  then show ?case
    by (auto simp: asker_ok_def bridge_inv_def seen_ok_def not_less intro: order_trans)
qed (simp_all add: asker_ok_def wait_place)

lemma asker_reach_inv: "asker_reach limit s \<Longrightarrow> asker_ok s \<and> bridge_inv (fst s)"
proof (induction rule: asker_reach.induct)
  case (ar_here b)
  then show ?case by (simp add: asker_ok_def bridge_inv_reach)
next
  case (ar_bridge b a b')
  then show ?case using asker_ok_bridge keeps_futures_step by (fastforce intro: bridge_inv_step)
next
  case (ar_asker s t)
  then have "asker_ok t" by (blast intro: asker_ok_step)
  moreover from ar_asker have "bridge_step (fst s) (fst t) \<or> fst t = fst s"
    by (auto elim!: asker_step.cases intro: br_wait br_drop)
  ultimately show ?case using ar_asker.IH bridge_inv_step by metis
qed

subsection \<open>Properties\<close>

text \<open>Neither single shot sleeps through an install: on a configuration that is not released, a caller of
  \<open>changed()\<close> that is blocked although the generation has moved answers with the current model in
  two steps of its own, and a task in \<open>changed_async()\<close> whose future is unresolved although the
  generation has moved is brought to a model by the notifier thread's own next steps.\<close>

theorem single_shots_do_not_oversleep:
  assumes "asker_reach limit (b, a)" "\<not> b_released b" "seen < b_generation b"
  shows "(\<exists>m. (caller_step limit')\<^sup>*\<^sup>* (b, Blocks seen) (b, Answers (Some m)) \<and> b_cache b = Some m) \<and>
    (\<forall>f. a = Awaits seen f \<and> snd (n_futures b ! f) = Unresolved \<longrightarrow>
       (\<exists>c m. thread_step\<^sup>*\<^sup>* b c \<and> asker_step limit (c, a) (c, Gets (Some m))))"
proof (intro conjI allI impI)
  have inv: "bridge_inv b" and ok: "asker_ok (b, a)" using asker_reach_inv [OF assms(1)] by auto
  obtain m where m: "b_cache b = Some m"
    using inv assms(2,3) by (auto simp: bridge_inv_def live_ok_def)
  have "caller_step limit' (b, Blocks seen) (b, Woke (b_generation b))" by (rule cl_reached [OF assms(3)])
  moreover have "caller_step limit' (b, Woke (b_generation b)) (b, Answers (Some m))"
    using cl_model [of limit' b "b_generation b"] m by simp
  ultimately show "\<exists>m. (caller_step limit')\<^sup>*\<^sup>* (b, Blocks seen) (b, Answers (Some m)) \<and> b_cache b = Some m"
    using m by (meson rtranclp.rtrancl_into_rtrancl rtranclp.rtrancl_refl)
  fix f
  assume f: "a = Awaits seen f \<and> snd (n_futures b ! f) = Unresolved"
  with ok assms(3) have f': "f < length (n_futures b)" "fst (n_futures b ! f) < b_generation b"
    by (auto simp: asker_ok_def)
  obtain c g m where c: "thread_step\<^sup>*\<^sup>* b c" "snd (n_futures c ! f) = Settled (Some (g, m))"
    using waiter_settles [OF inv assms(2) f'(1) _ f'(2)] f by blast
  from c(1) f'(1) have "f < length (n_futures c)"
  proof (induction rule: rtranclp_induct)
    case (step c d)
    with keeps_futures_thread [OF step(2)] show ?case by (simp add: keeps_futures_def)
  qed
  with ak_woken [of f c "Some (g, m)" limit seen] c f
  show "\<exists>c m. thread_step\<^sup>*\<^sup>* b c \<and> asker_step limit (c, a) (c, Gets (Some m))" by auto
qed

subsection \<open>At the edges\<close>

text \<open>The blocking call is answered only by a time that is up or by the release when nothing is installed;
  an answer of \<open>None\<close> does not say which.\<close>

lemma blocked_call_answers:
  assumes "caller_step limit (b, Blocks seen) (b, Answers r)"
  shows "r = None \<and> \<not> seen < b_generation b \<and> (b_released b \<or> limit)"
  using assms by (auto elim: caller_stepE)

definition asking :: "nat asker" where
  "asking = Awaits 0 0"

lemma asking_reach: "asker_reach False (one_waiter, asking)"
proof -
  have r0: "asker_reach False (notifier_init, Asks :: nat asker)" by (rule ar_here [OF br_here])
  have "asker_step False (notifier_init, Asks :: nat asker) (notifier_init, Read 0)"
    using ak_reads [of False "notifier_init :: nat bridge"] by (simp add: notifier_init_def)
  from ar_asker [OF r0 this] have r1: "asker_reach False (notifier_init, Read 0 :: nat asker)" .
  have "asker_step False (notifier_init, Read 0) (one_waiter, Joins 0 0)"
    using ak_waits [of False "notifier_init :: nat bridge" 0] by (simp add: one_waiter_def bridge_evals)
  from ar_asker [OF r1 this] have r2: "asker_reach False (one_waiter, Joins 0 0)" .
  have "asker_step False (one_waiter, Joins 0 0) (one_waiter, asking)"
    using ak_looks [of False one_waiter 0 0] by (simp add: asking_def one_waiter_def bridge_evals)
  from ar_asker [OF r2 this] show ?thesis .
qed

theorem single_shots_do_not_oversleep_witness:
  "\<exists>c m. thread_step\<^sup>*\<^sup>* (bridge_install (7::nat) one_waiter) c \<and> asker_step False (c, asking) (c, Gets (Some m))"
proof -
  have live: "\<not> b_released one_waiter" by (simp add: one_waiter_def bridge_evals)
  have r: "asker_reach False (bridge_install 7 one_waiter, asking)"
    by (rule ar_bridge [OF asking_reach br_install [OF live]])
  show ?thesis
    using single_shots_do_not_oversleep [OF r, of 0 False]
    by (simp add: asking_def one_waiter_def bridge_evals)
qed

end
