(* ===== verification/Convert.thy ===== *)
theory Convert
  imports Prelude "HOL-Library.Word"
begin

section \<open>Configuration data across the boundary: \<open>convert.rs\<close>\<close>

text \<open>
  The resolved tree is serde_json's value; its map is ordered by key, and a number is what it was
  made from: a signed or an unsigned integer of 64 bits, or a float, which is named by its text
  here. A Python object is one of the built-in types, or an object with facets: the questions
  \<open>from_py\<close> asks that this object has an answer to. A class object answers none of them. Texts are
  texts without lone surrogates.
\<close>

subsection \<open>The two sides\<close>

datatype number = Signed "64 word" | Unsigned "64 word" | Float_of string

datatype json =
    Null
  | Bool bool
  | Number number
  | String string
  | Array "json list"
  | Object "(string \<times> json) list"

datatype pyobj =
    O_none
  | O_bool bool
  | O_int int
  | O_float string
  | O_str string
  | O_dict "(pyobj \<times> pyobj) list"
  | O_list "pyobj list"
  | O_tuple "pyobj list"
  | O_object string "facet list"
and facet =
    Secret_value pyobj
  | Enum_value pyobj
  | Isoformat string
  | Fspath string
  | Printed_by string string
  | Model_dump pyobj
  | Asdict pyobj
  | Struct_fields "string list" "pyobj list"

datatype conversion_error = Overflow_error string | Conversion_value_error string | Conversion_type_error string

text \<open>\<open>Map::insert\<close>: in the order of the keys, the old entry of an equal key replaced.\<close>

fun map_insert :: "string \<Rightarrow> 'v \<Rightarrow> (string \<times> 'v) list \<Rightarrow> (string \<times> 'v) list" where
  "map_insert k v [] = [(k, v)]"
| "map_insert k v ((k', v') # rest) =
     (if k < k' then (k, v) # (k', v') # rest
      else if k = k' then (k, v) # rest
      else (k', v') # map_insert k v rest)"

subsection \<open>Numbers\<close>

definition as_i64 :: "number \<Rightarrow> int option" where
  "as_i64 n =
     (case n of
        Signed w \<Rightarrow> Some (sint w)
      | Unsigned w \<Rightarrow> if uint w < 2 ^ 63 then Some (uint w) else None
      | Float_of _ \<Rightarrow> None)"

definition as_u64 :: "number \<Rightarrow> int option" where
  "as_u64 n =
     (case n of
        Signed w \<Rightarrow> if 0 \<le> sint w then Some (sint w) else None
      | Unsigned w \<Rightarrow> Some (uint w)
      | Float_of _ \<Rightarrow> None)"

definition number_to_py :: "number \<Rightarrow> pyobj" where
  "number_to_py n =
     (case as_i64 n of
        Some i \<Rightarrow> O_int i
      | None \<Rightarrow>
          (case as_u64 n of
             Some i \<Rightarrow> O_int i
           | None \<Rightarrow> O_float (case n of Float_of r \<Rightarrow> r | _ \<Rightarrow> ''nan'')))"

definition extract_i64 :: "int \<Rightarrow> 64 word option" where
  "extract_i64 i = (if - (2 ^ 63) \<le> i \<and> i < 2 ^ 63 then Some (word_of_int i) else None)"

definition extract_u64 :: "int \<Rightarrow> 64 word option" where
  "extract_u64 i = (if 0 \<le> i \<and> i < 2 ^ 64 then Some (word_of_int i) else None)"

definition int_from_py :: "int \<Rightarrow> (conversion_error, json) result" where
  "int_from_py i =
     (case extract_i64 i of
        Some w \<Rightarrow> Inr (Number (Signed w))
      | None \<Rightarrow>
          (case extract_u64 i of
             Some w \<Rightarrow> Inr (Number (Unsigned w))
           | None \<Rightarrow> Inl (Overflow_error ''this integer is too large for a configuration value'')))"

text \<open>\<open>Number::from_f64\<close> has no answer for a float that is not finite.\<close>

definition is_finite :: "string \<Rightarrow> bool" where
  "is_finite r \<longleftrightarrow> r \<notin> {''nan'', ''inf'', ''-inf''}"

definition float_from_py :: "string \<Rightarrow> (conversion_error, json) result" where
  "float_from_py r =
     (if is_finite r then Inr (Number (Float_of r))
      else Inl (Conversion_value_error ''NaN and infinity are not configuration values''))"

subsection \<open>Out\<close>

definition toml_datetime :: string where
  "toml_datetime = ''$__toml_private_datetime''"

fun to_py :: "json \<Rightarrow> pyobj" where
  "to_py Null = O_none"
| "to_py (Bool b) = O_bool b"
| "to_py (Number n) = number_to_py n"
| "to_py (String s) = O_str s"
| "to_py (Array items) = O_list (map to_py items)"
| "to_py (Object entries) =
     (case entries of
        [(k, String text)] \<Rightarrow>
          if k = toml_datetime then O_str text else O_dict [(O_str k, O_str text)]
      | _ \<Rightarrow> O_dict (map (\<lambda>(k, v). (O_str k, to_py v)) entries))"

subsection \<open>In\<close>

text \<open>The facets, by the question.\<close>

fun secret_value :: "facet list \<Rightarrow> pyobj option" where
  "secret_value [] = None"
| "secret_value (Secret_value v # fs) = Some v"
| "secret_value (_ # fs) = secret_value fs"

fun enum_value :: "facet list \<Rightarrow> pyobj option" where
  "enum_value [] = None"
| "enum_value (Enum_value v # fs) = Some v"
| "enum_value (_ # fs) = enum_value fs"

fun isoformat :: "facet list \<Rightarrow> string option" where
  "isoformat [] = None"
| "isoformat (Isoformat t # fs) = Some t"
| "isoformat (_ # fs) = isoformat fs"

fun fspath :: "facet list \<Rightarrow> string option" where
  "fspath [] = None"
| "fspath (Fspath t # fs) = Some t"
| "fspath (_ # fs) = fspath fs"

fun printed_by :: "facet list \<Rightarrow> string option" where
  "printed_by [] = None"
| "printed_by (Printed_by module t # fs) =
     (if module \<in> {''decimal'', ''uuid'', ''ipaddress''} then Some t else printed_by fs)"
| "printed_by (_ # fs) = printed_by fs"

fun model_dump :: "facet list \<Rightarrow> pyobj option" where
  "model_dump [] = None"
| "model_dump (Model_dump v # fs) = Some v"
| "model_dump (_ # fs) = model_dump fs"

fun asdict :: "facet list \<Rightarrow> pyobj option" where
  "asdict [] = None"
| "asdict (Asdict v # fs) = Some v"
| "asdict (_ # fs) = asdict fs"

fun encoded_fields :: "facet list \<Rightarrow> (string \<times> pyobj) list option" where
  "encoded_fields [] = None"
| "encoded_fields (Struct_fields keys values # fs) = Some (zip keys values)"
| "encoded_fields (_ # fs) = encoded_fields fs"

definition stdlib_text :: "facet list \<Rightarrow> string option" where
  "stdlib_text fs =
     (case isoformat fs of
        Some t \<Rightarrow> Some t
      | None \<Rightarrow> (case fspath fs of Some t \<Rightarrow> Some t | None \<Rightarrow> printed_by fs))"

lemma size_secret_value [termination_simp]: "secret_value fs = Some v \<Longrightarrow> size v < Suc (size_list size fs)"
  by (induction fs rule: secret_value.induct) auto

lemma size_enum_value [termination_simp]: "enum_value fs = Some v \<Longrightarrow> size v < Suc (size_list size fs)"
  by (induction fs rule: enum_value.induct) auto

lemma size_model_dump [termination_simp]: "model_dump fs = Some v \<Longrightarrow> size v < Suc (size_list size fs)"
  by (induction fs rule: model_dump.induct) auto

lemma size_asdict [termination_simp]: "asdict fs = Some v \<Longrightarrow> size v < Suc (size_list size fs)"
  by (induction fs rule: asdict.induct) auto

lemma size_zip: "(k, v) \<in> set (zip keys values) \<Longrightarrow> size v < Suc (size_list size values)"
  by (auto dest!: set_zip_rightD simp: less_Suc_eq_le size_list_estimation')

lemma size_encoded_fields [termination_simp]:
  "encoded_fields fs = Some kvs \<Longrightarrow> (k, v) \<in> set kvs \<Longrightarrow> size v < Suc (size_list size fs)"
  by (induction fs rule: encoded_fields.induct) (auto dest: size_zip)

lemma size_py_dict [termination_simp]:
  "(k, v) \<in> set d \<Longrightarrow> size v < Suc (size_list (size_prod size size) d)"
  by (induction d) auto

definition key_from_py :: "pyobj \<Rightarrow> (conversion_error, string) result" where
  "key_from_py k =
     (case k of O_str s \<Rightarrow> Inr s | _ \<Rightarrow> Inl (Conversion_type_error ''configuration keys have to be strings''))"

definition object_of :: "(string \<times> json) list \<Rightarrow> json" where
  "object_of entries = Object (fold (\<lambda>(k, v). map_insert k v) entries [])"

definition refused_value :: "string \<Rightarrow> conversion_error" where
  "refused_value cls = Conversion_type_error (cls @ '' is not a configuration value: expected a string, number, bool, '' @
     ''None, list, dict, a Pydantic model, a dataclass or a msgspec Struct'')"

text \<open>The order of the questions is the code's.\<close>

fun from_py :: "pyobj \<Rightarrow> (conversion_error, json) result" where
  "from_py O_none = Inr Null"
| "from_py (O_bool b) = Inr (Bool b)"
| "from_py (O_int i) = int_from_py i"
| "from_py (O_float r) = float_from_py r"
| "from_py (O_str s) = Inr (String s)"
| "from_py (O_dict d) =
     rbind (traverse (\<lambda>(k, v). rbind (key_from_py k) (\<lambda>k'. rbind (from_py v) (\<lambda>v'. Inr (k', v')))) d)
       (\<lambda>entries. Inr (object_of entries))"
| "from_py (O_list items) = rbind (traverse from_py items) (\<lambda>vs. Inr (Array vs))"
| "from_py (O_tuple items) = rbind (traverse from_py items) (\<lambda>vs. Inr (Array vs))"
| "from_py (O_object cls fs) =
     (case secret_value fs of
        Some v \<Rightarrow> from_py v
      | None \<Rightarrow>
     (case enum_value fs of
        Some v \<Rightarrow> from_py v
      | None \<Rightarrow>
     (case stdlib_text fs of
        Some text \<Rightarrow> Inr (String text)
      | None \<Rightarrow>
     (case model_dump fs of
        Some v \<Rightarrow> from_py v
      | None \<Rightarrow>
     (case asdict fs of
        Some v \<Rightarrow> from_py v
      | None \<Rightarrow>
     (case encoded_fields fs of
        Some kvs \<Rightarrow>
          rbind (traverse (\<lambda>(k, v). rbind (from_py v) (\<lambda>v'. Inr (k, v'))) kvs) (\<lambda>entries. Inr (object_of entries))
      | None \<Rightarrow> Inl (refused_value cls)))))))"

subsection \<open>A snapshot's values: \<open>value_to_json\<close>\<close>

text \<open>The crate's own value has integers of 128 bits. \<open>f64\<close> is the nearest float of an integer.\<close>

datatype owned =
    Owned_null
  | Owned_bool bool
  | Owned_integer int
  | Owned_float string
  | Owned_string string
  | Owned_array "owned list"
  | Owned_table "(string \<times> owned) list"

definition integer_to_json :: "(int \<Rightarrow> string) \<Rightarrow> int \<Rightarrow> json" where
  "integer_to_json f64 i =
     Number (case extract_i64 i of
        Some w \<Rightarrow> Signed w
      | None \<Rightarrow> (case extract_u64 i of Some w \<Rightarrow> Unsigned w | None \<Rightarrow> Float_of (f64 i)))"

fun value_to_json :: "(int \<Rightarrow> string) \<Rightarrow> owned \<Rightarrow> json" where
  "value_to_json f64 Owned_null = Null"
| "value_to_json f64 (Owned_bool b) = Bool b"
| "value_to_json f64 (Owned_integer i) = integer_to_json f64 i"
| "value_to_json f64 (Owned_float r) = (if is_finite r then Number (Float_of r) else Null)"
| "value_to_json f64 (Owned_string s) = String s"
| "value_to_json f64 (Owned_array items) = Array (map (value_to_json f64) items)"
| "value_to_json f64 (Owned_table entries) =
     object_of (map (\<lambda>(k, v). (k, value_to_json f64 v)) entries)"

subsection \<open>Numbers keep their digits\<close>

lemma sint_word_of_int: "- (2 ^ 63) \<le> i \<Longrightarrow> i < 2 ^ 63 \<Longrightarrow> sint (word_of_int i :: 64 word) = i"
  by (simp add: signed_take_bit_int_eq_self sint_sbintrunc')

lemma uint_word_of_int: "0 \<le> i \<Longrightarrow> i < 2 ^ 64 \<Longrightarrow> uint (word_of_int i :: 64 word) = i"
  by (simp add: uint_word_of_int_eq take_bit_int_eq_self)

lemma int_to_py:
  "extract_i64 i = Some w \<Longrightarrow> number_to_py (Signed w) = O_int i"
  "extract_i64 i = None \<Longrightarrow> extract_u64 i = Some w \<Longrightarrow> number_to_py (Unsigned w) = O_int i"
  by (auto simp: extract_i64_def extract_u64_def number_to_py_def as_i64_def as_u64_def sint_word_of_int
    uint_word_of_int split: if_splits)

definition canonical :: "number \<Rightarrow> bool" where
  "canonical n =
     (case n of Signed _ \<Rightarrow> True | Unsigned w \<Rightarrow> 2 ^ 63 \<le> uint w | Float_of r \<Rightarrow> is_finite r)"

lemma from_number_to_py: "canonical n \<Longrightarrow> from_py (number_to_py n) = Inr (Number n)"
proof (cases n)
  case (Signed w)
  have "- (2 ^ 63) \<le> sint w" "sint w < 2 ^ 63" using sint_greater_eq [of w] sint_less [of w] by simp_all
  with Signed show ?thesis
    by (simp add: number_to_py_def as_i64_def int_from_py_def extract_i64_def)
next
  case (Unsigned w)
  assume "canonical n"
  with Unsigned have "2 ^ 63 \<le> uint w" by (simp add: canonical_def)
  moreover have "uint w < 2 ^ 64" using uint_lt2p [of w] by simp
  ultimately show ?thesis
    by (simp add: Unsigned number_to_py_def as_i64_def as_u64_def int_from_py_def extract_i64_def extract_u64_def)
next
  case (Float_of r)
  assume "canonical n"
  with Float_of show ?thesis
    by (simp add: canonical_def number_to_py_def as_i64_def as_u64_def float_from_py_def)
qed

subsection \<open>There and again\<close>

text \<open>A value as serde_json keeps it, and what is left of it on the other side: a date is its text.\<close>

fun well_formed :: "json \<Rightarrow> bool" where
  "well_formed (Number n) = canonical n"
| "well_formed (Array items) \<longleftrightarrow> (\<forall>v \<in> set items. well_formed v)"
| "well_formed (Object entries) \<longleftrightarrow>
     sorted_wrt (<) (map fst entries) \<and> (\<forall>(k, v) \<in> set entries. well_formed v)"
| "well_formed _ \<longleftrightarrow> True"

fun undated :: "json \<Rightarrow> json" where
  "undated (Array items) = Array (map undated items)"
| "undated (Object entries) =
     (case entries of
        [(k, String text)] \<Rightarrow> if k = toml_datetime then String text else Object [(k, String text)]
      | _ \<Rightarrow> Object (map (\<lambda>(k, v). (k, undated v)) entries))"
| "undated v = v"

lemma map_insert_last:
  "\<forall>e \<in> set es. fst e < k \<Longrightarrow> map_insert k v es = es @ [(k, v)]"
  by (induction es) (auto dest: less_not_sym)

lemma fold_map_insert_sorted:
  "sorted_wrt (<) (map fst (acc @ es)) \<Longrightarrow> fold (\<lambda>(k, v). map_insert k v) es acc = acc @ es"
proof (induction es arbitrary: acc)
  case (Cons e es)
  obtain k v where e: "e = (k, v)" by (cases e)
  have "map_insert k v acc = acc @ [e]"
    using Cons.prems e by (auto simp: sorted_wrt_append intro!: map_insert_last)
  with Cons.IH [of "acc @ [e]"] Cons.prems e show ?case by simp
qed simp

lemma object_of_sorted: "sorted_wrt (<) (map fst es) \<Longrightarrow> object_of es = Object es"
  using fold_map_insert_sorted [of "[]" es] by (simp add: object_of_def)

lemma entries_back:
  assumes "\<And>k v. (k, v) \<in> set es \<Longrightarrow> from_py (to_py v) = Inr (undated v)" "sorted_wrt (<) (map fst es)"
  shows "from_py (O_dict (map (\<lambda>(k, v). (O_str k, to_py v)) es)) = Inr (Object (map (\<lambda>(k, v). (k, undated v)) es))"
proof -
  have "traverse (\<lambda>(k, v). rbind (key_from_py k) (\<lambda>k'. rbind (from_py v) (\<lambda>v'. Inr (k', v'))))
      (map (\<lambda>(k, v). (O_str k, to_py v)) es) = Inr (map (\<lambda>(k, v). (k, undated v)) es)"
    using assms(1) by (auto simp: traverse_map key_from_py_def intro!: traverse_all)
  moreover have "sorted_wrt (<) (map fst (map (\<lambda>(k, v). (k, undated v)) es))"
    using assms(2) by (simp add: comp_def split_def)
  ultimately show ?thesis by (simp add: object_of_sorted)
qed

lemma list_back:
  assumes "\<And>v. v \<in> set vs \<Longrightarrow> from_py (to_py v) = Inr (undated v)"
  shows "from_py (O_list (map to_py vs)) = Inr (Array (map undated vs))"
proof -
  have "traverse from_py (map to_py vs) = Inr (map undated vs)" using assms by (simp add: traverse_map traverse_all)
  then show ?thesis by simp
qed

lemma there_and_back: "well_formed v \<Longrightarrow> from_py (to_py v) = Inr (undated v)"
proof (induction v)
  case (Number n)
  then show ?case by (simp add: from_number_to_py)
next
  case (Array items)
  then show ?case using list_back by auto
next
  case (Object entries)
  then have all: "from_py (O_dict (map (\<lambda>(k, v). (O_str k, to_py v)) entries)) =
      Inr (Object (map (\<lambda>(k, v). (k, undated v)) entries))"
    by (intro entries_back) (force intro: snds.intros)+
  show ?case
  proof (cases "\<exists>k t. entries = [(k, String t)]")
    case True
    then obtain k t where "entries = [(k, String t)]" by blast
    with all show ?thesis by simp
  next
    case False
    then have "to_py (Object entries) = O_dict (map (\<lambda>(k, v). (O_str k, to_py v)) entries)"
        "undated (Object entries) = Object (map (\<lambda>(k, v). (k, undated v)) entries)"
      by (auto split: list.splits prod.splits json.splits)
    with all show ?thesis by simp
  qed
qed simp_all

subsection \<open>Properties\<close>

text \<open>C13: A resolved value that goes to Python and comes back is the value it was: no integer has become a float or
  a boolean, no digit is lost, every table has its keys. A native date of a TOML file is its text.\<close>

theorem data_survives_the_boundary:
  assumes "well_formed v"
  shows "from_py (to_py v) = Inr (undated v)"
  by (rule there_and_back [OF assms])

text \<open>C14: An integer has either all its digits or no place: supplied from Python it comes back as it was exactly
  if it fits 64 bits, signed or unsigned, and is refused otherwise; in a snapshot it reads as it is
  under the same bounds and as the nearest float outside them.\<close>

theorem integers_keep_their_digits:
  "(case from_py (O_int i) of Inl e \<Rightarrow> Inl e | Inr v \<Rightarrow> Inr (to_py v)) =
     (if - (2 ^ 63) \<le> i \<and> i < 2 ^ 64 then Inr (O_int i)
      else Inl (Overflow_error ''this integer is too large for a configuration value'')) \<and>
   to_py (value_to_json f64 (Owned_integer i)) =
     (if - (2 ^ 63) \<le> i \<and> i < 2 ^ 64 then O_int i else O_float (f64 i))"
proof (cases "extract_i64 i")
  case (Some w)
  then have "- (2 ^ 63) \<le> i" "i < 2 ^ 64" by (auto simp: extract_i64_def split: if_splits)
  with Some show ?thesis by (simp add: int_from_py_def integer_to_json_def int_to_py)
next
  case signed: None
  show ?thesis
  proof (cases "extract_u64 i")
    case (Some w)
    then have "- (2 ^ 63) \<le> i" "i < 2 ^ 64" by (auto simp: extract_u64_def split: if_splits)
    with Some signed show ?thesis by (simp add: int_from_py_def integer_to_json_def int_to_py)
  next
    case None
    with signed have "\<not> (- (2 ^ 63) \<le> i \<and> i < 2 ^ 64)"
      by (auto simp: extract_i64_def extract_u64_def split: if_splits)
    with None signed show ?thesis
      by (auto simp: int_from_py_def integer_to_json_def number_to_py_def as_i64_def as_u64_def)
  qed
qed

subsection \<open>At the edges\<close>

text \<open>A set is not configuration data, although a dataclass or a model may declare one and the loader builds
  it: comparing two models with such a field is refused, so \<open>on_change\<close> and \<open>events()\<close> have nothing
  to tell of them. The value of a \<open>SecretBytes\<close> is taken, and refused.\<close>

lemma model_with_a_set_is_refused:
  "from_py (O_object ''Limits'' [Model_dump (O_dict [(O_str ''tags'', O_object ''set'' [])])]) = Inl (refused_value ''set'')"
  by (simp add: key_from_py_def stdlib_text_def)

lemma secret_bytes_are_refused:
  "from_py (O_object ''SecretBytes'' [Secret_value (O_object ''bytes'' [])]) = Inl (refused_value ''bytes'')"
  by (simp add: stdlib_text_def)

text \<open>The order of the questions: a boolean is not a number, and a secret is its value before all else.\<close>

lemma true_is_not_one: "from_py (O_bool True) \<noteq> from_py (O_int 1)"
  by (simp add: int_from_py_def extract_i64_def)

definition sample_tree :: json where
  "sample_tree = Object
     [(''big'', Number (Unsigned 18446744073709551615)), (''on'', Bool True), (''port'', Number (Signed 5432)),
      (''since'', Object [(toml_datetime, String ''1979-05-27'')])]"

theorem data_survives_the_boundary_witness:
  "from_py (to_py sample_tree) = Inr (Object
     [(''big'', Number (Unsigned 18446744073709551615)), (''on'', Bool True), (''port'', Number (Signed 5432)),
      (''since'', String ''1979-05-27'')])"
proof -
  have "well_formed sample_tree"
    by code_simp
  from data_survives_the_boundary [OF this] show ?thesis
    by (simp add: sample_tree_def)
qed

end
