(* ===== verification/Scrub.thy ===== *)
theory Scrub
  imports Prelude
begin

section \<open>A refusal without the values: \<open>config/scrub.rs\<close>\<close>

text \<open>
  What the schema raised, as the boundary asks for it: an exception without an \<open>errors()\<close> that
  answers, one whose answer cannot be walked, or a list of reports. An item a report does not have
  is \<open>None\<close>; a message that is not a text is \<open>Some None\<close>. The parts of a location are their
  \<open>str()\<close>. \<open>input\<close> and \<open>ctx\<close> are whatever Pydantic put there.
\<close>

record report =
  rp_loc :: "string list option"
  rp_type :: "string option"
  rp_msg :: "string option option"
  rp_url :: "string option"
  rp_input :: string
  rp_ctx :: string

datatype failing = Own_exception string | Unwalkable | Reports "report list"

text \<open>What crosses: the items of one entry, which has no place for the others.\<close>

record entry =
  en_msg :: "string option"
  en_loc :: "string list option"
  en_type :: "string option"
  en_url :: "string option"

definition withheld :: string where
  "withheld = ''rejected by a validator (its message is not repeated here, '' @
     ''because a validator'' @ [CHR 0x27] @ ''s own text can carry the value)''"

definition not_validated :: string where
  "not_validated = ''the configuration did not validate''"

definition scrub_message :: "string \<Rightarrow> string \<Rightarrow> string" where
  "scrub_message kind message = (if kind \<in> {''value_error'', ''assertion_error''} then withheld else message)"

definition kind_of :: "report \<Rightarrow> string" where
  "kind_of r = (case rp_type r of None \<Rightarrow> [] | Some k \<Rightarrow> k)"

definition path_of :: "report \<Rightarrow> string" where
  "path_of r =
     (let path = (case rp_loc r of None \<Rightarrow> [] | Some parts \<Rightarrow> py_join ''.'' parts)
      in if path = [] then ''(the configuration)'' else path)"

definition message_of :: "report \<Rightarrow> string" where
  "message_of r =
     (case rp_msg r of
        Some (Some message) \<Rightarrow> scrub_message (kind_of r) message
      | _ \<Rightarrow> ''did not validate'')"

definition line_of :: "report \<Rightarrow> string" where
  "line_of r =
     (if kind_of r = [] then path_of r @ '': '' @ message_of r
      else path_of r @ '': '' @ message_of r @ '' ['' @ kind_of r @ '']'')"

definition scrub_validation :: "failing \<Rightarrow> string" where
  "scrub_validation f =
     (case f of
        Own_exception message \<Rightarrow> message
      | Unwalkable \<Rightarrow> not_validated
      | Reports rs \<Rightarrow> if rs = [] then not_validated else py_join ''; '' (map line_of rs))"

definition entry_of :: "report \<Rightarrow> entry" where
  "entry_of r =
     \<lparr>en_msg = (case rp_msg r of
        None \<Rightarrow> None
      | Some None \<Rightarrow> Some ''did not validate''
      | Some (Some message) \<Rightarrow> Some (scrub_message (kind_of r) message)),
      en_loc = rp_loc r, en_type = rp_type r, en_url = rp_url r\<rparr>"

definition scrubbed_reports :: "failing \<Rightarrow> entry list option" where
  "scrubbed_reports f = (case f of Reports rs \<Rightarrow> Some (map entry_of rs) | _ \<Rightarrow> None)"

subsection \<open>What it depends on\<close>

text \<open>A report with everything taken out of it that a value may be in: the input, the context, and the
  message a validator wrote itself.\<close>

definition without_values :: "report \<Rightarrow> report" where
  "without_values r =
     r\<lparr>rp_input := [], rp_ctx := [],
       rp_msg := (if kind_of r \<in> {''value_error'', ''assertion_error''}
                  then map_option (map_option (\<lambda>_. [])) (rp_msg r) else rp_msg r)\<rparr>"

lemma without_values_same [simp]:
  "kind_of (without_values r) = kind_of r" "path_of (without_values r) = path_of r"
  "rp_loc (without_values r) = rp_loc r" "rp_type (without_values r) = rp_type r" "rp_url (without_values r) = rp_url r"
  by (simp_all add: without_values_def kind_of_def path_of_def)

lemma message_without_values [simp]: "message_of (without_values r) = message_of r"
  by (cases "rp_msg r"; cases "the (rp_msg r)")
    (auto simp: message_of_def scrub_message_def without_values_def kind_of_def)

lemma entry_without_values [simp]: "entry_of (without_values r) = entry_of r"
  by (cases "rp_msg r"; cases "the (rp_msg r)")
    (auto simp: entry_of_def scrub_message_def without_values_def kind_of_def path_of_def)

lemma line_without_values [simp]: "line_of (without_values r) = line_of r"
  by (simp add: line_of_def)

text \<open>C15: What a refusal says, as a message and as the report of the exception, does not depend on any value:
  it is the same for the reports without their inputs, their contexts and their validators' own
  messages.\<close>

theorem refusals_carry_no_value:
  "scrub_validation (Reports (map without_values rs)) = scrub_validation (Reports rs) \<and>
   scrubbed_reports (Reports (map without_values rs)) = scrubbed_reports (Reports rs)"
  by (simp add: scrub_validation_def scrubbed_reports_def comp_def)

text \<open>And it keeps what a person fixes: every report has its line with its path and its type.\<close>

lemma refusals_name_every_place:
  assumes "r \<in> set rs"
  shows "\<exists>before after. scrub_validation (Reports rs) = before @ path_of r @ '': '' @ after"
proof -
  have "\<exists>before after. py_join sep ls = before @ l @ after" if "l \<in> set ls" for sep l ls
    using that
  proof (induction sep ls rule: py_join.induct)
    case (3 sep x y zs)
    show ?case
    proof (cases "l = x")
      case True
      show ?thesis
        by (rule exI [of _ "[]"], rule exI [of _ "sep @ py_join sep (y # zs)"]) (simp add: True)
    next
      case False
      with 3 obtain before after where "py_join sep (y # zs) = before @ l @ after" by auto
      then show ?thesis
        by - (rule exI [of _ "x @ sep @ before"], rule exI [of _ after], simp)
    qed
  qed (auto intro: exI [of _ "[]"])
  from this [of "line_of r" "map line_of rs" "''; ''"] assms
  obtain before after where "py_join ''; '' (map line_of rs) = before @ line_of r @ after" by auto
  moreover obtain tail where "line_of r = path_of r @ '': '' @ tail"
    by (cases "kind_of r = []") (simp_all add: line_of_def)
  moreover have "rs \<noteq> []" using assms by auto
  ultimately have "scrub_validation (Reports rs) = before @ path_of r @ '': '' @ (tail @ after)"
    by (simp add: scrub_validation_def)
  then show ?thesis by blast
qed

text \<open>An exception that is not a report is repeated as it is: a validator that raises something else than
  \<open>ValueError\<close> or \<open>AssertionError\<close>, which Pydantic does not turn into a report, is quoted in full.\<close>

lemma own_exception_is_repeated:
  "scrub_validation (Own_exception ''no such account: hunter2'') = ''no such account: hunter2''"
  by (simp add: scrub_validation_def)

end
