(* ===== verification/LogBridge.thy ===== *)
theory LogBridge
  imports Prelude
begin

section \<open>The engine's lines in \<open>logging\<close>: \<open>logbridge.rs\<close>, \<open>_logging.py\<close>\<close>

text \<open>
  The engine's threads hand their lines to a sink, which pushes them into a bounded channel and never
  waits; one forwarder per channel takes them out and makes records. \<open>install\<close> makes a channel and its
  forwarder, \<open>_stop_log_bridge\<close> takes the senders away, and \<open>_start_log_bridge\<close> installs again, so
  there is a new channel for every start after a stop. Every access of the shared state is one step,
  and steps of different threads come in any order; of the two Python calls one runs at a time.
  \<open>bridge_step\<close> leaves a state alone in which its step cannot happen. A receiver that is gone takes
  its queue with it. Without a sink the engine writes to stderr, which is not the bridge's.

  The last four fields of the bridge and the last of a channel are a record for the proofs: lines handed to
  \<open>try_send\<close>, lines that were in a channel and became no record, drop counts that reached no record,
  lines the sink returned on because of the flag, and what a channel has taken.
\<close>

datatype log_level = Off | Warn | Info

type_synonym line = "log_level \<times> string"

datatype forwarder = Receiving | Got line | Admitted line | Composed line nat | Ended

record channel =
  ch_queue :: "line list"
  ch_forwarder :: forwarder
  ch_accepted :: "line list"

datatype control = Idle | Raised | Unset | Lowered | Made nat

record log_bridge =
  br_closing :: bool
  br_dropped :: nat
  br_sender :: "nat option"
  br_sink :: "nat option"
  br_channels :: "channel list"
  br_level :: log_level
  br_control :: control
  br_talking :: "(nat \<times> line) list"
  br_records :: "(nat \<times> line \<times> nat) list"
  br_offered :: nat
  br_lost :: "(nat \<times> line) list"
  br_uncounted :: nat
  br_hushed :: nat

definition capacity :: nat where
  "capacity = 1024"

text \<open>The import of the module is a first \<open>install\<close>; the engine starts out telling everything.\<close>

definition bridge_init :: log_bridge where
  "bridge_init =
     \<lparr>br_closing = False, br_dropped = 0, br_sender = None, br_sink = None, br_channels = [], br_level = Info,
      br_control = Lowered, br_talking = [], br_records = [], br_offered = 0, br_lost = [],
      br_uncounted = 0, br_hushed = 0\<rparr>"

definition on_channel :: "nat \<Rightarrow> channel \<Rightarrow> log_bridge \<Rightarrow> log_bridge" where
  "on_channel c ch s = s\<lparr>br_channels := (br_channels s)[c := ch]\<rparr>"

subsection \<open>The sink\<close>

definition sink_called :: "line \<Rightarrow> log_bridge \<Rightarrow> log_bridge" where
  "sink_called l s =
     (case br_sink s of
        None \<Rightarrow> s
      | Some c \<Rightarrow>
          if br_closing s then s\<lparr>br_hushed := Suc (br_hushed s)\<rparr>
          else s\<lparr>br_talking := br_talking s @ [(c, l)], br_offered := Suc (br_offered s)\<rparr>)"

definition push_line :: "line \<Rightarrow> channel \<Rightarrow> channel" where
  "push_line l ch = ch\<lparr>ch_queue := ch_queue ch @ [l], ch_accepted := ch_accepted ch @ [l]\<rparr>"

definition try_send :: "nat \<Rightarrow> log_bridge \<Rightarrow> log_bridge" where
  "try_send j s =
     (if j < length (br_talking s) then
        let (c, l) = br_talking s ! j;
            t = s\<lparr>br_talking := take j (br_talking s) @ drop (Suc j) (br_talking s)\<rparr>;
            ch = br_channels s ! c
        in if ch_forwarder ch = Ended \<or> capacity \<le> length (ch_queue ch)
           then t\<lparr>br_dropped := Suc (br_dropped t)\<rparr>
           else on_channel c (push_line l ch) t
      else s)"

subsection \<open>Stop, start and the level\<close>

text \<open>\<open>_set_engine_log_level\<close> takes a signed integer of 64 bits; anything else is an OverflowError.\<close>

definition engine_level :: "int \<Rightarrow> log_level option" where
  "engine_level level =
     (if level < - (2 ^ 63) \<or> 2 ^ 63 \<le> level then None
      else Some (if level < 0 then Off else if level > 20 then Warn else Info))"

datatype call = Start | Stop | Level int

definition call_begins :: "call \<Rightarrow> log_bridge \<Rightarrow> log_bridge" where
  "call_begins c s =
     (if br_control s = Idle then
        case c of
          Stop \<Rightarrow> s\<lparr>br_closing := True, br_control := Raised\<rparr>
        | Start \<Rightarrow> s\<lparr>br_closing := False, br_control := Lowered\<rparr>
        | Level n \<Rightarrow> (case engine_level n of None \<Rightarrow> s | Some l \<Rightarrow> s\<lparr>br_level := l\<rparr>)
      else s)"

text \<open>\<open>install\<close> goes on although its thread did not start: then the channel has no receiver.\<close>

definition empty_channel :: "bool \<Rightarrow> channel" where
  "empty_channel spawned =
     \<lparr>ch_queue = [], ch_forwarder = (if spawned then Receiving else Ended), ch_accepted = []\<rparr>"

definition call_proceeds :: "bool \<Rightarrow> log_bridge \<Rightarrow> log_bridge" where
  "call_proceeds spawned s =
     (case br_control s of
        Idle \<Rightarrow> s
      | Raised \<Rightarrow> s\<lparr>br_sink := None, br_control := Unset\<rparr>
      | Unset \<Rightarrow> s\<lparr>br_sender := None, br_control := Idle\<rparr>
      | Lowered \<Rightarrow>
          if br_sender s \<noteq> None then s\<lparr>br_control := Idle\<rparr>
          else s\<lparr>br_channels := br_channels s @ [empty_channel spawned], br_sender := Some (length (br_channels s)),
                 br_control := Made (length (br_channels s))\<rparr>
      | Made c \<Rightarrow> s\<lparr>br_sink := Some c, br_control := Idle\<rparr>)"

subsection \<open>The forwarder\<close>

definition senders_left :: "nat \<Rightarrow> log_bridge \<Rightarrow> bool" where
  "senders_left c s \<longleftrightarrow> br_sender s = Some c \<or> br_sink s = Some c \<or> c \<in> fst ` set (br_talking s)"

text \<open>\<open>receiver.recv()\<close>, which waits while the channel is empty and has a sender.\<close>

definition recv_line :: "nat \<Rightarrow> log_bridge \<Rightarrow> log_bridge" where
  "recv_line c s =
     (let ch = br_channels s ! c
      in if c < length (br_channels s) \<and> ch_forwarder ch = Receiving then
           case ch_queue ch of
             l # q \<Rightarrow> on_channel c (ch\<lparr>ch_queue := q, ch_forwarder := Got l\<rparr>) s
           | [] \<Rightarrow> if senders_left c s then s else on_channel c (ch\<lparr>ch_forwarder := Ended\<rparr>) s
         else s)"

text \<open>The look at the flag.\<close>

definition forward_looks :: "nat \<Rightarrow> log_bridge \<Rightarrow> log_bridge" where
  "forward_looks c s =
     (let ch = br_channels s ! c
      in if c < length (br_channels s) then
           case ch_forwarder ch of
             Got l \<Rightarrow>
               if br_closing s then
                 (on_channel c (ch\<lparr>ch_queue := [], ch_forwarder := Ended\<rparr>) s)
                   \<lparr>br_lost := br_lost s @ map (Pair c) (l # ch_queue ch)\<rparr>
               else on_channel c (ch\<lparr>ch_forwarder := Admitted l\<rparr>) s
           | _ \<Rightarrow> s
         else s)"

text \<open>\<open>gate::attach\<close>, refused when the interpreter is going away; inside, the count is taken.\<close>

definition forward_attaches :: "nat \<Rightarrow> bool \<Rightarrow> log_bridge \<Rightarrow> log_bridge" where
  "forward_attaches c admitted s =
     (let ch = br_channels s ! c
      in if c < length (br_channels s) then
           case ch_forwarder ch of
             Admitted l \<Rightarrow>
               if admitted then (on_channel c (ch\<lparr>ch_forwarder := Composed l (br_dropped s)\<rparr>) s)\<lparr>br_dropped := 0\<rparr>
               else (on_channel c (ch\<lparr>ch_forwarder := Receiving\<rparr>) s)\<lparr>br_lost := br_lost s @ [(c, l)]\<rparr>
           | _ \<Rightarrow> s
         else s)"

text \<open>\<open>makeRecord\<close> and \<open>handle\<close>, whose exceptions are thrown away.\<close>

definition forward_handles :: "nat \<Rightarrow> bool \<Rightarrow> log_bridge \<Rightarrow> log_bridge" where
  "forward_handles c made s =
     (let ch = br_channels s ! c
      in if c < length (br_channels s) then
           case ch_forwarder ch of
             Composed l n \<Rightarrow>
               if made then (on_channel c (ch\<lparr>ch_forwarder := Receiving\<rparr>) s)\<lparr>br_records := br_records s @ [(c, l, n)]\<rparr>
               else (on_channel c (ch\<lparr>ch_forwarder := Receiving\<rparr>) s)
                 \<lparr>br_lost := br_lost s @ [(c, l)], br_uncounted := br_uncounted s + n\<rparr>
           | _ \<Rightarrow> s
         else s)"

text \<open>The level and the message of a record.\<close>

definition log_record :: "line \<Rightarrow> nat \<Rightarrow> nat \<times> string" where
  "log_record l dropped =
     (if fst l = Warn then 30 else 20,
      if 0 < dropped
      then snd l @ '' ('' @ str_of_nat dropped @ '' earlier line(s) dropped: the log bridge was full)''
      else snd l)"

subsection \<open>Schedules\<close>

datatype act =
    Emits line | Sends nat | Calls call | Proceeds bool
  | Receives nat | Looks nat | Attaches nat bool | Handles nat bool

fun bridge_step :: "act \<Rightarrow> log_bridge \<Rightarrow> log_bridge" where
  "bridge_step (Emits l) = sink_called l"
| "bridge_step (Sends j) = try_send j"
| "bridge_step (Calls c) = call_begins c"
| "bridge_step (Proceeds spawned) = call_proceeds spawned"
| "bridge_step (Receives c) = recv_line c"
| "bridge_step (Looks c) = forward_looks c"
| "bridge_step (Attaches c admitted) = forward_attaches c admitted"
| "bridge_step (Handles c made) = forward_handles c made"

fun bridge_run :: "act list \<Rightarrow> log_bridge \<Rightarrow> log_bridge" where
  "bridge_run [] s = s"
| "bridge_run (a # as) s = bridge_run as (bridge_step a s)"

text \<open>\<open>configure_logging\<close>, as the calls it makes.\<close>

definition configure_logging :: "int option \<Rightarrow> bool \<Rightarrow> call list" where
  "configure_logging level raw_stderr =
     (if raw_stderr then [Stop] else [Start]) @ (case level of None \<Rightarrow> [] | Some n \<Rightarrow> [Level n])"

fun call_acts :: "call \<Rightarrow> act list" where
  "call_acts (Level n) = [Calls (Level n)]"
| "call_acts c = [Calls c, Proceeds True, Proceeds True]"

subsection \<open>Where every line is\<close>

fun hand :: "forwarder \<Rightarrow> line list" where
  "hand (Got l) = [l]"
| "hand (Admitted l) = [l]"
| "hand (Composed l n) = [l]"
| "hand f = []"

fun carried :: "forwarder \<Rightarrow> nat" where
  "carried (Composed l n) = n"
| "carried f = 0"

definition told :: "nat \<Rightarrow> log_bridge \<Rightarrow> line list" where
  "told c s = map (\<lambda>(_, l, _). l) (filter (\<lambda>r. fst r = c) (br_records s))"

definition lost_from :: "nat \<Rightarrow> log_bridge \<Rightarrow> line list" where
  "lost_from c s = map snd (filter (\<lambda>r. fst r = c) (br_lost s))"

definition inside :: "channel \<Rightarrow> line list" where
  "inside ch = hand (ch_forwarder ch) @ ch_queue ch"

definition weight :: "channel \<Rightarrow> nat" where
  "weight ch = length (inside ch) + carried (ch_forwarder ch)"

definition told_counts :: "log_bridge \<Rightarrow> nat" where
  "told_counts s = sum_list (map (\<lambda>(_, _, n). n) (br_records s))"

definition channel_ok :: "line list \<Rightarrow> line list \<Rightarrow> channel \<Rightarrow> bool" where
  "channel_ok ts ls ch \<longleftrightarrow> length (ch_queue ch) \<le> capacity \<and> subseq (ts @ inside ch) (ch_accepted ch) \<and>
     length ts + length (inside ch) + length ls = length (ch_accepted ch)"

definition known :: "log_bridge \<Rightarrow> bool" where
  "known s \<longleftrightarrow> (let n = length (br_channels s) in
     (\<forall>c. br_sender s = Some c \<longrightarrow> c < n) \<and> (\<forall>c. br_sink s = Some c \<longrightarrow> c < n) \<and>
     (\<forall>c. br_control s = Made c \<longrightarrow> c < n) \<and> (\<forall>(c, l) \<in> set (br_talking s). c < n) \<and>
     (\<forall>(c, l) \<in> set (br_records s). c < n) \<and> (\<forall>(c, l) \<in> set (br_lost s). c < n))"

definition books :: "log_bridge \<Rightarrow> bool" where
  "books s \<longleftrightarrow> br_offered s = length (br_records s) + told_counts s + sum_list (map weight (br_channels s)) +
     length (br_talking s) + br_dropped s + length (br_lost s) + br_uncounted s"

definition channels_ok :: "log_bridge \<Rightarrow> bool" where
  "channels_ok s \<longleftrightarrow> (\<forall>c < length (br_channels s). channel_ok (told c s) (lost_from c s) (br_channels s ! c))"

definition bridge_inv :: "log_bridge \<Rightarrow> bool" where
  "bridge_inv s \<longleftrightarrow> known s \<and> channels_ok s \<and> books s"

lemma told_unchanged [simp]:
  "told c (s\<lparr>br_closing := a\<rparr>) = told c s" "told c (s\<lparr>br_dropped := n\<rparr>) = told c s"
  "told c (s\<lparr>br_sender := o1\<rparr>) = told c s" "told c (s\<lparr>br_sink := o2\<rparr>) = told c s"
  "told c (s\<lparr>br_channels := cs\<rparr>) = told c s" "told c (s\<lparr>br_level := lv\<rparr>) = told c s"
  "told c (s\<lparr>br_control := ct\<rparr>) = told c s" "told c (s\<lparr>br_talking := tk\<rparr>) = told c s"
  "told c (s\<lparr>br_offered := n\<rparr>) = told c s" "told c (s\<lparr>br_lost := ls\<rparr>) = told c s"
  "told c (s\<lparr>br_uncounted := n\<rparr>) = told c s" "told c (s\<lparr>br_hushed := n\<rparr>) = told c s"
  "told c (s\<lparr>br_records := br_records s @ [(d, l, n)]\<rparr>) = told c s @ (if d = c then [l] else [])"
  by (simp_all add: told_def)

lemma lost_from_simps [simp]:
  "lost_from c (s\<lparr>br_closing := a\<rparr>) = lost_from c s" "lost_from c (s\<lparr>br_dropped := n\<rparr>) = lost_from c s"
  "lost_from c (s\<lparr>br_sender := o1\<rparr>) = lost_from c s" "lost_from c (s\<lparr>br_sink := o2\<rparr>) = lost_from c s"
  "lost_from c (s\<lparr>br_channels := cs\<rparr>) = lost_from c s" "lost_from c (s\<lparr>br_level := lv\<rparr>) = lost_from c s"
  "lost_from c (s\<lparr>br_control := ct\<rparr>) = lost_from c s" "lost_from c (s\<lparr>br_talking := tk\<rparr>) = lost_from c s"
  "lost_from c (s\<lparr>br_offered := n\<rparr>) = lost_from c s" "lost_from c (s\<lparr>br_records := rs\<rparr>) = lost_from c s"
  "lost_from c (s\<lparr>br_uncounted := n\<rparr>) = lost_from c s" "lost_from c (s\<lparr>br_hushed := n\<rparr>) = lost_from c s"
  "lost_from c (s\<lparr>br_lost := br_lost s @ map (Pair d) ls\<rparr>) = lost_from c s @ (if d = c then ls else [])"
  by (simp_all add: lost_from_def filter_map comp_def)

lemma lost_one [simp]:
  "lost_from c (s\<lparr>br_lost := br_lost s @ [(d, l)]\<rparr>) = lost_from c s @ (if d = c then [l] else [])"
  using lost_from_simps(13) [of c s d "[l]"] by simp

text \<open>A step that changes one channel, and what the others see of it.\<close>

lemma channels_ok_at:
  assumes "channels_ok s" "c < length (br_channels s)" "br_channels t = (br_channels s)[c := ch]"
    "channel_ok (told c t) (lost_from c t) ch"
    "\<And>d. d \<noteq> c \<Longrightarrow> told d t = told d s" "\<And>d. d \<noteq> c \<Longrightarrow> lost_from d t = lost_from d s"
  shows "channels_ok t"
  using assms by (auto simp: channels_ok_def nth_list_update)

lemma channels_ok_same:
  "channels_ok s \<Longrightarrow> br_channels t = br_channels s \<Longrightarrow> br_records t = br_records s \<Longrightarrow> br_lost t = br_lost s \<Longrightarrow>
   channels_ok t"
  by (simp add: channels_ok_def told_def lost_from_def)

lemma weights_at:
  "c < length cs \<Longrightarrow>
   sum_list (map weight (cs[c := ch])) + weight (cs ! c) = sum_list (map weight cs) + weight ch"
  by (rule sum_list_map_update)

lemma subseq_without: "subseq (xs @ y # ys) zs \<Longrightarrow> subseq (xs @ ys) zs"
  by (rule subseq_order.trans [of _ "xs @ y # ys"]) (auto intro: list_emb_append_mono)

lemma inv_init: "bridge_inv bridge_init"
  by (simp add: bridge_inv_def bridge_init_def known_def channels_ok_def books_def told_counts_def)

lemma inv_sink_called: "bridge_inv s \<Longrightarrow> bridge_inv (sink_called l s)"
  by (auto simp: bridge_inv_def sink_called_def known_def channels_ok_def books_def told_counts_def Let_def
      split: option.splits)

lemma inv_call_begins: "bridge_inv s \<Longrightarrow> bridge_inv (call_begins c s)"
  by (auto simp: bridge_inv_def call_begins_def known_def channels_ok_def books_def told_counts_def Let_def
      split: option.splits call.splits)

lemma talker_known: "known s \<Longrightarrow> j < length (br_talking s) \<Longrightarrow> fst (br_talking s ! j) < length (br_channels s)"
  using nth_mem [of j "br_talking s"] by (simp add: known_def Let_def case_prod_unfold)

lemma length_without: "j < length xs \<Longrightarrow> Suc (length (take j xs @ drop (Suc j) xs)) = length xs"
  by auto

lemma inv_try_send:
  assumes "bridge_inv s"
  shows "bridge_inv (try_send j s)"
proof (cases "j < length (br_talking s)")
  case True
  obtain c l where cl: "br_talking s ! j = (c, l)" by (rule prod.exhaust)
  have c: "c < length (br_channels s)" using talker_known [of s j] assms True cl by (simp add: bridge_inv_def)
  have fewer: "set (take j (br_talking s) @ drop (Suc j) (br_talking s)) \<subseteq> set (br_talking s)"
    by (auto dest: in_set_takeD in_set_dropD)
  let ?ch = "br_channels s ! c"
  have ok: "channel_ok (told c s) (lost_from c s) ?ch" using assms c by (simp add: bridge_inv_def channels_ok_def)
  have len: "Suc (length (br_talking s) - Suc 0) = length (br_talking s)" using True by simp
  show ?thesis
  proof (cases "ch_forwarder ?ch = Ended \<or> capacity \<le> length (ch_queue ?ch)")
    case dropped: True
    with assms True cl fewer len show ?thesis
      by (fastforce simp: bridge_inv_def try_send_def known_def channels_ok_def books_def told_counts_def Let_def)
  next
    case False
    have "channel_ok (told c s) (lost_from c s) (push_line l ?ch)"
      using ok False subseq_snoc_mono [of "told c s @ inside ?ch" "ch_accepted ?ch" l]
      by (auto simp: channel_ok_def push_line_def inside_def)
    moreover have t: "try_send j s = s\<lparr>br_talking := take j (br_talking s) @ drop (Suc j) (br_talking s),
        br_channels := (br_channels s)[c := push_line l ?ch]\<rparr>"
      using True cl False by (simp add: try_send_def Let_def on_channel_def)
    ultimately have "channels_ok (try_send j s)"
      using assms channels_ok_at [of s c "try_send j s" "push_line l ?ch"] c by (simp add: bridge_inv_def)
    moreover have "books (try_send j s)"
      using assms True False len weights_at [OF c, of "push_line l ?ch"]
      by (simp add: t bridge_inv_def books_def told_counts_def weight_def push_line_def inside_def)
    moreover have "known (try_send j s)"
      using assms fewer by (auto simp: t bridge_inv_def known_def Let_def)
    ultimately show ?thesis by (simp add: bridge_inv_def)
  qed
qed (use assms in \<open>simp add: try_send_def\<close>)

lemma inv_new_channel:
  assumes "bridge_inv s" "br_channels t = br_channels s @ [empty_channel b]" "br_records t = br_records s"
    "br_lost t = br_lost s" "known t" "br_offered t = br_offered s" "br_talking t = br_talking s"
    "br_dropped t = br_dropped s" "br_uncounted t = br_uncounted s"
  shows "bridge_inv t"
proof -
  have "told (length (br_channels s)) t = []" "lost_from (length (br_channels s)) t = []"
    using assms(1, 3, 4) by (auto simp: bridge_inv_def known_def Let_def told_def lost_from_def filter_empty_conv)
  with assms show ?thesis
    by (auto simp: bridge_inv_def channels_ok_def books_def told_counts_def nth_append less_Suc_eq weight_def
        empty_channel_def inside_def channel_ok_def told_def lost_from_def)
qed

text \<open>Steps that leave the books alone but for one channel.\<close>

lemma inv_one_channel:
  assumes "bridge_inv s" "c < length (br_channels s)" "br_channels t = (br_channels s)[c := ch]"
    "channel_ok (told c t) (lost_from c t) ch" "known t"
    "\<And>d. d \<noteq> c \<Longrightarrow> told d t = told d s" "\<And>d. d \<noteq> c \<Longrightarrow> lost_from d t = lost_from d s"
    "br_offered t = br_offered s" "br_talking t = br_talking s"
    "length (br_records t) + told_counts t + weight ch + br_dropped t + length (br_lost t) + br_uncounted t =
     length (br_records s) + told_counts s + weight (br_channels s ! c) + br_dropped s + length (br_lost s) +
     br_uncounted s"
  shows "bridge_inv t"
proof -
  have "channels_ok t"
    using assms(1) channels_ok_at [OF _ assms(2,3,4) assms(6,7)] by (simp add: bridge_inv_def)
  moreover have "books t"
    using assms(1,3,8,9,10) weights_at [OF assms(2), of ch] by (simp add: bridge_inv_def books_def)
  ultimately show ?thesis using assms(5) by (simp add: bridge_inv_def)
qed

lemma channel_of: "bridge_inv s \<Longrightarrow> c < length (br_channels s) \<Longrightarrow>
  channel_ok (told c s) (lost_from c s) (br_channels s ! c)"
  by (simp add: bridge_inv_def channels_ok_def)

lemma inv_call_proceeds:
  assumes "bridge_inv s"
  shows "bridge_inv (call_proceeds b s)"
proof (cases "br_control s = Lowered \<and> br_sender s = None")
  case True
  then show ?thesis
    using assms by (intro inv_new_channel [OF assms, where b = b])
      (auto simp: call_proceeds_def bridge_inv_def known_def Let_def)
qed (use assms in
  \<open>auto simp: call_proceeds_def bridge_inv_def known_def channels_ok_def books_def told_counts_def Let_def
     split: control.splits\<close>)

lemma inv_recv_line:
  assumes "bridge_inv s"
  shows "bridge_inv (recv_line c s)"
proof (cases "c < length (br_channels s) \<and> ch_forwarder (br_channels s ! c) = Receiving")
  case True
  then have c: "c < length (br_channels s)" and f: "ch_forwarder (br_channels s ! c) = Receiving" by simp_all
  show ?thesis
  proof (cases "ch_queue (br_channels s ! c)")
    case Nil
    show ?thesis
    proof (cases "senders_left c s")
      case False
      show ?thesis
        by (rule inv_one_channel [OF assms c, of _ "(br_channels s ! c)\<lparr>ch_forwarder := Ended\<rparr>"])
          (use assms c f Nil False channel_of [OF assms c] in
            \<open>simp_all add: recv_line_def on_channel_def bridge_inv_def known_def Let_def channel_ok_def inside_def
               told_counts_def weight_def\<close>)
    qed (use assms c f Nil in \<open>simp add: recv_line_def\<close>)
  next
    case (Cons l q)
    show ?thesis
      by (rule inv_one_channel [OF assms c, of _ "(br_channels s ! c)\<lparr>ch_queue := q, ch_forwarder := Got l\<rparr>"])
        (use assms c f Cons channel_of [OF assms c] in
          \<open>simp_all add: recv_line_def on_channel_def bridge_inv_def known_def Let_def channel_ok_def inside_def
             told_counts_def weight_def\<close>)
  qed
qed (use assms in \<open>auto simp: recv_line_def Let_def\<close>)

lemma inv_forward_looks:
  assumes "bridge_inv s"
  shows "bridge_inv (forward_looks c s)"
proof (cases "c < length (br_channels s) \<and> (\<exists>l. ch_forwarder (br_channels s ! c) = Got l)")
  case True
  then obtain l where c: "c < length (br_channels s)" and f: "ch_forwarder (br_channels s ! c) = Got l" by blast
  show ?thesis
  proof (cases "br_closing s")
    case True
    show ?thesis
      by (rule inv_one_channel [OF assms c, of _ "(br_channels s ! c)\<lparr>ch_queue := [], ch_forwarder := Ended\<rparr>"])
        (use assms c f True channel_of [OF assms c] in
          \<open>auto simp: forward_looks_def on_channel_def bridge_inv_def known_def Let_def channel_ok_def inside_def
             told_counts_def weight_def lost_from_def told_def comp_def filter_map dest: subseq_append_leftD\<close>)
  next
    case False
    show ?thesis
      by (rule inv_one_channel [OF assms c, of _ "(br_channels s ! c)\<lparr>ch_forwarder := Admitted l\<rparr>"])
        (use assms c f False channel_of [OF assms c] in
          \<open>auto simp: forward_looks_def on_channel_def bridge_inv_def known_def Let_def channel_ok_def inside_def
             told_counts_def weight_def\<close>)
  qed
qed (use assms in \<open>auto simp: forward_looks_def Let_def split: forwarder.splits\<close>)

lemma inv_forward_attaches:
  assumes "bridge_inv s"
  shows "bridge_inv (forward_attaches c b s)"
proof (cases "c < length (br_channels s) \<and> (\<exists>l. ch_forwarder (br_channels s ! c) = Admitted l)")
  case True
  then obtain l where c: "c < length (br_channels s)" and f: "ch_forwarder (br_channels s ! c) = Admitted l" by blast
  show ?thesis
  proof (cases b)
    case True
    show ?thesis
      by (rule inv_one_channel [OF assms c, of _ "(br_channels s ! c)\<lparr>ch_forwarder := Composed l (br_dropped s)\<rparr>"])
        (use assms c f True channel_of [OF assms c] in
          \<open>auto simp: forward_attaches_def on_channel_def bridge_inv_def known_def Let_def channel_ok_def inside_def
             told_counts_def weight_def\<close>)
  next
    case False
    show ?thesis
      by (rule inv_one_channel [OF assms c, of _ "(br_channels s ! c)\<lparr>ch_forwarder := Receiving\<rparr>"])
        (use assms c f False channel_of [OF assms c] in
          \<open>auto simp: forward_attaches_def on_channel_def bridge_inv_def known_def Let_def channel_ok_def inside_def
             told_counts_def weight_def lost_from_def told_def dest: subseq_without\<close>)
  qed
qed (use assms in \<open>auto simp: forward_attaches_def Let_def split: forwarder.splits\<close>)

lemma inv_forward_handles:
  assumes "bridge_inv s"
  shows "bridge_inv (forward_handles c b s)"
proof (cases "c < length (br_channels s) \<and> (\<exists>l n. ch_forwarder (br_channels s ! c) = Composed l n)")
  case True
  then obtain l n where c: "c < length (br_channels s)" and f: "ch_forwarder (br_channels s ! c) = Composed l n"
    by blast
  show ?thesis
    by (rule inv_one_channel [OF assms c, of _ "(br_channels s ! c)\<lparr>ch_forwarder := Receiving\<rparr>"])
      (use assms c f channel_of [OF assms c] in
        \<open>auto simp: forward_handles_def on_channel_def bridge_inv_def known_def Let_def channel_ok_def inside_def
           told_counts_def weight_def lost_from_def told_def dest: subseq_without\<close>)
qed (use assms in \<open>auto simp: forward_handles_def Let_def split: forwarder.splits\<close>)

lemma inv_step: "bridge_inv s \<Longrightarrow> bridge_inv (bridge_step a s)"
  by (cases a) (simp_all add: inv_sink_called inv_try_send inv_call_begins inv_call_proceeds inv_recv_line
      inv_forward_looks inv_forward_attaches inv_forward_handles)

lemma inv_run: "bridge_inv s \<Longrightarrow> bridge_inv (bridge_run as s)"
  by (induction as arbitrary: s) (simp_all add: inv_step)

lemma reachable_inv: "bridge_inv (bridge_run as bridge_init)"
  by (intro inv_run inv_init)

lemma in_order: "channel_ok ts ls ch \<Longrightarrow> subseq (ts @ inside ch) (ch_accepted ch)"
  by (simp add: channel_ok_def)

lemma nothing_lost:
  assumes "channel_ok ts [] ch"
  shows "ts @ inside ch = ch_accepted ch"
  using assms subseq_same_length [of "ts @ inside ch" "ch_accepted ch"] by (simp add: channel_ok_def)

text \<open>C25: Whatever the threads do, every line that was handed to a channel is a record, is still on its
way, is in the count of dropped lines that a record has told or the next one will tell, or was lost to a
stop, to the exit or to a failure of \<open>logging\<close>. No channel holds more than 1024 lines, the records of a
channel are in the order in which it took the lines, and without such a loss none is missing between
them.\<close>

theorem silence_is_never_silent:
  assumes "s = bridge_run as bridge_init"
  shows "list_all (\<lambda>ch. length (ch_queue ch) \<le> capacity) (br_channels s) \<and>
    br_offered s =
      (length (br_records s) + length (br_lost s)) +
      (sum_list (map (\<lambda>ch. length (inside ch)) (br_channels s)) + length (br_talking s)) +
      (told_counts s + sum_list (map (\<lambda>ch. carried (ch_forwarder ch)) (br_channels s)) + br_dropped s +
       br_uncounted s) \<and>
    (c < length (br_channels s) \<longrightarrow>
      subseq (told c s @ inside (br_channels s ! c)) (ch_accepted (br_channels s ! c)) \<and>
      (lost_from c s = [] \<longrightarrow> told c s @ inside (br_channels s ! c) = ch_accepted (br_channels s ! c)))"
proof -
  have inv: "bridge_inv s" using assms reachable_inv by simp
  have "list_all (\<lambda>ch. length (ch_queue ch) \<le> capacity) (br_channels s)"
    using channel_of [OF inv] by (auto simp: list_all_length channel_ok_def)
  moreover have "sum_list (map weight chs) =
      sum_list (map (\<lambda>ch. length (inside ch)) chs) + sum_list (map (\<lambda>ch. carried (ch_forwarder ch)) chs)" for chs
    by (induction chs) (simp_all add: weight_def)
  moreover have "c < length (br_channels s) \<longrightarrow>
      subseq (told c s @ inside (br_channels s ! c)) (ch_accepted (br_channels s ! c)) \<and>
      (lost_from c s = [] \<longrightarrow> told c s @ inside (br_channels s ! c) = ch_accepted (br_channels s ! c))"
    using channel_of [OF inv, of c] in_order nothing_lost by metis
  ultimately show ?thesis using inv by (simp add: bridge_inv_def books_def)
qed

text \<open>A schedule with a loss in \<open>logging\<close>, and one line of each kind.\<close>

abbreviation reload_line :: line where
  "reload_line \<equiv> (Info, ''reloaded'')"

abbreviation refused_line :: line where
  "refused_line \<equiv> (Warn, ''refused'')"

definition some_traffic :: "act list" where
  "some_traffic =
     [Proceeds True, Proceeds True, Emits reload_line, Emits refused_line, Sends 1, Sends 0, Receives 0,
      Looks 0, Attaches 0 True, Handles 0 True, Receives 0]"

lemma some_traffic_runs:
  "bridge_run some_traffic bridge_init =
     \<lparr>br_closing = False, br_dropped = 0, br_sender = Some 0, br_sink = Some 0,
      br_channels = [\<lparr>ch_queue = [], ch_forwarder = Got reload_line, ch_accepted = [refused_line, reload_line]\<rparr>],
      br_level = Info, br_control = Idle, br_talking = [], br_records = [(0, refused_line, 0)], br_offered = 2,
      br_lost = [], br_uncounted = 0, br_hushed = 0\<rparr>"
  by (simp add: some_traffic_def bridge_init_def call_proceeds_def empty_channel_def sink_called_def try_send_def
      Let_def push_line_def on_channel_def capacity_def recv_line_def forward_looks_def forward_attaches_def
      forward_handles_def)

theorem silence_is_never_silent_witness:
  "told 0 (bridge_run some_traffic bridge_init) @ inside (br_channels (bridge_run some_traffic bridge_init) ! 0) =
     [refused_line, reload_line]"
  using silence_is_never_silent [OF refl, of some_traffic 0] by (simp add: some_traffic_runs lost_from_def)

subsection \<open>What \<open>configure_logging\<close> leaves behind\<close>

definition call_made :: "call \<Rightarrow> log_bridge \<Rightarrow> log_bridge" where
  "call_made c = bridge_run (call_acts c)"

lemma call_made_simps [simp]:
  "br_control s = Idle \<Longrightarrow> call_made Stop s = s\<lparr>br_closing := True, br_sink := None, br_sender := None\<rparr>"
  "br_control s = Idle \<Longrightarrow> br_sender s \<noteq> None \<Longrightarrow> call_made Start s = s\<lparr>br_closing := False\<rparr>"
  "br_control s = Idle \<Longrightarrow> br_sender s = None \<Longrightarrow> call_made Start s =
     s\<lparr>br_closing := False, br_channels := br_channels s @ [empty_channel True],
       br_sender := Some (length (br_channels s)), br_sink := Some (length (br_channels s))\<rparr>"
  "br_control s = Idle \<Longrightarrow> call_made (Level n) s =
     (case engine_level n of None \<Rightarrow> s | Some l \<Rightarrow> s\<lparr>br_level := l\<rparr>)"
  by (simp_all add: call_made_def call_begins_def call_proceeds_def)

definition settled :: "log_bridge \<Rightarrow> bool" where
  "settled s \<longleftrightarrow> br_control s = Idle \<and> br_sink s = br_sender s"

lemma settled_call: "settled s \<Longrightarrow> settled (call_made c s)"
  by (cases c; cases "br_sender s") (auto simp: settled_def split: option.splits)

lemma settled_calls: "settled s \<Longrightarrow> settled (fold call_made cs s)"
  by (induction cs arbitrary: s) (simp_all add: settled_call)

text \<open>Whatever calls of \<open>configure_logging\<close> came before, the last one decides: the bridge is on or off as
asked, and an integer that fits the boundary is the level.\<close>

theorem last_configuration_counts:
  assumes "settled s"
  shows "br_closing (fold call_made (calls @ configure_logging level raw) s) = raw \<and>
    (br_sink (fold call_made (calls @ configure_logging level raw) s) = None \<longleftrightarrow> raw) \<and>
    br_level (fold call_made (calls @ configure_logging level raw) s) =
      (case Option.bind level engine_level of None \<Rightarrow> br_level (fold call_made calls s) | Some l \<Rightarrow> l)"
proof -
  define t where "t = fold call_made calls s"
  have "settled t" using settled_calls [OF assms] by (simp add: t_def)
  then show ?thesis
    unfolding fold_append comp_def t_def [symmetric]
    by (cases raw; cases "br_sender t"; cases level) (auto simp: settled_def configure_logging_def split: option.splits)
qed

definition imported :: log_bridge where
  "imported = bridge_run [Proceeds True, Proceeds True] bridge_init"

lemma imported_simp:
  "imported = bridge_init\<lparr>br_channels := [empty_channel True], br_sender := Some 0, br_sink := Some 0, br_control := Idle\<rparr>"
  by (simp add: imported_def bridge_init_def call_proceeds_def)

theorem last_configuration_counts_witness:
  "br_level (fold call_made ([Stop] @ configure_logging (Some 30) False) imported) = Warn"
proof -
  have "settled imported" by (simp add: imported_simp bridge_init_def settled_def)
  from last_configuration_counts [OF this, of "[Stop]" "Some 30" False] show ?thesis
    by (simp add: engine_level_def)
qed

subsection \<open>What it does otherwise than it says\<close>

lemmas bridge_evals = imported_simp bridge_init_def empty_channel_def sink_called_def try_send_def Let_def push_line_def
  on_channel_def capacity_def recv_line_def forward_looks_def forward_attaches_def forward_handles_def
  call_begins_def call_proceeds_def configure_logging_def

text \<open>
  The comment of \<open>_stop_log_bridge\<close> says that the forwarder finishes the queue and returns. It returns at
  the first line it takes after the flag is up: two lines that were queued when \<open>raw_stderr=True\<close> was asked
  for become no record, and no count tells of them.
\<close>

lemma stop_forgets_the_queue:
  "let s = bridge_run (concat (map call_acts (configure_logging None True)) @ [Receives 0, Looks 0])
     (bridge_run [Emits refused_line, Emits reload_line, Sends 0, Sends 0] imported)
   in br_records s = [] \<and> br_lost s = [(0, refused_line), (0, reload_line)] \<and> br_dropped s = 0"
  by (simp add: bridge_evals)

text \<open>
  The comment of \<open>_set_engine_log_level\<close> puts 30 with the levels that let everything through, and 0 with
  those that let warnings through only; both are the other way round.
\<close>

lemma level_comment_is_wrong: "engine_level 30 = Some Warn" "engine_level 0 = Some Info"
  by (simp_all add: engine_level_def)

text \<open>
  The count is taken before the record is made: when \<open>makeRecord\<close> raises, the lines that were dropped
  before are in no later record either.
\<close>

lemma failed_record_forgets_the_count:
  assumes "c < length (br_channels s)" "ch_forwarder (br_channels s ! c) = Admitted l" "0 < br_dropped s"
  shows "let t = bridge_run [Attaches c True, Handles c False] s
    in br_dropped t = 0 \<and> br_records t = br_records s \<and> br_uncounted t = br_uncounted s + br_dropped s"
  using assms by (simp add: forward_attaches_def forward_handles_def on_channel_def Let_def)

end
