(* ===== verification/Slots.thy ===== *)
theory Slots
  imports Compiled
begin

section \<open>The other four compiled stores\<close>

text \<open>
  \<open>nats.rs\<close> and \<open>firestore.rs\<close> keep a client beside the credential it was built with, as the stores of
  the theory \<open>Compiled\<close> do. \<open>s3.rs\<close> and \<open>git.rs\<close> do not: their client lives through every credential
  and asks a slot for the one to present, which each fetch writes before it reads. S3 looks at its
  client and at the slot under two locks; git holds a lock over writing and reading, and its fetches are
  threads here. Building a client, and what it answers, are parameters.
\<close>

subsection \<open>NATS and Firestore\<close>

definition nats_secrets :: "string \<times> string \<times> string \<Rightarrow> string list" where
  "nats_secrets = (\<lambda>(kind, first, second).
     if kind \<in> {''token'', ''nkey'', ''credentials''} then [first]
     else if kind = ''user_password'' then [second] else [])"

definition nats_kinds :: "string list" where
  "nats_kinds = [''anonymous'', ''token'', ''user_password'', ''nkey'', ''credentials'']"

definition not_a_credential :: "string \<Rightarrow> string \<Rightarrow> engine_error" where
  "not_a_credential kind store = \<lparr>ee_is_auth = False, ee_text = quoted kind @ '' is not a '' @ store @ '' credential''\<rparr>"

text \<open>\<open>options\<close>: the parse of a credentials file may fail, the other builders do not.\<close>

definition nats_options where
  "nats_options options with_credentials credential =
     (case credential of (kind, first, second) \<Rightarrow>
        if kind = ''credentials'' then
          (case with_credentials first of
             Inl e \<Rightarrow> Inl \<lparr>ee_is_auth = False, ee_text = ''nats: the credentials are not usable: '' @ e\<rparr>
           | Inr o1 \<Rightarrow> Inr o1)
        else if kind \<in> set nats_kinds then Inr (options credential)
        else Inl (not_a_credential kind ''NATS''))"

definition nats_client where
  "nats_client options with_credentials connect credential slot =
     (let rebuilt = (case rbind (nats_options options with_credentials credential) connect of
        Inl e \<Rightarrow> (Inl e, slot)
      | Inr nats \<Rightarrow> (Inr nats, Some (credential, nats)))
      in case slot of
           Some (built_with, nats) \<Rightarrow> if built_with = credential then (Inr nats, slot) else rebuilt
         | None \<Rightarrow> rebuilt)"

definition nats_fetch where
  "nats_fetch options with_credentials connect read redactor credential slot =
     (let (r, slot1) = nats_client options with_credentials connect credential slot in
      (case rbind r read of
         Inl e \<Rightarrow> Inl (store_raised e redactor (nats_secrets credential))
       | Inr answer \<Rightarrow> Inr answer, slot1))"

definition firestore_secrets :: "string \<times> string \<Rightarrow> string list" where
  "firestore_secrets = (\<lambda>(kind, v). if kind = ''access_token'' then [v] else [])"

definition firestore_kinds :: "string list" where
  "firestore_kinds = [''emulator'', ''access_token'', ''metadata_server'']"

definition firestore_client where
  "firestore_client build credential slot =
     (let rebuilt = (case credential of (kind, v) \<Rightarrow>
        if kind \<notin> set firestore_kinds then (Inl (not_a_method kind ''Firestore''), slot)
        else (let firestore = build credential in (Inr firestore, Some (credential, firestore))))
      in case slot of
           Some (built_with, firestore) \<Rightarrow> if built_with = credential then (Inr firestore, slot) else rebuilt
         | None \<Rightarrow> rebuilt)"

definition firestore_fetch where
  "firestore_fetch build read redactor credential slot =
     (let (r, slot1) = firestore_client build credential slot in
      (case rbind r read of
         Inl e \<Rightarrow> Inl (store_raised e redactor (firestore_secrets credential))
       | Inr document \<Rightarrow> Inr (document, ''json''), slot1))"

definition nats_make where
  "nats_make options with_credentials connect credential =
     rbind (nats_options options with_credentials credential) connect"

definition firestore_make where
  "firestore_make build credential =
     (if fst credential \<notin> set firestore_kinds then Inl (not_a_method (fst credential) ''Firestore'')
      else Inr (build credential))"

interpretation nats: credential_slot
  "nats_client options with_credentials connect" "nats_make options with_credentials connect"
  for options with_credentials connect
  by unfold_locales (auto simp: nats_client_def nats_make_def Let_def split: option.splits prod.splits)

interpretation firestore: credential_slot "firestore_client build" "firestore_make build" for build
  by unfold_locales (auto simp: firestore_client_def firestore_make_def Let_def split: option.splits prod.splits if_splits)

subsection \<open>S3\<close>

text \<open>The pair Python resolved, if both halves are there; without it the SDK's own chain signs.\<close>

type_synonym keys = "string \<times> string \<times> string option"

definition s3_keys :: "string option \<Rightarrow> string option \<Rightarrow> string option \<Rightarrow> keys option" where
  "s3_keys access_key_id secret_access_key session_token =
     (case (access_key_id, secret_access_key) of
        (Some a, Some s) \<Rightarrow> Some (a, s, session_token)
      | _ \<Rightarrow> None)"

definition s3_secrets :: "keys option \<Rightarrow> string list" where
  "s3_secrets keys =
     (case keys of
        None \<Rightarrow> []
      | Some (a, s, t) \<Rightarrow> s # (case t of None \<Rightarrow> [] | Some t \<Rightarrow> [t]))"

text \<open>\<open>impl Debug for Keys\<close>.\<close>

definition keys_debug :: "(string \<Rightarrow> string) \<Rightarrow> keys \<Rightarrow> string" where
  "keys_debug repr = (\<lambda>(a, s, t). ''Keys { access_key_id: '' @ repr a @ '', secret_access_key: '' @ repr ''***'' @
     '', session_token: '' @ (case t of None \<Rightarrow> ''None'' | Some _ \<Rightarrow> ''Some('' @ repr ''***'' @ '')'') @ '' }'')"

record 'x s3_state =
  s3_current :: keys
  s3_built :: "(bool \<times> 'x) option"
  s3_builds :: nat

definition s3_init :: "'x s3_state" where
  "s3_init = \<lparr>s3_current = ([], [], None), s3_built = None, s3_builds = 0\<rparr>"

definition s3_client where
  "s3_client build chained s =
     (let rebuilt = (case build chained of
        Inl e \<Rightarrow> (Inl e, s)
      | Inr x \<Rightarrow> (Inr x, s\<lparr>s3_builds := Suc (s3_builds s), s3_built := Some (chained, x)\<rparr>))
      in case s3_built s of
           Some (was_chained, x) \<Rightarrow> if was_chained = chained then (Inr x, s) else rebuilt
         | None \<Rightarrow> rebuilt)"

text \<open>\<open>ask x keys\<close>: one read of the object, signed with what the provider answers (\<open>None\<close>: the chain).\<close>

definition s3_read where
  "s3_read build ask keys s =
     (let s1 = (case keys of None \<Rightarrow> s | Some k \<Rightarrow> s\<lparr>s3_current := k\<rparr>);
          (r, s2) = s3_client build (keys = None) s1
      in (rbind r (\<lambda>x. ask x (if keys = None then None else Some (s3_current s2))), s2))"

definition s3_fetch where
  "s3_fetch build ask redactor = (\<lambda>(a, secret, t) s.
     (let keys = s3_keys a secret t; (r, s1) = s3_read build ask keys s in
      (case r of
         Inl e \<Rightarrow> Inl (store_raised e redactor (s3_secrets keys))
       | Inr answer \<Rightarrow> Inr answer, s1)))"

definition s3_honest where
  "s3_honest build s \<longleftrightarrow> (\<forall>chained x. s3_built s = Some (chained, x) \<longrightarrow> build chained = Inr x)"

lemma s3_client_answers:
  assumes "s3_honest build s"
  shows "fst (s3_client build chained s) = build chained"
    "s3_honest build (snd (s3_client build chained s))"
    "s3_current (snd (s3_client build chained s)) = s3_current s"
  using assms by (auto simp: s3_client_def s3_honest_def Let_def split: option.splits sum.splits)

lemma s3_read_answers:
  assumes "s3_honest build s"
  shows "fst (s3_read build ask keys s) = rbind (build (keys = None)) (\<lambda>x. ask x keys)"
    "s3_honest build (snd (s3_read build ask keys s))"
proof -
  let ?s1 = "case keys of None \<Rightarrow> s | Some k \<Rightarrow> s\<lparr>s3_current := k\<rparr>"
  have h: "s3_honest build ?s1" using assms by (auto simp: s3_honest_def split: option.splits)
  from s3_client_answers [OF h, of "keys = None"]
  show "fst (s3_read build ask keys s) = rbind (build (keys = None)) (\<lambda>x. ask x keys)"
    "s3_honest build (snd (s3_read build ask keys s))"
    by (cases keys; simp add: s3_read_def split_def Let_def)+
qed

lemma s3_fetch_answers:
  assumes "s3_honest build s"
  shows "fst (s3_fetch build ask redactor c s) =
      (case rbind (build (s3_keys (fst c) (fst (snd c)) (snd (snd c)) = None))
          (\<lambda>x. ask x (s3_keys (fst c) (fst (snd c)) (snd (snd c)))) of
         Inl e \<Rightarrow> Inl (store_raised e redactor (s3_secrets (s3_keys (fst c) (fst (snd c)) (snd (snd c)))))
       | Inr answer \<Rightarrow> Inr answer)"
    "s3_honest build (snd (s3_fetch build ask redactor c s))"
  using s3_read_answers [OF assms, of ask "s3_keys (fst c) (fst (snd c)) (snd (snd c))"]
  by (simp_all add: s3_fetch_def split_def Let_def del: not_None_eq not_Some_eq)

lemma s3_init_honest: "s3_honest build s3_init"
  by (simp add: s3_honest_def s3_init_def)

lemma s3_fetch_fresh:
  assumes "s3_honest build s"
  shows "fst (s3_fetch build ask redactor c s) = fst (s3_fetch build ask redactor c s3_init)"
  by (simp only: s3_fetch_answers(1) [OF assms] s3_fetch_answers(1) [OF s3_init_honest])

lemma s3_fetches_answer:
  "s3_honest build s \<Longrightarrow>
   fst (fetch_all (s3_fetch build ask redactor) cs s) = map (\<lambda>c. fst (s3_fetch build ask redactor c s3_init)) cs"
proof (induction cs arbitrary: s)
  case (Cons c cs)
  have rest: "fst (fetch_all (s3_fetch build ask redactor) cs (snd (s3_fetch build ask redactor c s))) =
      map (\<lambda>c. fst (s3_fetch build ask redactor c s3_init)) cs"
    by (rule Cons.IH [OF s3_fetch_answers(2) [OF Cons.prems]])
  show ?case by (simp add: split_def Let_def rest s3_fetch_fresh [OF Cons.prems, of _ _ c])
qed simp

text \<open>How many clients a store builds: one for every change between the chain and a pair.\<close>

definition chained_fetch :: "string option \<times> string option \<times> string option \<Rightarrow> bool" where
  "chained_fetch = (\<lambda>(a, secret, t). s3_keys a secret t = None)"

lemma s3_fetch_builds:
  "s3_builds (snd (s3_fetch (\<lambda>c. Inr (b c)) ask redactor c s)) =
     s3_builds s + (if map_option fst (s3_built s) = Some (chained_fetch c) then 0 else 1)"
  "map_option fst (s3_built (snd (s3_fetch (\<lambda>c. Inr (b c)) ask redactor c s))) = Some (chained_fetch c)"
  by (auto simp: s3_fetch_def s3_read_def s3_client_def chained_fetch_def split_def Let_def split: option.splits)

lemma s3_fetches_build:
  "s3_builds (snd (fetch_all (s3_fetch (\<lambda>c. Inr (b c)) ask redactor) cs s)) + (if s3_built s = None then 0 else 1) =
     s3_builds s + length (remdups_adj
       ((case s3_built s of None \<Rightarrow> [] | Some (c, _) \<Rightarrow> [c]) @ map chained_fetch cs))"
proof (induction cs arbitrary: s)
  case Nil
  then show ?case by (auto split: option.splits)
next
  case (Cons c cs)
  let ?s = "snd (s3_fetch (\<lambda>c. Inr (b c)) ask redactor c s)"
  obtain x where x: "s3_built ?s = Some (chained_fetch c, x)"
    using s3_fetch_builds(2) [of b ask redactor c s] by auto
  from Cons.IH [of ?s] s3_fetch_builds(1) [of b ask redactor c s] show ?case
    by (cases "s3_built s") (auto simp: split_def Let_def x)
qed

subsection \<open>git: building the source\<close>

datatype git_login = Anonymous | Https string string | Ssh_agent | Ssh_key string | Ssh_command string

definition git_login_of :: "string \<times> string \<times> string \<Rightarrow> (engine_error, git_login) result" where
  "git_login_of = (\<lambda>(kind, first, second).
     if kind = ''anonymous'' then Inr Anonymous
     else if kind = ''https'' then Inr (Https first second)
     else if kind = ''ssh_agent'' then Inr Ssh_agent
     else if kind = ''ssh_key'' then Inr (Ssh_key first)
     else if kind = ''ssh_command'' then Inr (Ssh_command first)
     else Inl \<lparr>ee_is_auth = False, ee_text = quoted kind @ '' is not a git credential''\<rparr>)"

definition git_secrets :: "string \<times> string \<times> string \<Rightarrow> string list" where
  "git_secrets = (\<lambda>(kind, first, second).
     if kind = ''https'' then [second] else if kind = ''ssh_command'' then [first] else [])"

datatype git_keys_kind = One string | Several "string list" | Under string

datatype reference_of = Branch string | Tag string | Commit_id string

record 'tls git_spec =
  gs_url :: string
  gs_keys :: git_keys_kind
  gs_reference :: "reference_of option"
  gs_format :: "string option"
  gs_cache_dir :: "string option"
  gs_timeout :: "string option"
  gs_max_bytes :: "string option"
  gs_compact_after :: "string option"
  gs_tls :: "'tls option"

definition head_or_empty :: "string list \<Rightarrow> string" where
  "head_or_empty paths = (case paths of [] \<Rightarrow> [] | p # _ \<Rightarrow> p)"

definition git_keys_named :: "string \<Rightarrow> string list \<Rightarrow> (string, git_keys_kind) result" where
  "git_keys_named keys paths =
     (if keys = ''one'' then Inr (One (head_or_empty paths))
      else if keys = ''several'' then Inr (Several paths)
      else if keys = ''prefix'' then Inr (Under (head_or_empty paths))
      else Inl (quoted keys @ '' is not a way of naming what to read''))"

definition git_reference_named :: "(string \<times> string) option \<Rightarrow> (string, reference_of option) result" where
  "git_reference_named reference =
     (case reference of
        None \<Rightarrow> Inr None
      | Some (kind, name) \<Rightarrow>
          if kind = ''branch'' then Inr (Some (Branch name))
          else if kind = ''tag'' then Inr (Some (Tag name))
          else if kind = ''commit'' then Inr (Some (Commit_id name))
          else Inl (quoted kind @ '' is not a git reference''))"

definition format_maybe :: "string option \<Rightarrow> (string, string option) result" where
  "format_maybe fmt =
     (case fmt of
        None \<Rightarrow> Inr None
      | Some f \<Rightarrow>
          (case format_parsed f of
             Some g \<Rightarrow> Inr (Some g)
           | None \<Rightarrow> Inl (quoted (py_lower f) @ '' is not a document format '' @ em_dash @ '' expected '' @
               py_join '', '' (map quoted [''json'', ''toml'', ''yaml'', ''ini'']) @ '' or '' @ quoted ''properties'')))"

text \<open>An empty \<open>TlsConfig\<close> asks for nothing.\<close>

definition tls_wanted :: "('tls \<Rightarrow> bool) \<Rightarrow> 'tls option \<Rightarrow> 'tls option" where
  "tls_wanted is_empty tls = (case tls of None \<Rightarrow> None | Some t \<Rightarrow> if is_empty t then None else Some t)"

text \<open>Every error here is a ValueError; what \<open>build\<close> complains of is scrubbed.\<close>

definition git_store_new where
  "git_store_new is_empty redactor build url keys paths reference fmt cache_dir timeout max_bytes compact_after tls =
     rbind (git_keys_named keys paths) (\<lambda>ks.
     rbind (git_reference_named reference) (\<lambda>r.
     rbind (format_maybe fmt) (\<lambda>f.
       (case build \<lparr>gs_url = url, gs_keys = ks, gs_reference = r, gs_format = f, gs_cache_dir = cache_dir,
          gs_timeout = timeout, gs_max_bytes = max_bytes, gs_compact_after = compact_after,
          gs_tls = tls_wanted is_empty tls\<rparr> of
          Inl e \<Rightarrow> Inl (redactor_scrub redactor (ee_text e) [])
        | Inr source \<Rightarrow> Inr source))))"

subsection \<open>Fetches on several threads\<close>

text \<open>
  A fetch writes its credential into the slot, reads, and during the read the client asks the slot,
  once or more often. \<open>held\<close> says whether a lock is held from the write to the end of the read: git
  does, S3 does not. The log is a record for the proofs: whose fetch asked, and what it was given.
\<close>

datatype 'c fetching = Resting | Called 'c | Entered 'c | Written 'c

record 'c shared_slot =
  sh_slot :: 'c
  sh_lock :: "nat option"
  sh_threads :: "'c fetching list"
  sh_log :: "('c \<times> 'c) list"

definition shared_init :: "'c \<Rightarrow> nat \<Rightarrow> 'c shared_slot" where
  "shared_init c n = \<lparr>sh_slot = c, sh_lock = None, sh_threads = replicate n Resting, sh_log = []\<rparr>"

datatype 'c fetch_act = Fetches nat 'c | Enters nat | Writes nat | Asks nat | Leaves nat

definition goes_to :: "nat \<Rightarrow> 'c fetching \<Rightarrow> 'c shared_slot \<Rightarrow> 'c shared_slot" where
  "goes_to i f s = s\<lparr>sh_threads := (sh_threads s)[i := f]\<rparr>"

definition thread_at :: "nat \<Rightarrow> 'c shared_slot \<Rightarrow> 'c fetching" where
  "thread_at i s = (if i < length (sh_threads s) then sh_threads s ! i else Resting)"

fun fetch_step :: "bool \<Rightarrow> 'c fetch_act \<Rightarrow> 'c shared_slot \<Rightarrow> 'c shared_slot" where
  "fetch_step held (Fetches i c) s = (case thread_at i s of Resting \<Rightarrow> goes_to i (Called c) s | _ \<Rightarrow> s)"
| "fetch_step held (Enters i) s =
     (case thread_at i s of
        Called c \<Rightarrow>
          if held then (if sh_lock s = None then (goes_to i (Entered c) s)\<lparr>sh_lock := Some i\<rparr> else s)
          else goes_to i (Entered c) s
      | _ \<Rightarrow> s)"
| "fetch_step held (Writes i) s =
     (case thread_at i s of Entered c \<Rightarrow> (goes_to i (Written c) s)\<lparr>sh_slot := c\<rparr> | _ \<Rightarrow> s)"
| "fetch_step held (Asks i) s =
     (case thread_at i s of Written c \<Rightarrow> s\<lparr>sh_log := sh_log s @ [(c, sh_slot s)]\<rparr> | _ \<Rightarrow> s)"
| "fetch_step held (Leaves i) s =
     (case thread_at i s of
        Written c \<Rightarrow> (goes_to i Resting s)\<lparr>sh_lock := (if held then None else sh_lock s)\<rparr>
      | _ \<Rightarrow> s)"

fun fetch_run :: "bool \<Rightarrow> 'c fetch_act list \<Rightarrow> 'c shared_slot \<Rightarrow> 'c shared_slot" where
  "fetch_run held [] s = s"
| "fetch_run held (a # as) s = fetch_run held as (fetch_step held a s)"

fun inside_lock :: "'c fetching \<Rightarrow> bool" where
  "inside_lock (Entered c) = True"
| "inside_lock (Written c) = True"
| "inside_lock _ = False"

definition fetch_inv :: "'c shared_slot \<Rightarrow> bool" where
  "fetch_inv s \<longleftrightarrow>
     (\<forall>i. inside_lock (thread_at i s) \<longrightarrow> sh_lock s = Some i) \<and>
     (\<forall>i c. thread_at i s = Written c \<longrightarrow> sh_slot s = c) \<and>
     (\<forall>(own, given) \<in> set (sh_log s). own = given)"

lemma thread_at_goes_to:
  "thread_at j (goes_to i f s) = (if i < length (sh_threads s) \<and> j = i then f else thread_at j s)"
  by (auto simp: thread_at_def goes_to_def nth_list_update)

lemma thread_at_simps [simp]:
  "thread_at i (s\<lparr>sh_lock := l\<rparr>) = thread_at i s" "thread_at i (s\<lparr>sh_slot := c\<rparr>) = thread_at i s"
  "thread_at i (s\<lparr>sh_log := g\<rparr>) = thread_at i s"
  by (simp_all add: thread_at_def)

lemma goes_to_simps [simp]:
  "sh_lock (goes_to i f s) = sh_lock s" "sh_slot (goes_to i f s) = sh_slot s" "sh_log (goes_to i f s) = sh_log s"
  by (simp_all add: goes_to_def)

lemma running_here: "thread_at i s \<noteq> Resting \<Longrightarrow> i < length (sh_threads s)"
  by (simp add: thread_at_def split: if_splits)

lemma fetch_inv_init: "fetch_inv (shared_init c n)"
  by (simp add: fetch_inv_def shared_init_def thread_at_def)

lemma fetch_inv_step: "fetch_inv s \<Longrightarrow> fetch_inv (fetch_step True a s)"
proof (cases a)
  case (Fetches i c)
  then show "fetch_inv s \<Longrightarrow> ?thesis"
    by (auto simp: fetch_inv_def thread_at_goes_to split: fetching.splits if_splits)
next
  case (Enters i)
  then show "fetch_inv s \<Longrightarrow> ?thesis"
    by (auto simp: fetch_inv_def thread_at_goes_to split: fetching.splits if_splits)
next
  case (Writes i)
  show "fetch_inv s \<Longrightarrow> ?thesis"
  proof (cases "thread_at i s")
    case (Entered c)
    assume inv: "fetch_inv s"
    have "\<not> inside_lock (thread_at j s)" if "j \<noteq> i" for j
      using inv Entered that by (auto simp: fetch_inv_def) (metis inside_lock.simps(1) option.inject)
    then have "thread_at j s \<noteq> Written d" if "j \<noteq> i" for j d using that by (metis inside_lock.simps(2))
    moreover have "i < length (sh_threads s)" using Entered running_here by force
    ultimately show ?thesis
      using inv Entered Writes by (auto simp: fetch_inv_def thread_at_goes_to)
  qed (use Writes in simp_all)
next
  case (Asks i)
  then show "fetch_inv s \<Longrightarrow> ?thesis" by (auto simp: fetch_inv_def split: fetching.splits)
next
  case (Leaves i)
  show "fetch_inv s \<Longrightarrow> ?thesis"
  proof (cases "thread_at i s")
    case (Written c)
    assume inv: "fetch_inv s"
    have "\<not> inside_lock (thread_at j s)" if "j \<noteq> i" for j
      using inv Written that by (auto simp: fetch_inv_def) (metis inside_lock.simps(2) option.inject)
    then have "thread_at j s \<noteq> Written d" "thread_at j s \<noteq> Entered d" if "j \<noteq> i" for j d
      using that by (metis inside_lock.simps(1,2))+
    moreover have "i < length (sh_threads s)" using Written running_here by force
    moreover note \<open>\<And>j. j \<noteq> i \<Longrightarrow> \<not> inside_lock (thread_at j s)\<close>
    ultimately show ?thesis
      using inv Written Leaves by (auto simp: fetch_inv_def thread_at_goes_to)
  qed (use Leaves in simp_all)
qed

lemma fetch_inv_run: "fetch_inv s \<Longrightarrow> fetch_inv (fetch_run True as s)"
  by (induction as arbitrary: s) (simp_all only: fetch_run.simps fetch_inv_step)

subsection \<open>The two halves agree on their vocabulary\<close>

definition firestore_built :: "firestore_auth \<Rightarrow> bool" where
  "firestore_built a \<longleftrightarrow> (\<exists>token urls. a \<in> {firestore_emulator, firestore_access_token token,
     fold firestore_with_url urls firestore_metadata_server})"

definition nats_built :: "nats_auth \<Rightarrow> bool" where
  "nats_built a \<longleftrightarrow> (\<exists>secret user reads. a \<in> {nats_anonymous, nats_token secret, nats_user_and_password user secret,
     nats_nkey_seed secret, nats_credentials secret, nats_credentials_file reads})"

definition git_built :: "git_auth \<Rightarrow> bool" where
  "git_built a \<longleftrightarrow> (\<exists>secret user path. a \<in> {git_anonymous, git_token secret, git_basic user secret, git_ssh_agent,
     git_ssh_key path, git_ssh_command secret})"

lemma firestore_url_kind: "fa_kind (fold firestore_with_url urls a) = fa_kind a"
  by (induction urls arbitrary: a) (simp_all add: firestore_with_url_def)

lemma git_keys_argument_named:
  "(\<And>k. path = Path_keys k \<Longrightarrow> gk_kind k \<in> {''one'', ''several'', ''prefix''}) \<Longrightarrow>
   git_keys_argument path = Inr (keys, paths) \<Longrightarrow> \<exists>ks. git_keys_named keys paths = Inr ks"
  by (auto simp: git_keys_argument_def git_keys_resolve_def git_keys_named_def Let_def
      split: path_argument.splits option.splits if_splits)

lemma git_reference_known:
  "git_reference branch tag commit = Inr r \<Longrightarrow> \<exists>x. git_reference_named r = Inr x"
  by (auto simp: git_reference_def git_reference_named_def List.map_filter_simps Let_def split: option.splits if_splits)

definition vault_built :: "vault_auth \<Rightarrow> bool" where
  "vault_built a \<longleftrightarrow> (\<exists>ms l secret role. a \<in> fold modified ms ` {vault_login l secret, vault_kubernetes role, vault_certificate})"

definition consul_built :: "consul_auth \<Rightarrow> bool" where
  "consul_built a \<longleftrightarrow> (\<exists>ms secret meth. a \<in> fold consul_modified ms `
     {consul_anonymous, consul_token secret, consul_kubernetes meth, consul_jwt meth secret})"

definition keys_built :: "path_argument \<Rightarrow> bool" where
  "keys_built path \<longleftrightarrow> (\<forall>k. path = Path_keys k \<longrightarrow>
     (\<exists>p ps. k \<in> {git_keys_one p, git_keys_several ps, git_keys_prefix p}))"

lemma vault_modified_kind: "va_kind (fold modified ms a) = va_kind a"
proof (induction ms arbitrary: a)
  case (Cons m ms)
  have "va_kind (modified m a) = va_kind a"
    by (cases m) (simp_all add: vault_at_mount_def vault_with_role_def vault_with_token_path_def)
  with Cons show ?case by simp
qed simp

lemma vault_login_kind: "va_kind (vault_login l secret) \<in> set vault_kinds"
  by (cases l) (simp_all add: vault_kinds_def vault_token_def vault_app_role_def vault_jwt_def vault_userpass_def
    vault_ldap_def)

lemma vault_built_kind: "vault_built a \<Longrightarrow> va_kind a \<in> set vault_kinds"
  using vault_login_kind
  by (auto simp: vault_built_def vault_modified_kind) (simp_all add: vault_kinds_def vault_kubernetes_def vault_certificate_def)

lemma consul_modified_kind:
  "ca_kind a \<in> set consul_kinds \<Longrightarrow> ca_kind (fold consul_modified ms a) \<in> set consul_kinds"
proof (induction ms arbitrary: a)
  case (Cons m ms)
  have "ca_kind (consul_modified m a) \<in> set consul_kinds"
    using Cons.prems by (cases m) (auto simp: consul_with_bearer_file_def consul_with_meta_def consul_kinds_def)
  with Cons.IH show ?case by simp
qed simp

lemma consul_built_kind: "consul_built a \<Longrightarrow> ca_kind a \<in> set consul_kinds"
  unfolding consul_built_def
  by (elim exE imageE insertE emptyE; hypsubst; rule consul_modified_kind)
    (simp_all add: consul_kinds_def consul_anonymous_def consul_token_def consul_kubernetes_def consul_jwt_def)

lemma nats_built_kind: "nats_built a \<Longrightarrow> na_kind a \<in> set nats_kinds"
  by (auto simp: nats_built_def nats_kinds_def nats_anonymous_def nats_token_def nats_user_and_password_def
      nats_nkey_seed_def nats_credentials_def nats_credentials_file_def)

lemma firestore_built_kind: "firestore_built a \<Longrightarrow> fa_kind a \<in> set firestore_kinds"
  by (auto simp: firestore_built_def firestore_url_kind firestore_kinds_def firestore_emulator_def
      firestore_access_token_def firestore_metadata_server_def)

lemma git_built_login: "git_built a \<Longrightarrow> git_resolve calls a = Inr g \<Longrightarrow> \<exists>login. git_login_of g = Inr login"
  by (auto simp: git_built_def git_resolve_def git_login_of_def rbind_Inr_iff git_anonymous_def git_token_def
      git_basic_def git_ssh_agent_def git_ssh_key_def git_ssh_command_def split: if_splits)

subsection \<open>Properties\<close>

text \<open>Whatever a Python program builds with the classmethods and modifiers of the auth classes, the compiled
  half knows the word for it: no login, no reference and no way of naming what to read is refused as
  unknown, so that what a fetch or a constructor can still fail with is the store crate's own error.\<close>

theorem both_halves_share_their_words:
  "(vault_built va \<and> vault_resolve calls va = Inr v \<longrightarrow> fst (vault_client bv v None) = Inr (bv v)) \<and>
   (consul_built ca \<and> consul_resolve calls ca = Inr c \<longrightarrow> fst (consul_client bc c None) = Inr (bc c)) \<and>
   (nats_built na \<and> nats_resolve calls na = Inr n \<longrightarrow>
      fst (nats_client options (\<lambda>text. Inr (parsed text)) (\<lambda>opts. Inr (connect opts)) n None) =
      Inr (connect (if fst n = ''credentials'' then parsed (fst (snd n)) else options n))) \<and>
   (firestore_built fa \<and> firestore_resolve calls fa = Inr f \<longrightarrow>
      fst (firestore_client bf f None) = Inr (bf f)) \<and>
   (git_built ga \<and> git_resolve calls ga = Inr g \<longrightarrow> (\<exists>login. git_login_of g = Inr login)) \<and>
   (keys_built path \<and> git_keys_argument path = Inr (keys, paths) \<and> git_reference branch tag commit = Inr r \<longrightarrow>
      (\<exists>ks x. git_keys_named keys paths = Inr ks \<and> git_reference_named r = Inr x))"
proof (intro conjI impI; elim conjE)
  assume "vault_built va" "vault_resolve calls va = Inr v"
  then have "fst v \<in> set vault_kinds" using vault_built_kind [of va] by (auto simp: vault_resolve_def rbind_Inr_iff)
  then show "fst (vault_client bv v None) = Inr (bv v)" by (simp add: vault_client_def split_def Let_def)
next
  assume "consul_built ca" "consul_resolve calls ca = Inr c"
  then have "fst c \<in> set consul_kinds" using consul_built_kind [of ca] by (auto simp: consul_resolve_def rbind_Inr_iff)
  then show "fst (consul_client bc c None) = Inr (bc c)" by (simp add: consul_client_def split_def Let_def)
next
  assume "nats_built na" "nats_resolve calls na = Inr n"
  then have "fst n \<in> set nats_kinds" using nats_built_kind [of na] by (auto simp: nats_resolve_def rbind_Inr_iff)
  then show "fst (nats_client options (\<lambda>text. Inr (parsed text)) (\<lambda>opts. Inr (connect opts)) n None) =
      Inr (connect (if fst n = ''credentials'' then parsed (fst (snd n)) else options n))"
    by (simp add: nats_client_def nats_options_def split_def Let_def)
next
  assume "firestore_built fa" "firestore_resolve calls fa = Inr f"
  then have "fst f \<in> set firestore_kinds"
    using firestore_built_kind [of fa] by (auto simp: firestore_resolve_def rbind_Inr_iff)
  then show "fst (firestore_client bf f None) = Inr (bf f)" by (simp add: firestore_client_def split_def Let_def)
next
  assume "git_built ga" "git_resolve calls ga = Inr g"
  then show "\<exists>login. git_login_of g = Inr login" by (rule git_built_login)
next
  assume built: "keys_built path" and keys: "git_keys_argument path = Inr (keys, paths)"
    and r: "git_reference branch tag commit = Inr r"
  have "gk_kind k \<in> {''one'', ''several'', ''prefix''}" if "path = Path_keys k" for k
    using built that by (auto simp: keys_built_def git_keys_one_def git_keys_several_def git_keys_prefix_def)
  from git_keys_argument_named [OF this keys] git_reference_known [OF r]
  show "\<exists>ks x. git_keys_named keys paths = Inr ks \<and> git_reference_named r = Inr x" by blast
qed

text \<open>C26: However its fetches interleave on however many threads, the git store answers every question of its
  client with the credential of the fetch that asked.\<close>

theorem git_presents_its_own_credential:
  "list_all (\<lambda>(own, given). own = given) (sh_log (fetch_run True acts (shared_init c n)))"
  using fetch_inv_run [OF fetch_inv_init [of c n], of acts] by (auto simp: fetch_inv_def list_all_iff)

text \<open>Fetched one after the other, S3 signs each request with the credential of its own fetch, as a store
  that is new for every fetch would, whatever the client answers; and it builds a client only when the
  fetches change between a key pair and the SDK's own chain, never for a rotated key.\<close>

theorem s3_keeps_its_client:
  "fst (fetch_all (s3_fetch build ask redactor) cs s3_init) =
     map (\<lambda>c. fst (s3_fetch build ask redactor c s3_init)) cs \<and>
   s3_builds (snd (fetch_all (s3_fetch (\<lambda>chained. Inr (b chained)) ask redactor) cs s3_init)) =
     length (remdups_adj (map chained_fetch cs))"
  using s3_fetches_answer [OF s3_init_honest] s3_fetches_build [of b ask redactor cs s3_init]
  by (simp add: s3_init_def)

text \<open>The S3 store holds no lock from the write to the read: two threads with different keys can sign with
  each other's, which its comment gives as a mistake of the caller.\<close>

lemma s3_can_sign_with_anothers_key:
  "sh_log (fetch_run False [Fetches 0 ''old'', Fetches 1 ''new'', Enters 1, Writes 1, Enters 0, Writes 0, Asks 1]
     (shared_init [] 2)) = [(''new'', ''old'')]"
  by (simp add: shared_init_def thread_at_def goes_to_def numeral_2_eq_2)

text \<open>One git fetch by itself: the client is given the login of this call's credential.\<close>

definition git_fetch where
  "git_fetch read redactor credential =
     (case read (git_login_of credential) of
        Inl e \<Rightarrow> Inl (store_raised e redactor (git_secrets credential))
      | Inr answer \<Rightarrow> Inr answer)"

lemma nats_secret_is_listed:
  assumes "a \<in> {nats_token secret, nats_user_and_password user secret, nats_nkey_seed secret, nats_credentials secret}"
    "nats_resolve calls a = Inr n" "resolve calls secret argument = Inr s"
  shows "s \<in> set (nats_secrets n)"
proof -
  obtain first second where n: "n = (na_kind a, first, second)" "\<exists>x. resolve calls (na_first a) x = Inr first"
    "\<exists>x. resolve calls (na_second a) x = Inr second"
    using assms(2) by (auto simp: nats_resolve_def rbind_Inr_iff)
  have "first = s" if "na_first a = secret" using n(2) resolve_argument [OF assms(3)] that by auto
  moreover have "second = s" if "na_second a = secret" using n(3) resolve_argument [OF assms(3)] that by auto
  ultimately show ?thesis using assms(1) n(1)
    by (auto simp: nats_secrets_def nats_token_def nats_user_and_password_def nats_nkey_seed_def nats_credentials_def)
qed

lemma git_secrets_simps:
  "git_secrets (''https'', first, second) = [second]" "git_secrets (''ssh_command'', first, second) = [first]"
  by (simp_all add: git_secrets_def)

lemma git_secret_is_listed:
  assumes "a \<in> {git_token secret, git_basic user secret, git_ssh_command secret}"
    "git_resolve calls a = Inr g" "resolve calls secret argument = Inr s"
  shows "s \<in> set (git_secrets g)"
  using assms(1,2) resolve_argument [OF assms(3)]
  by (auto simp: git_resolve_def rbind_Inr_iff git_secrets_simps git_token_def git_basic_def git_ssh_command_def)

lemma firestore_secret_is_listed:
  assumes "firestore_resolve calls (firestore_access_token secret) = Inr f" "resolve calls secret argument = Inr s"
  shows "s \<in> set (firestore_secrets f)"
  using assms(1) resolve_argument [OF assms(2)]
  by (auto simp: firestore_resolve_def rbind_Inr_iff firestore_secrets_def firestore_access_token_def)

text \<open>A failed fetch of NATS, Firestore, git or S3 does not quote the credential it used either: however the
  login was built in Python, no text of the secret that has no asterisk is left in the message, whatever
  the store crate or the client wrote; of an S3 pair that is the secret key, and the session token.\<close>

theorem other_stores_hide_their_credential:
  assumes "s \<noteq> []" "CHR ''*'' \<notin> set s" "resolve calls secret argument = Inr s"
    "na \<in> {nats_token secret, nats_user_and_password user secret, nats_nkey_seed secret, nats_credentials secret} \<and>
       nats_resolve calls na = Inr n \<and> fst (nats_fetch options parse connect read r n nslot) = Inl e \<or>
     firestore_resolve calls (firestore_access_token secret) = Inr f \<and>
       fst (firestore_fetch build read' r f fslot) = Inl e \<or>
     ga \<in> {git_token secret, git_basic user secret, git_ssh_command secret} \<and>
       git_resolve calls ga = Inr g \<and> git_fetch gread r g = Inl e \<or>
     fst (s3_fetch build' ask r (Some a, Some s, t) s3slot) = Inl e \<or>
     fst (s3_fetch build' ask r (Some a, Some k, Some s) s3slot) = Inl e"
  shows "\<not> py_in s (native_message e)"
proof -
  have "\<exists>x secrets. e = store_raised x r secrets \<and> s \<in> set secrets"
    using assms(4)
  proof (elim disjE conjE)
    assume "na \<in> {nats_token secret, nats_user_and_password user secret, nats_nkey_seed secret, nats_credentials secret}"
      "nats_resolve calls na = Inr n" and e: "fst (nats_fetch options parse connect read r n nslot) = Inl e"
    from nats_secret_is_listed [OF this(1,2) assms(3)] e show ?thesis
      by (auto simp: nats_fetch_def split_def Let_def split: sum.splits)
  next
    assume "firestore_resolve calls (firestore_access_token secret) = Inr f"
      and e: "fst (firestore_fetch build read' r f fslot) = Inl e"
    from firestore_secret_is_listed [OF this(1) assms(3)] e show ?thesis
      by (auto simp: firestore_fetch_def split_def Let_def split: sum.splits)
  next
    assume "ga \<in> {git_token secret, git_basic user secret, git_ssh_command secret}"
      "git_resolve calls ga = Inr g" and e: "git_fetch gread r g = Inl e"
    from git_secret_is_listed [OF this(1,2) assms(3)] e show ?thesis
      by (auto simp: git_fetch_def split: sum.splits)
  next
    assume "fst (s3_fetch build' ask r (Some a, Some s, t) s3slot) = Inl e"
    then show ?thesis
      by (force simp: s3_fetch_def s3_keys_def s3_secrets_def split_def Let_def split: sum.splits option.splits)
  next
    assume "fst (s3_fetch build' ask r (Some a, Some k, Some s) s3slot) = Inl e"
    then show ?thesis
      by (force simp: s3_fetch_def s3_keys_def s3_secrets_def split_def Let_def split: sum.splits)
  qed
  then show ?thesis using redactor_scrub_hides assms(1,2) by (auto simp: store_raised_message)
qed

subsection \<open>At concrete inputs\<close>

definition ci_token :: git_auth where
  "ci_token = git_token (Value (PStr ''ghs.1''))"

lemma ci_token_resolves: "git_resolve calls ci_token = Inr (''https'', ''x-access-token'', ''ghs.1'')"
  by (simp add: ci_token_def git_resolve_def git_token_def token_username_def resolve_def text_of_def)

theorem both_halves_share_their_words_witness:
  "\<exists>login. git_login_of (''https'', ''x-access-token'', ''ghs.1'') = Inr login"
proof -
  have "git_built ci_token" by (auto simp: git_built_def ci_token_def)
  moreover note ci_token_resolves [of "\<lambda>_. Inr PNone"]
  ultimately show ?thesis
    by (rule both_halves_share_their_words
        [THEN conjunct2, THEN conjunct2, THEN conjunct2, THEN conjunct2, THEN conjunct1, rule_format, OF conjI])
qed

theorem other_stores_hide_their_credential_witness:
  "\<not> py_in ''ghs.1'' (native_message (case git_fetch (\<lambda>login. Inl \<lparr>ee_is_auth = True, ee_text = ''refused: ghs.1''\<rparr>) []
     (''https'', ''x-access-token'', ''ghs.1'') of Inl e \<Rightarrow> e | Inr (_ :: string) \<Rightarrow> Store_error []))"
proof -
  let ?read = "\<lambda>login :: (engine_error, git_login) result.
    (Inl \<lparr>ee_is_auth = True, ee_text = ''refused: ghs.1''\<rparr> :: (engine_error, string) result)"
  let ?g = "(''https'', ''x-access-token'', ''ghs.1'')"
  have e: "git_fetch ?read [] ?g =
      Inl (store_raised \<lparr>ee_is_auth = True, ee_text = ''refused: ghs.1''\<rparr> [] (git_secrets ?g))"
    by (simp add: git_fetch_def)
  have s: "resolve (\<lambda>_. Inr PNone) (Value (PStr ''ghs.1'')) [] = Inr ''ghs.1''" by (simp add: resolve_def text_of_def)
  have a: "ci_token \<in> {git_token (Value (PStr ''ghs.1'')), git_basic [] (Value (PStr ''ghs.1'')),
      git_ssh_command (Value (PStr ''ghs.1''))}"
    by (simp add: ci_token_def)
  have star: "CHR ''*'' \<notin> set ''ghs.1''" by simp
  from other_stores_hide_their_credential
    [OF _ star s disjI2 [OF disjI2 [OF disjI1 [OF conjI [OF a conjI [OF ci_token_resolves e]]]]]]
  show ?thesis by (simp add: e)
qed

end
