(* ===== verification/Tls.thy ===== *)
theory Tls
  imports Slots
begin

section \<open>A private authority and a client certificate: \<open>_tls.py\<close>, \<open>tls.rs\<close>\<close>

text \<open>
  The configuration itself is a type of the store crates, data of paths and bytes; its operations are a
  parameter, the record \<open>tls_ops\<close>, and \<open>tls_ok\<close> is what the code here relies on: an empty one names
  nothing, each builder answers a configuration that names what it was given and leaves the other half
  alone, and only a configuration that names nothing is empty. Around it there are two wrappers, the compiled
  class and the Python one. A certificate is named by a path (\<open>Some\<close>) or by its bytes (\<open>None\<close>).
\<close>

record 't tls_ops =
  to_default :: 't
  to_ca_file :: "string \<Rightarrow> 't \<Rightarrow> 't"
  to_ca_pem :: "string \<Rightarrow> 't \<Rightarrow> 't"
  to_client_files :: "string \<Rightarrow> string \<Rightarrow> 't \<Rightarrow> 't"
  to_client_pem :: "string \<Rightarrow> string \<Rightarrow> 't \<Rightarrow> 't"
  to_is_empty :: "'t \<Rightarrow> bool"
  to_ca :: "'t \<Rightarrow> string option option"
  to_client :: "'t \<Rightarrow> (string option \<times> string option) option"
  to_debug :: "'t \<Rightarrow> string"
  to_unsupported :: "string \<Rightarrow> string \<Rightarrow> string \<Rightarrow> string"

definition tls_ok :: "'t tls_ops \<Rightarrow> bool" where
  "tls_ok ops \<longleftrightarrow>
     to_ca ops (to_default ops) = None \<and> to_client ops (to_default ops) = None \<and>
     (\<forall>p t. to_ca ops (to_ca_file ops p t) = Some (Some p) \<and> to_client ops (to_ca_file ops p t) = to_client ops t) \<and>
     (\<forall>b t. to_ca ops (to_ca_pem ops b t) = Some None \<and> to_client ops (to_ca_pem ops b t) = to_client ops t) \<and>
     (\<forall>c k t. to_client ops (to_client_files ops c k t) = Some (Some c, Some k) \<and>
        to_ca ops (to_client_files ops c k t) = to_ca ops t) \<and>
     (\<forall>c k t. to_client ops (to_client_pem ops c k t) = Some (None, None) \<and>
        to_ca ops (to_client_pem ops c k t) = to_ca ops t) \<and>
     (\<forall>t. to_is_empty ops t \<longleftrightarrow> to_ca ops t = None \<and> to_client ops t = None)"

subsection \<open>The compiled class\<close>

record 't core_tls =
  ct_inner :: 't

definition core_tls_new :: "'t tls_ops \<Rightarrow> 't core_tls" where
  "core_tls_new ops = \<lparr>ct_inner = to_default ops\<rparr>"

definition core_with_ca_certificate_file :: "'t tls_ops \<Rightarrow> string \<Rightarrow> 't core_tls \<Rightarrow> 't core_tls" where
  "core_with_ca_certificate_file ops path self = \<lparr>ct_inner = to_ca_file ops path (ct_inner self)\<rparr>"

definition core_with_ca_certificate_pem :: "'t tls_ops \<Rightarrow> string \<Rightarrow> 't core_tls \<Rightarrow> 't core_tls" where
  "core_with_ca_certificate_pem ops pem self = \<lparr>ct_inner = to_ca_pem ops pem (ct_inner self)\<rparr>"

definition core_with_client_certificate_files :: "'t tls_ops \<Rightarrow> string \<Rightarrow> string \<Rightarrow> 't core_tls \<Rightarrow> 't core_tls" where
  "core_with_client_certificate_files ops certificate key self =
     \<lparr>ct_inner = to_client_files ops certificate key (ct_inner self)\<rparr>"

definition core_with_client_certificate_pem :: "'t tls_ops \<Rightarrow> string \<Rightarrow> string \<Rightarrow> 't core_tls \<Rightarrow> 't core_tls" where
  "core_with_client_certificate_pem ops certificate key self =
     \<lparr>ct_inner = to_client_pem ops certificate key (ct_inner self)\<rparr>"

definition core_is_empty :: "'t tls_ops \<Rightarrow> 't core_tls \<Rightarrow> bool" where
  "core_is_empty ops self = to_is_empty ops (ct_inner self)"

definition core_tls_repr :: "'t tls_ops \<Rightarrow> 't core_tls \<Rightarrow> string" where
  "core_tls_repr ops self = to_debug ops (ct_inner self)"

text \<open>The two refusals. Each is a ValueError with the store crate's sentence.\<close>

definition nats_takes_paths :: "'t tls_ops \<Rightarrow> 't core_tls \<Rightarrow> string \<Rightarrow> (string, unit) result" where
  "nats_takes_paths ops tls described =
     (if to_ca ops (ct_inner tls) = Some None then
        Inl (to_unsupported ops described ''a certificate authority from PEM bytes''
          ''`async-nats` opens the file itself; name a file with `with_ca_certificate_file`'')
      else (case to_client ops (ct_inner tls) of
          Some (certificate, key) \<Rightarrow>
            if certificate = None \<or> key = None then
              Inl (to_unsupported ops described ''a client certificate from PEM bytes''
                ''`async-nats` opens the files itself; name files with `with_client_certificate_files`'')
            else Inr ()
        | None \<Rightarrow> Inr ()))"

definition s3_takes_no_client_certificate :: "'t tls_ops \<Rightarrow> 't core_tls \<Rightarrow> string \<Rightarrow> (string, unit) result" where
  "s3_takes_no_client_certificate ops tls described =
     (if to_client ops (ct_inner tls) \<noteq> None then
        Inl (to_unsupported ops described ''a client certificate''
          (''the AWS SDK's TLS context has a trust store and no client-certificate slot; '' @
           ''mTLS to an S3-compatible server means building the connector, which only the Rust crate can do''))
      else Inr ())"

text \<open>What the two constructors do with their argument before anything else that can fail.\<close>

definition nats_tls :: "'t tls_ops \<Rightarrow> 't core_tls option \<Rightarrow> string \<Rightarrow> (string, 't core_tls option) result" where
  "nats_tls ops tls described =
     (case tls_wanted (core_is_empty ops) tls of
        None \<Rightarrow> Inr None
      | Some t \<Rightarrow> rbind (nats_takes_paths ops t described) (\<lambda>_. Inr (Some t)))"

definition s3_tls :: "'t tls_ops \<Rightarrow> 't core_tls option \<Rightarrow> string \<Rightarrow> (string, 't core_tls option) result" where
  "s3_tls ops tls described =
     (case tls_wanted (core_is_empty ops) tls of
        None \<Rightarrow> Inr None
      | Some t \<Rightarrow> rbind (s3_takes_no_client_certificate ops t described) (\<lambda>_. Inr (Some t)))"

subsection \<open>The Python class\<close>

record 't tls_config =
  tc_tls :: "'t core_tls"

definition tls_config_new :: "'t tls_ops \<Rightarrow> 't tls_config" where
  "tls_config_new ops = \<lparr>tc_tls = core_tls_new ops\<rparr>"

definition tls_wrapping :: "'t core_tls \<Rightarrow> 't tls_config" where
  "tls_wrapping tls = \<lparr>tc_tls = tls\<rparr>"

definition with_ca_certificate_file :: "'t tls_ops \<Rightarrow> string \<Rightarrow> 't tls_config \<Rightarrow> 't tls_config" where
  "with_ca_certificate_file ops path self = tls_wrapping (core_with_ca_certificate_file ops path (tc_tls self))"

definition with_ca_certificate_pem :: "'t tls_ops \<Rightarrow> string \<Rightarrow> 't tls_config \<Rightarrow> 't tls_config" where
  "with_ca_certificate_pem ops pem self = tls_wrapping (core_with_ca_certificate_pem ops pem (tc_tls self))"

definition with_client_certificate_files :: "'t tls_ops \<Rightarrow> string \<Rightarrow> string \<Rightarrow> 't tls_config \<Rightarrow> 't tls_config" where
  "with_client_certificate_files ops certificate key self =
     tls_wrapping (core_with_client_certificate_files ops certificate key (tc_tls self))"

definition with_client_certificate_pem :: "'t tls_ops \<Rightarrow> string \<Rightarrow> string \<Rightarrow> 't tls_config \<Rightarrow> 't tls_config" where
  "with_client_certificate_pem ops certificate key self =
     tls_wrapping (core_with_client_certificate_pem ops certificate key (tc_tls self))"

definition tls_is_empty :: "'t tls_ops \<Rightarrow> 't tls_config \<Rightarrow> bool" where
  "tls_is_empty ops self = core_is_empty ops (tc_tls self)"

definition tls_repr :: "'t tls_ops \<Rightarrow> 't tls_config \<Rightarrow> string" where
  "tls_repr ops self = core_tls_repr ops (tc_tls self)"

subsection \<open>Chains of builder calls\<close>

datatype tls_call = Ca_file string | Ca_pem string | Client_files string string | Client_pem string string

fun tls_called :: "'t tls_ops \<Rightarrow> tls_call \<Rightarrow> 't tls_config \<Rightarrow> 't tls_config" where
  "tls_called ops (Ca_file p) = with_ca_certificate_file ops p"
| "tls_called ops (Ca_pem b) = with_ca_certificate_pem ops b"
| "tls_called ops (Client_files c k) = with_client_certificate_files ops c k"
| "tls_called ops (Client_pem c k) = with_client_certificate_pem ops c k"

definition tls_chain :: "'t tls_ops \<Rightarrow> tls_call list \<Rightarrow> 't tls_config" where
  "tls_chain ops calls = fold (tls_called ops) calls (tls_config_new ops)"

text \<open>Which calls are in force: the last of each kind.\<close>

fun is_client :: "tls_call \<Rightarrow> bool" where
  "is_client (Client_files c k) = True"
| "is_client (Client_pem c k) = True"
| "is_client _ = False"

fun by_path :: "tls_call \<Rightarrow> bool" where
  "by_path (Ca_file p) = True"
| "by_path (Client_files c k) = True"
| "by_path _ = False"

definition in_force :: "bool \<Rightarrow> tls_call list \<Rightarrow> tls_call option" where
  "in_force client calls = find (\<lambda>c. is_client c = client) (rev calls)"

fun authority_of :: "tls_call option \<Rightarrow> string option option" where
  "authority_of (Some (Ca_file p)) = Some (Some p)"
| "authority_of (Some (Ca_pem b)) = Some None"
| "authority_of _ = None"

fun client_of :: "tls_call option \<Rightarrow> (string option \<times> string option) option" where
  "client_of (Some (Client_files c k)) = Some (Some c, Some k)"
| "client_of (Some (Client_pem c k)) = Some (None, None)"
| "client_of _ = None"

lemma in_force_snoc:
  "in_force client (calls @ [c]) = (if is_client c = client then Some c else in_force client calls)"
  by (simp add: in_force_def)

lemma in_force_kind: "in_force client calls = Some c \<Longrightarrow> is_client c = client"
  unfolding in_force_def by (auto simp: find_Some_iff)

lemmas tls_defs = with_ca_certificate_file_def with_ca_certificate_pem_def with_client_certificate_files_def
  with_client_certificate_pem_def tls_wrapping_def core_with_ca_certificate_file_def core_with_ca_certificate_pem_def
  core_with_client_certificate_files_def core_with_client_certificate_pem_def

lemma chain_names_the_last:
  assumes "tls_ok ops"
  shows "to_ca ops (ct_inner (tc_tls (tls_chain ops calls))) = authority_of (in_force False calls) \<and>
    to_client ops (ct_inner (tc_tls (tls_chain ops calls))) = client_of (in_force True calls)"
proof (induction calls rule: rev_induct)
  case Nil
  with assms show ?case by (simp add: tls_chain_def tls_config_new_def core_tls_new_def in_force_def tls_ok_def)
next
  case (snoc c calls)
  have "tls_chain ops (calls @ [c]) = tls_called ops c (tls_chain ops calls)" by (simp add: tls_chain_def)
  with snoc assms show ?case by (cases c) (simp_all add: in_force_snoc tls_defs tls_ok_def)
qed

lemma nothing_in_force: "in_force client calls = None \<longleftrightarrow> (\<forall>c \<in> set calls. is_client c \<noteq> client)"
  by (auto simp: in_force_def find_None_iff)

lemma kinds_named:
  "in_force False calls = Some c \<Longrightarrow> \<exists>p. authority_of (Some c) = Some p \<and> (p = None \<longleftrightarrow> \<not> by_path c)"
  "in_force True calls = Some c \<Longrightarrow> \<exists>x y. client_of (Some c) = Some (x, y) \<and> (x = None \<or> y = None \<longleftrightarrow> \<not> by_path c)"
  using in_force_kind by (cases c; force)+

lemma chain_empty:
  assumes "tls_ok ops"
  shows "tls_is_empty ops (tls_chain ops calls) \<longleftrightarrow> calls = []"
proof -
  have "tls_is_empty ops (tls_chain ops calls) \<longleftrightarrow> in_force False calls = None \<and> in_force True calls = None"
    using assms chain_names_the_last [OF assms, of calls] kinds_named [of calls]
    by (auto simp: tls_is_empty_def core_is_empty_def tls_ok_def) (metis not_Some_eq option.distinct(1))+
  also have "\<dots> \<longleftrightarrow> calls = []" by (cases calls) (auto simp: nothing_in_force)
  finally show ?thesis .
qed

subsection \<open>Properties\<close>

definition all_by_path :: "tls_call list \<Rightarrow> bool" where
  "all_by_path calls \<longleftrightarrow> (\<forall>client. \<forall>c. in_force client calls = Some c \<longrightarrow> by_path c)"

text \<open>C39: A NATS store takes a TLS configuration exactly when every certificate that is in force was named by a
  path, and an S3 store exactly when no client certificate was named, however the configuration was
  built; what is refused is refused at construction. A configuration on which no builder was called is
  the same as none, and every other one reaches the client as it is.\<close>

theorem tls_refusals_are_exact:
  assumes "tls_ok ops"
  shows "((\<exists>t. nats_tls ops (Some (tc_tls (tls_chain ops calls))) described = Inr t) \<longleftrightarrow> all_by_path calls) \<and>
    ((\<exists>t. s3_tls ops (Some (tc_tls (tls_chain ops calls))) described = Inr t) \<longleftrightarrow>
       (\<forall>c \<in> set calls. \<not> is_client c)) \<and>
    (nats_tls ops (Some (tc_tls (tls_chain ops calls))) described = Inr t \<or>
     s3_tls ops (Some (tc_tls (tls_chain ops calls))) described = Inr t \<longrightarrow>
       t = (if calls = [] then None else Some (tc_tls (tls_chain ops calls))))"
proof -
  let ?tls = "tc_tls (tls_chain ops calls)"
  have wanted: "tls_wanted (core_is_empty ops) (Some ?tls) = (if calls = [] then None else Some ?tls)"
    using chain_empty [OF assms, of calls] by (simp add: tls_wanted_def tls_is_empty_def)
  have named: "to_ca ops (ct_inner ?tls) = authority_of (in_force False calls)"
    "to_client ops (ct_inner ?tls) = client_of (in_force True calls)"
    using chain_names_the_last [OF assms, of calls] by simp_all
  have paths: "nats_takes_paths ops ?tls described = Inr () \<longleftrightarrow> all_by_path calls"
    unfolding nats_takes_paths_def named all_by_path_def all_bool_eq
    using kinds_named [of calls] by (cases "in_force False calls"; cases "in_force True calls") (force split: option.splits)+
  have client: "s3_takes_no_client_certificate ops ?tls described = Inr () \<longleftrightarrow> (\<forall>c \<in> set calls. \<not> is_client c)"
    unfolding s3_takes_no_client_certificate_def named nothing_in_force [of True calls, simplified, symmetric]
    using kinds_named(2) [of calls] by (cases "in_force True calls") force+
  have none: "all_by_path []" by (simp add: all_by_path_def in_force_def)
  show ?thesis
  proof (cases "calls = []")
    case True
    with wanted none show ?thesis by (simp add: nats_tls_def s3_tls_def)
  next
    case False
    with wanted paths client show ?thesis by (auto simp: nats_tls_def s3_tls_def rbind_Inr_iff)
  qed
qed

text \<open>A configuration as plain data.\<close>

definition plain_tls :: "(string option option \<times> (string option \<times> string option) option) tls_ops" where
  "plain_tls =
     \<lparr>to_default = (None, None), to_ca_file = (\<lambda>p (ca, cl). (Some (Some p), cl)), to_ca_pem = (\<lambda>b (ca, cl). (Some None, cl)),
      to_client_files = (\<lambda>c k (ca, cl). (ca, Some (Some c, Some k))),
      to_client_pem = (\<lambda>c k (ca, cl). (ca, Some (None, None))), to_is_empty = (\<lambda>t. t = (None, None)),
      to_ca = fst, to_client = snd, to_debug = (\<lambda>_. ''TlsConfig''),
      to_unsupported = (\<lambda>store what advice. store @ '' does not support '' @ what @ '': '' @ advice)\<rparr>"

lemma plain_tls_ok: "tls_ok plain_tls"
  by (simp add: tls_ok_def plain_tls_def prod_eq_iff split_def)

theorem tls_refusals_are_exact_witness:
  "(\<exists>t. nats_tls plain_tls (Some (tc_tls (tls_chain plain_tls [Ca_pem ''bytes'', Ca_file ''ca.pem'']))) ''nats'' = Inr t) \<and>
   \<not> (\<exists>t. nats_tls plain_tls (Some (tc_tls (tls_chain plain_tls [Ca_file ''ca.pem'', Ca_pem ''bytes'']))) ''nats'' = Inr t) \<and>
   \<not> (\<exists>t. s3_tls plain_tls (Some (tc_tls (tls_chain plain_tls [Client_files ''c'' ''k'']))) ''s3'' = Inr t)"
proof -
  have "all_by_path [Ca_pem ''bytes'', Ca_file ''ca.pem'']" "\<not> all_by_path [Ca_file ''ca.pem'', Ca_pem ''bytes'']"
    by (simp_all add: all_by_path_def in_force_def all_bool_eq)
  moreover have "\<not> (\<forall>c \<in> set [Client_files ''c'' ''k'']. \<not> is_client c)" by simp
  ultimately show ?thesis
    using tls_refusals_are_exact [OF plain_tls_ok] by blast
qed

end
