(* ===== verification/GroupAsync.thy ===== *)
theory GroupAsync
  imports Group Telemetry
begin

section \<open>The awaited half of a group: \<open>_group.py\<close> on the event loop\<close>

text \<open>
  \<open>_each_async\<close> and the calls that await it. With a bound, the tasks of the theory \<open>Group\<close> run in any order;
  \<open>s\<close> is what they came to, and \<open>gather\<close> gives their outcomes in the order of the members. \<open>watch_async\<close>
  awaits one member after the other, and other tasks of the loop run before each: \<open>between\<close> is
  what they do to the group.
\<close>

definition run_tasks ::
  "tasks \<Rightarrow> ('c \<Rightarrow> ('e, unit) result \<times> 'c) \<Rightarrow> 'c list \<Rightarrow> ('e, unit) result \<times> 'c list" where
  "run_tasks s work cs =
     raise_first
       (concat (map (\<lambda>(i, c). if t_tasks s ! i = Raised_exn
          then (case fst (work c) of Inl e \<Rightarrow> [e] | Inr _ \<Rightarrow> []) else []) (enumerate 0 cs)),
        map (\<lambda>(i, c). if t_tasks s ! i \<in> {Returned_ok, Raised_exn} then snd (work c) else c) (enumerate 0 cs))"

definition each_async ::
  "tasks \<Rightarrow> int option \<Rightarrow> bool \<Rightarrow> ('c \<Rightarrow> ('e, unit) result \<times> 'c) \<Rightarrow> 'c list \<Rightarrow> ('e, unit) result \<times> 'c list" where
  "each_async s concurrency stop_on_failure work cs =
     (case concurrency of
        None \<Rightarrow> raise_first (each_member work stop_on_failure cs)
      | Some _ \<Rightarrow> run_tasks s work cs)"

definition member_init_async :: "nat option \<Rightarrow> ('t, 'm) member \<Rightarrow> (config_error, unit) result \<times> ('t, 'm) member" where
  "member_init_async dflt m = on_member (\<lambda>env c. config_init_async dflt env (mb_resolve m c) c) m"

definition member_reload_async :: "nat option \<Rightarrow> ('t, 'm) member \<Rightarrow> (config_error, unit) result \<times> ('t, 'm) member" where
  "member_reload_async dflt m = on_member (\<lambda>env c. config_reload_async dflt env (mb_resolve m c) c) m"

definition group_init_async ::
  "nat option \<Rightarrow> tasks \<Rightarrow> ('t, 'm) group \<Rightarrow> (config_error, unit) result \<times> ('t, 'm) group" where
  "group_init_async dflt s self =
     over_members (each_async s (g_concurrency self) True (member_init_async dflt)) self"

definition group_reload_async ::
  "nat option \<Rightarrow> tasks \<Rightarrow> ('t, 'm) group \<Rightarrow> (config_error, unit) result \<times> ('t, 'm) group" where
  "group_reload_async dflt s self =
     over_members (each_async s (g_concurrency self) False (member_reload_async dflt)) self"

text \<open>\<open>run_in_executor(None, self.reload_atomic)\<close>: the call as it is, on another thread.\<close>

definition group_reload_atomic_async :: "('t, 'm) group \<Rightarrow> (config_error, unit) result \<times> ('t, 'm) group" where
  "group_reload_atomic_async self = group_reload_atomic self"

fun watch_from ::
  "(nat \<Rightarrow> ('t, 'm) group \<Rightarrow> ('t, 'm) group) \<Rightarrow> nat option \<Rightarrow> nat list \<Rightarrow> ('t, 'm) group \<Rightarrow>
   (config_error, unit) result \<times> ('t, 'm) group" where
  "watch_from between dflt [] self = (Inr (), self)"
| "watch_from between dflt (i # is) self =
     (let self1 = between i self in
      case on_member (config_watch_async dflt) (g_members self1 ! i) of
        (Inl e, m) \<Rightarrow> (Inl e, self1\<lparr>g_members := (g_members self1)[i := m]\<rparr>)
      | (Inr w, m) \<Rightarrow>
          watch_from between dflt is
            (self1\<lparr>g_members := (g_members self1)[i := m], g_watches := g_watches self1 @ [(i, w)]\<rparr>))"

definition group_watch_async ::
  "(nat \<Rightarrow> ('t, 'm) group \<Rightarrow> ('t, 'm) group) \<Rightarrow> nat option \<Rightarrow> ('t, 'm) group \<Rightarrow>
   (config_error, unit) result \<times> ('t, 'm) group" where
  "group_watch_async between dflt self = watch_from between dflt [0..<length (g_members self)] self"

definition group_watching_async ::
  "(nat \<Rightarrow> ('t, 'm) group \<Rightarrow> ('t, 'm) group) \<Rightarrow> nat option \<Rightarrow> ('r, 't, 'm) group_body \<Rightarrow> ('r, 't, 'm) group_body" where
  "group_watching_async between dflt body self =
     (case group_watch_async between dflt self of
        (Inl e, self1) \<Rightarrow> (Inl e, self1)
      | (Inr _, self1) \<Rightarrow> (let (r, self2) = body self1 in (r, group_stop self2)))"

definition group_running_async ::
  "(nat \<Rightarrow> ('t, 'm) group \<Rightarrow> ('t, 'm) group) \<Rightarrow> nat option \<Rightarrow> tasks \<Rightarrow> bool \<Rightarrow> ('r, 't, 'm) group_body \<Rightarrow>
   ('r, 't, 'm) group_body" where
  "group_running_async between dflt s watch body self =
     (case group_init_async dflt s self of
        (Inl e, self1) \<Rightarrow> (Inl e, self1)
      | (Inr _, self1) \<Rightarrow> if watch then group_watching_async between dflt body self1 else body self1)"

text \<open>\<open>status\<close>, with a member's \<open>status()\<close> as a function; \<open>configs\<close> and iteration; the \<open>with\<close> block of \<open>watch()\<close>.\<close>

definition group_status ::
  "(('t, 'm) member \<Rightarrow> (string, config_status) result) \<Rightarrow> ('t, 'm) group \<Rightarrow>
   (string, (string, config_status) dict) result" where
  "group_status status self =
     rbind (traverse (\<lambda>m. rbind (status m) (\<lambda>x. Inr (member_key m, x))) (g_members self))
       (\<lambda>pairs. Inr (fold (\<lambda>(k, x). dict_set k x) pairs []))"

definition group_configs :: "('t, 'm) group \<Rightarrow> ('t, 'm) member list" where
  "group_configs self = g_members self"

definition group_with :: "('r, 't, 'm) group_body \<Rightarrow> ('r, 't, 'm) group_body" where
  "group_with body self = (let (r, self1) = body self in (r, group_stop self1))"

subsection \<open>Tasks end\<close>

fun task_weight :: "task \<Rightarrow> nat" where
  "task_weight Created = 3"
| "task_weight Waiting = 2"
| "task_weight Awaiting = 1"
| "task_weight t = 0"

definition tasks_measure :: "tasks \<Rightarrow> nat" where
  "tasks_measure s = sum_list (map task_weight (t_tasks s))"

lemma tasks_step_decreases: "tasks_step stop raises s s' \<Longrightarrow> tasks_measure s' < tasks_measure s"
proof (induction rule: tasks_step.induct)
  case (ts_looks i s)
  then show ?case
    using sum_list_map_update [of i "t_tasks s" task_weight Skipped] sum_list_map_update [of i "t_tasks s" task_weight Waiting]
    by (simp add: tasks_measure_def task_looks_def)
next
  case (ts_acquires i s)
  then show ?case
    using sum_list_map_update [of i "t_tasks s" task_weight Awaiting] by (simp add: tasks_measure_def task_acquires_def)
next
  case (ts_ends i s)
  then show ?case
    using sum_list_map_update [of i "t_tasks s" task_weight Raised_exn] sum_list_map_update [of i "t_tasks s" task_weight Returned_ok]
    by (simp add: tasks_measure_def task_ends_def)
qed

lemma tasks_steps_bounded: "(tasks_step stop raises ^^ n) s s' \<Longrightarrow> n + tasks_measure s' \<le> tasks_measure s"
proof (induction n arbitrary: s')
  case (Suc n)
  then obtain t where "(tasks_step stop raises ^^ n) s t" "tasks_step stop raises t s'" by auto
  with Suc.IH [of t] tasks_step_decreases [of stop raises t s'] show ?case by linarith
qed simp

definition tasks_inv :: "(nat \<Rightarrow> bool) \<Rightarrow> nat \<Rightarrow> tasks \<Rightarrow> bool" where
  "tasks_inv raises n s \<longleftrightarrow> length (t_tasks s) = n \<and>
     (\<forall>i < n. t_tasks s ! i \<noteq> Skipped \<and> (t_tasks s ! i = Returned_ok \<longrightarrow> \<not> raises i) \<and>
       (t_tasks s ! i = Raised_exn \<longrightarrow> raises i))"

lemma tasks_inv_step: "tasks_step False raises s s' \<Longrightarrow> tasks_inv raises n s \<Longrightarrow> tasks_inv raises n s'"
  by (induction rule: tasks_step.induct)
    (auto simp: tasks_inv_def task_looks_def task_acquires_def task_ends_def nth_list_update)

lemma tasks_reach:
  assumes "(tasks_step False raises ^^ n) (tasks_new k c) s"
  shows "tasks_inv raises k s \<and> t_permits s + awaiting s = c"
  using assms
proof (induction n arbitrary: s)
  case 0
  then show ?case by (auto simp: tasks_inv_def tasks_new_def awaiting_def)
next
  case (Suc n)
  then obtain t where "(tasks_step False raises ^^ n) (tasks_new k c) t" "tasks_step False raises t s" by auto
  with Suc.IH [of t] tasks_inv_step tasks_step_permits show ?case by metis
qed

text \<open>While a task is not done, some task can go on.\<close>

lemma tasks_progress:
  assumes "tasks_inv raises k s" "t_permits s + awaiting s = c" "1 \<le> c" "\<not> (\<exists>s'. tasks_step False raises s s')" "i < k"
  shows "t_tasks s ! i = (if raises i then Raised_exn else Returned_ok)"
proof -
  have len: "length (t_tasks s) = k" using assms(1) by (simp add: tasks_inv_def)
  have none: "t_tasks s ! j \<noteq> Awaiting" "t_tasks s ! j \<noteq> Created" if "j < k" for j
    using that len assms(4) ts_ends [of j s False raises] ts_looks [of j s False raises] by auto
  then have "awaiting s = 0" using len by (auto simp: awaiting_def filter_empty_conv in_set_conv_nth)
  then have "t_tasks s ! i \<noteq> Waiting" using assms(2-5) len ts_acquires [of i s False raises] by auto
  with none [OF assms(5)] assms(1,5) show ?thesis by (cases "t_tasks s ! i") (auto simp: tasks_inv_def)
qed

lemma map_enumerate_index:
  "map (\<lambda>(i, c). f i c) (enumerate 0 cs) = map (\<lambda>i. f i (cs ! i)) [0..<length cs]"
  by (rule nth_equalityI) (simp_all add: enumerate_eq_zip)

lemma all_done_runs_all:
  assumes "\<And>i. i < length cs \<Longrightarrow> t_tasks s ! i = (if refuses work (cs ! i) then Raised_exn else Returned_ok)"
  shows "run_tasks s work cs = raise_first (each_member work False cs)"
proof -
  have "map (\<lambda>(i, c). if t_tasks s ! i = Raised_exn
      then (case fst (work c) of Inl e \<Rightarrow> [e] | Inr _ \<Rightarrow> []) else []) (enumerate 0 cs) =
    map (\<lambda>c. case fst (work c) of Inl e \<Rightarrow> [e] | Inr _ \<Rightarrow> []) cs"
    unfolding map_enumerate_index using assms
    by (auto intro!: nth_equalityI simp: refuses_def split: sum.splits)
  moreover have "map (\<lambda>(i, c). if t_tasks s ! i \<in> {Returned_ok, Raised_exn} then snd (work c) else c) (enumerate 0 cs) =
      map (\<lambda>c. snd (work c)) cs"
    unfolding map_enumerate_index using assms by (auto intro!: nth_equalityI)
  ultimately show ?thesis by (simp only: run_tasks_def each_member_all)
qed

subsection \<open>Properties\<close>

text \<open>C40: \<open>reload_async()\<close> with a bound does what the plain loop over the members does, whatever the order its
  tasks run in: every schedule ends after three steps per member at most, no task waits for ever, and in
  the end every member has had its reload and the exception raised is the one of the first member
  that refused, in the group's order.\<close>

theorem bounded_reload_is_the_plain_loop:
  assumes "g_concurrency self = Some c" "1 \<le> c"
    "(tasks_step False (\<lambda>i. refuses (member_reload_async dflt) (g_members self ! i)) ^^ n)
       (tasks_new (length (g_members self)) (nat c)) s"
  shows "n \<le> 3 * length (g_members self) \<and>
    ((\<exists>s'. tasks_step False (\<lambda>i. refuses (member_reload_async dflt) (g_members self ! i)) s s') \<or>
     fst (group_reload_async dflt s self) = fst (group_reload_async dflt s (self\<lparr>g_concurrency := None\<rparr>)) \<and>
     g_members (snd (group_reload_async dflt s self)) =
       map (\<lambda>m. snd (member_reload_async dflt m)) (g_members self))"
proof -
  let ?work = "member_reload_async dflt" and ?cs = "g_members self"
  have "tasks_measure (tasks_new (length ?cs) (nat c)) = 3 * length ?cs"
    by (simp add: tasks_measure_def tasks_new_def map_replicate_const sum_list_replicate)
  with tasks_steps_bounded [OF assms(3)] have "n \<le> 3 * length ?cs" by linarith
  moreover have "run_tasks s ?work ?cs = raise_first (each_member ?work False ?cs)"
    if "\<not> (\<exists>s'. tasks_step False (\<lambda>i. refuses ?work (?cs ! i)) s s')"
  proof (rule all_done_runs_all)
    show "t_tasks s ! i = (if refuses ?work (?cs ! i) then Raised_exn else Returned_ok)" if "i < length ?cs" for i
      using tasks_progress [OF tasks_reach [OF assms(3), THEN conjunct1] tasks_reach [OF assms(3), THEN conjunct2]]
        assms(2) \<open>\<not> (\<exists>s'. tasks_step False (\<lambda>i. refuses ?work (?cs ! i)) s s')\<close> that by simp
  qed
  ultimately show ?thesis using assms(1)
    by (auto simp: group_reload_async_def over_members_def each_async_def raise_first_def each_member_all split_def Let_def)
qed

subsection \<open>At concrete inputs\<close>

definition two_members :: "(nat, nat) group" where
  "two_members = \<lparr>g_members = [sample_member (Inr 7), sample_member (Inr 8)], g_concurrency = Some 1, g_watches = []\<rparr>"

theorem bounded_reload_is_the_plain_loop_witness:
  "let s = task_ends False False 0 (task_acquires 0 (task_looks False 0 (tasks_new 2 1))) in
   (\<exists>s'. tasks_step False (\<lambda>i. refuses (member_reload_async None) (g_members two_members ! i)) s s') \<or>
   fst (group_reload_async None s two_members) =
     fst (group_reload_async None s (two_members\<lparr>g_concurrency := None\<rparr>))"
proof -
  let ?R = "tasks_step False (\<lambda>i. refuses (member_reload_async None) (g_members two_members ! i))"
  let ?s1 = "task_looks False 0 (tasks_new 2 1)"
  let ?s2 = "task_acquires 0 ?s1"
  note defs = tasks_new_def task_looks_def task_acquires_def task_ends_def numeral_2_eq_2
  have ok: "\<not> refuses (member_reload_async None) (g_members two_members ! 0)"
    by (simp add: refuses_def two_members_def member_reload_async_def on_member_def sample_member_def
        config_reload_async_def in_executor_def config_evals split_def Let_def)
  have 1: "?R (tasks_new 2 1) ?s1" by (rule ts_looks) (simp_all add: defs)
  have 2: "?R ?s1 ?s2" by (rule ts_acquires) (simp_all add: defs)
  have 3: "?R ?s2 (task_ends False False 0 ?s2)"
    using ts_ends [of 0 ?s2 False "\<lambda>i. refuses (member_reload_async None) (g_members two_members ! i)"] ok
    by (simp add: defs)
  have "(?R ^^ Suc (Suc (Suc 0))) (tasks_new 2 1) (task_ends False False 0 ?s2)"
    using 1 2 3 by auto
  then have steps: "(?R ^^ Suc (Suc (Suc 0))) (tasks_new (length (g_members two_members)) (nat 1)) (task_ends False False 0 ?s2)"
    by (simp only: two_members_def group.select_convs list.size nat_one_as_int [symmetric]) (simp add: numeral_2_eq_2)
  have bound: "g_concurrency two_members = Some 1" by (simp add: two_members_def)
  from bounded_reload_is_the_plain_loop [OF bound order.refl steps] show ?thesis unfolding Let_def by blast
qed

subsection \<open>Between the members of \<open>watch_async\<close>\<close>

text \<open>With nothing else on the loop, the watchers of every member are running and the group knows them; a
  \<open>stop()\<close> that another task calls between two members stops the ones started so far, and the ones
  started afterwards run on in a group that was stopped.\<close>

lemma watch_async_starts_all:
  "let (r, g) = group_watch_async (\<lambda>_ g. g) None two_members in
   r = Inr () \<and> g_watches g = [(0, 0), (1, 0)] \<and> map (\<lambda>m. c_watches (mb_config m)) (g_members g) = [[Watching], [Watching]]"
proof -
  have w: "c_watches sample_config = []" by (simp add: config_evals)
  show ?thesis
    by (simp add: group_watch_async_def two_members_def upt_rec on_member_def config_watch_async_def in_executor_def
        config_watch_def sample_member_def sample_env_def w Let_def)
qed

lemma stop_between_members_is_forgotten:
  "let (r, g) = group_watch_async (\<lambda>i g. if i = 1 then group_stop g else g) None two_members in
   r = Inr () \<and> g_watches g = [(1, 0)] \<and> c_watches (mb_config (g_members g ! 1)) = [Watching] \<and>
   c_watches (mb_config (g_members g ! 0)) \<noteq> [Watching]"
proof -
  have w: "c_watches sample_config = []" by (simp add: config_evals)
  show ?thesis
    by (simp add: group_watch_async_def two_members_def upt_rec on_member_def config_watch_async_def in_executor_def
        config_watch_def sample_member_def sample_env_def w Let_def group_stop_def stop_one_def stop_watch_def
        watch_stop_def)
qed

end
