(* ===== verification/Asking.thy ===== *)
theory Asking
  imports Complex_Main Config Convert
begin

section \<open>Asking a configuration: the diagnostics from the engine to Python\<close>

text \<open>
  \<open>errors.rs\<close>, the diagnostics and the small accessors of \<open>config/mod.rs\<close>, \<open>handles.rs\<close>, and the
  methods of \<open>_config.py\<close> and \<open>_diagnostics.py\<close> that wrap them. The engine crate computes its
  answers from what the builder was told and from the world outside: they are the functions of
  the record \<open>reads\<close>. An engine's error, origin, explanation and report are records with the
  fields the code reads.
\<close>

subsection \<open>Errors: \<open>errors.rs\<close>\<close>

text \<open>Both enumerations of the engine may grow: \<open>Kind_newer\<close> and \<open>From_newer\<close> are the wildcards.\<close>

datatype error_kind =
    Kind_io | Kind_parse | Kind_missing | Kind_type | Kind_env | Kind_invalid | Kind_remote
  | Kind_auth | Kind_absent | Kind_decrypt | Kind_backend | Kind_newer

datatype place =
    From_file string
  | From_env string
  | From_inline
  | From_remote string
  | From_runtime string
  | From_unknown
  | From_newer

text \<open>\<open>er_text\<close> is the error's \<open>Display\<close> and \<open>er_name\<close> its kind's \<open>as_str\<close>.\<close>

record engine_error =
  er_kind :: error_kind
  er_name :: string
  er_text :: string
  er_path :: string
  er_origin :: place

definition class_for :: "error_kind \<Rightarrow> string" where
  "class_for kind =
     (case kind of
        Kind_io \<Rightarrow> ''IoError'' | Kind_parse \<Rightarrow> ''ParseError'' | Kind_missing \<Rightarrow> ''MissingError''
      | Kind_type \<Rightarrow> ''TypeMismatchError'' | Kind_env \<Rightarrow> ''EnvError'' | Kind_invalid \<Rightarrow> ''InvalidError''
      | Kind_remote \<Rightarrow> ''RemoteError'' | Kind_auth \<Rightarrow> ''AuthError'' | Kind_absent \<Rightarrow> ''AbsentError''
      | Kind_decrypt \<Rightarrow> ''DecryptError'' | Kind_backend \<Rightarrow> ''BackendError''
      | Kind_newer \<Rightarrow> ''DynamicConfigError'')"

definition origin_parts :: "place \<Rightarrow> string \<times> string option" where
  "origin_parts origin =
     (case origin of
        From_file path \<Rightarrow> (''file'', Some path)
      | From_env name \<Rightarrow> (''env'', Some name)
      | From_inline \<Rightarrow> (''inline'', None)
      | From_remote store \<Rightarrow> (''remote'', Some store)
      | From_runtime layer \<Rightarrow> (''runtime'', Some layer)
      | From_unknown \<Rightarrow> (''unknown'', None)
      | From_newer \<Rightarrow> (''unknown'', None))"

text \<open>The Python exception: its class, its one argument and the attributes set on it; \<open>errors\<close>
  is there after a refusal only.\<close>

record exn =
  xn_class :: string
  xn_text :: string
  xn_kind :: string
  xn_path :: string
  xn_origin_kind :: string
  xn_origin :: "string option"
  xn_errors :: "string list option"

definition to_py_err :: "engine_error \<Rightarrow> exn" where
  "to_py_err e =
     \<lparr>xn_class = class_for (er_kind e), xn_text = er_text e, xn_kind = er_name e,
      xn_path = er_path e, xn_origin_kind = fst (origin_parts (er_origin e)),
      xn_origin = snd (origin_parts (er_origin e)), xn_errors = None\<rparr>"

text \<open>\<open>Config.raise\<close>, with the report that was kept.\<close>

definition raise_with :: "string list option \<Rightarrow> engine_error \<Rightarrow> exn" where
  "raise_with reports e =
     (if er_kind e = Kind_invalid
      then (to_py_err e)\<lparr>xn_errors := Some (case reports of Some r \<Rightarrow> r | None \<Rightarrow> [])\<rparr>
      else to_py_err e)"

text \<open>\<open>except cls\<close>: every class derives from the one base.\<close>

definition caught_by :: "string \<Rightarrow> exn \<Rightarrow> bool" where
  "caught_by cls x \<longleftrightarrow> cls = ''DynamicConfigError'' \<or> cls = xn_class x"

lemma class_for_inject: "class_for k = class_for k' \<longleftrightarrow> k = k'"
  by (cases k; cases k') (simp_all add: class_for_def)

lemma caught_by_kind:
  "caught_by (class_for kind) (raise_with reports e) \<longleftrightarrow> kind = Kind_newer \<or> kind = er_kind e"
  by (cases kind) (auto simp: caught_by_def raise_with_def to_py_err_def class_for_inject,
      auto simp: class_for_def split: error_kind.splits)

text \<open>The error the state machine of the core carries, and the exception it stands for.\<close>

definition core_error_of :: "engine_error \<Rightarrow> core_error" where
  "core_error_of e = EngineError (er_name e) (er_text e)"

subsection \<open>What the engine is told and what it answers\<close>

text \<open>What the builder has been told: the sources and the four layers, with the environment's
  bindings and the aliases. No operation but the ones that declare changes it.\<close>

record 't told =
  td_key :: string
  td_secrets :: "string list option"
  td_fields :: "string list"
  td_sources :: "source list"
  td_defaults :: "(string \<times> 't) list"
  td_overrides :: "(string \<times> 't) list"
  td_flags :: "string list"
  td_bindings :: "(string \<times> string) list"
  td_aliases :: "(string \<times> string) list"

definition engine_sources :: "'t engine \<Rightarrow> source list" where
  "engine_sources e = (case e of Building srcs \<Rightarrow> srcs | Ready srcs _ \<Rightarrow> srcs)"

definition told_of :: "('t, 'm, 'h) core \<Rightarrow> 't told" where
  "told_of k =
     \<lparr>td_key = k_key k, td_secrets = k_secrets k, td_fields = k_fields k,
      td_sources = engine_sources (k_engine k), td_defaults = k_defaults k,
      td_overrides = k_overrides k, td_flags = k_flags k, td_bindings = k_bindings k,
      td_aliases = k_aliases k\<rparr>"

text \<open>\<open>en_winner\<close> is the layer of the winning row.\<close>

record engine_row =
  er_layer :: string
  er_value :: "string option"
  er_place :: "place option"

record engine_explanation =
  en_path :: string
  en_rows :: "engine_row list"
  en_winner :: "string option"
  en_rendered :: string

record engine_report =
  eo_key :: string
  eo_resolved :: "(string \<times> place) list"
  eo_unknown :: "(string \<times> string option) list"
  eo_unknown_checked :: bool
  eo_failure :: "string option"

type_synonym 'a outcome = "(engine_error, 'a) result"

record ('t, 's) reads =
  rd_source_of :: "'t told \<Rightarrow> string \<Rightarrow> place option outcome"
  rd_is_set :: "'t told \<Rightarrow> string \<Rightarrow> bool outcome"
  rd_explain :: "'t told \<Rightarrow> string \<Rightarrow> engine_explanation outcome"
  rd_check :: "'t told \<Rightarrow> engine_report outcome"
  rd_snapshot :: "'t told \<Rightarrow> 's outcome"
  rd_fingerprint :: "string list option \<Rightarrow> 't \<Rightarrow> string"

subsection \<open>The native diagnostics\<close>

text \<open>Each clones the engine out, asks its builder with the interpreter released, and translates;
  the error path is \<open>Config.raise\<close>.\<close>

definition core_question ::
  "('a \<Rightarrow> 'b) \<Rightarrow> 'a outcome \<Rightarrow> ('t, 'm, 'h) core \<Rightarrow> ('b, 't, 'm, 'h) answer" where
  "core_question translate outcome k = core_ask (map_sum core_error_of translate outcome) k"

definition core_source_of ::
  "('t, 's) reads \<Rightarrow> string \<Rightarrow> ('t, 'm, 'h) core \<Rightarrow> ((string \<times> string option) option, 't, 'm, 'h) answer" where
  "core_source_of reads path k = core_question (map_option origin_parts) (rd_source_of reads (told_of k) path) k"

definition core_is_set ::
  "('t, 's) reads \<Rightarrow> string \<Rightarrow> ('t, 'm, 'h) core \<Rightarrow> (bool, 't, 'm, 'h) answer" where
  "core_is_set reads path k = core_question id (rd_is_set reads (told_of k) path) k"

definition row_dict :: "engine_row \<Rightarrow> raw_row" where
  "row_dict row =
     (case er_place row of
        Some origin \<Rightarrow> \<lparr>rr_layer = er_layer row, rr_value = er_value row,
          rr_origin_kind = Some (fst (origin_parts origin)), rr_origin = snd (origin_parts origin)\<rparr>
      | None \<Rightarrow> \<lparr>rr_layer = er_layer row, rr_value = er_value row, rr_origin_kind = None, rr_origin = None\<rparr>)"

definition explanation_dict :: "engine_explanation \<Rightarrow> raw_explanation" where
  "explanation_dict x =
     \<lparr>re_raw_path = en_path x, re_raw_rows = map row_dict (en_rows x),
      re_raw_winner = en_winner x, re_raw_rendered = en_rendered x\<rparr>"

definition core_explain ::
  "('t, 's) reads \<Rightarrow> string \<Rightarrow> ('t, 'm, 'h) core \<Rightarrow> (raw_explanation, 't, 'm, 'h) answer" where
  "core_explain reads path k = core_question explanation_dict (rd_explain reads (told_of k) path) k"

text \<open>The key \<open>is_clean\<close> of the dictionary is left out: Python computes its own.\<close>

definition report_dict :: "engine_report \<Rightarrow> raw_report" where
  "report_dict r =
     \<lparr>rw_key = eo_key r,
      rw_resolved = map (\<lambda>(path, origin). (path, origin_parts origin)) (eo_resolved r),
      rw_unknown = eo_unknown r, rw_failure = eo_failure r,
      rw_unknown_checked = eo_unknown_checked r\<rparr>"

definition core_check ::
  "('t, 's) reads \<Rightarrow> ('t, 'm, 'h) core \<Rightarrow> (raw_report, 't, 'm, 'h) answer" where
  "core_check reads k = core_question report_dict (rd_check reads (told_of k)) k"

definition core_snapshot ::
  "('t, 's) reads \<Rightarrow> ('t, 'm, 'h) core \<Rightarrow> ('s, 't, 'm, 'h) answer" where
  "core_snapshot reads k = core_question id (rd_snapshot reads (told_of k)) k"

definition core_fingerprint ::
  "('t, 's) reads \<Rightarrow> ('t, 'm, 'h) core \<Rightarrow> (string option, 't, 'm, 'h) answer" where
  "core_fingerprint reads k =
     (Inr (map_option (rd_fingerprint reads (k_secrets k)) (engine_current (core_dynamic k))), core_dynamic k, [])"

text \<open>The accessors that ask no engine.\<close>

definition core_current :: "('t, 'm, 'h) core \<Rightarrow> 'm option" where
  "core_current k = k_cache k"

definition core_generation :: "('t, 'm, 'h) core \<Rightarrow> nat" where
  "core_generation k = k_generation k"

definition core_refusals :: "('t, 'm, 'h) core \<Rightarrow> nat" where
  "core_refusals k = k_refusals k"

text \<open>\<open>{:?}\<close> of a key without quotes, backslashes and control characters.\<close>

definition core_repr :: "('t, 'm, 'h) core \<Rightarrow> string" where
  "core_repr k = ''<dynamic_config.Config key='' @ [CHR 0x22] @ k_key k @ [CHR 0x22] @
     '' generation='' @ str_of_nat (core_generation k) @ ''>''"

subsection \<open>The methods of \<open>DynamicConfig\<close>\<close>

type_synonym ('b, 't, 'm) asking =
  "('t, 'm) env \<Rightarrow> ('t, 'm) config \<Rightarrow> (config_error, 'b) result \<times> ('t, 'm) config"

definition ask_core ::
  "('a \<Rightarrow> 'b) \<Rightarrow> (('t, 'm, pyhook) core \<Rightarrow> ('a, 't, 'm, pyhook) answer) \<Rightarrow> ('b, 't, 'm) asking" where
  "ask_core wrap op env self = (let (r, self1) = run_core env op self in (map_sum id wrap r, self1))"

definition dynamic_source_of :: "('t, 's) reads \<Rightarrow> string \<Rightarrow> (origin option, 't, 'm) asking" where
  "dynamic_source_of reads path = ask_core config_source_of (core_source_of reads path)"

definition dynamic_is_set :: "('t, 's) reads \<Rightarrow> string \<Rightarrow> (bool, 't, 'm) asking" where
  "dynamic_is_set reads path = ask_core id (core_is_set reads path)"

definition dynamic_explain :: "('t, 's) reads \<Rightarrow> string \<Rightarrow> (explanation, 't, 'm) asking" where
  "dynamic_explain reads path = ask_core config_explain (core_explain reads path)"

definition dynamic_check :: "('t, 's) reads \<Rightarrow> (report, 't, 'm) asking" where
  "dynamic_check reads = ask_core config_check (core_check reads)"

definition dynamic_snapshot :: "('t, 's) reads \<Rightarrow> ('s, 't, 'm) asking" where
  "dynamic_snapshot reads = ask_core id (core_snapshot reads)"

definition dynamic_fingerprint :: "('t, 's) reads \<Rightarrow> (string option, 't, 'm) asking" where
  "dynamic_fingerprint reads = ask_core id (core_fingerprint reads)"

subsection \<open>What was told changes only by telling\<close>

lemma told_of_updates [simp]:
  "told_of (k\<lparr>k_staged := p\<rparr>) = told_of k"
  "told_of (k\<lparr>k_next_sequence := n\<rparr>) = told_of k"
  "told_of (k\<lparr>k_last_committed := n\<rparr>) = told_of k"
  "told_of (k\<lparr>k_reports := r\<rparr>) = told_of k"
  "told_of (k\<lparr>k_cache := c\<rparr>) = told_of k"
  "told_of (k\<lparr>k_generation := n\<rparr>) = told_of k"
  "told_of (k\<lparr>k_refusals := n\<rparr>) = told_of k"
  "told_of (k\<lparr>k_closed := b\<rparr>) = told_of k"
  "told_of (k\<lparr>k_hooks := hs\<rparr>) = told_of k"
  "told_of (k\<lparr>k_next_hook := n\<rparr>) = told_of k"
  "told_of (k\<lparr>k_prepared := ps\<rparr>) = told_of k"
  "told_of (k\<lparr>k_next_prepared := n\<rparr>) = told_of k"
  by (simp_all add: told_of_def)

lemma told_of_dynamic [simp]: "told_of (core_dynamic k) = told_of k"
  by (simp add: told_of_def core_dynamic_def engine_sources_def split: engine.split)

lemma told_of_pieces [simp]:
  "told_of (snd (core_validate w tree k)) = told_of k"
  "told_of (after (core_publish m k)) = told_of k"
  "told_of (claim p k) = told_of k"
  "told_of (snd (core_raise e k)) = told_of k"
  "told_of (drop_prepared token k) = told_of k"
  by (simp_all add: core_validate_def core_publish_def claim_def core_raise_def drop_prepared_def
      split: sum.split prod.split core_error.split)

lemma told_of_commit [simp]: "told_of (after (inner_commit w tree k)) = told_of k"
  using told_of_pieces(1) [of w tree k]
  by (auto simp: inner_commit_def core_publish_staged_def simp del: told_of_pieces(1)
      split: option.split sum.split prod.split)

lemma told_of_ready:
  "k_engine k = Ready srcs u \<Longrightarrow> told_of (k\<lparr>k_engine := Ready srcs t\<rparr>) = told_of k"
  by (simp add: told_of_def engine_sources_def)

lemma told_of_install [simp]:
  "told_of (fst (engine_install w tree k)) = told_of k"
  "told_of (after (publish_current w k)) = told_of k"
  by (simp_all add: engine_install_def publish_current_def Let_def told_of_ready
      split: engine.split option.split)

lemma told_of_load [simp]: "told_of (snd (engine_load w op res k)) = told_of k"
  using told_of_pieces(1) [of w _ k]
  by (auto simp: engine_load_def Let_def simp del: told_of_pieces(1) split: sum.split prod.split)
    (metis snd_conv)+

lemma told_of_installed [simp]: "told_of (after (install_and_publish w tree k)) = told_of k"
  by (simp add: install_and_publish_eq Let_def)

lemma told_of_raised [simp]: "told_of (after (raised e k)) = told_of k"
  by (simp add: raised_def)

lemma told_of_loaded: "told_of (after (load_then_install w op res k)) = told_of k"
  using told_of_load [of w op res "core_dynamic k"]
  by (cases "engine_load w op res (core_dynamic k)")
    (auto simp: load_then_install_def raised_def simp del: told_of_load split: sum.split)

lemma told_of_ask [simp]: "told_of (after (core_ask outcome k)) = told_of k"
  by (cases outcome) (simp_all add: core_ask_def raised_def)

text \<open>The operations a running program makes, between its declarations.\<close>

inductive running_step ::
  "('t, 'm) world \<Rightarrow> ('t, 'm, 'h) core \<Rightarrow> ('t, 'm, 'h) core \<Rightarrow> bool" for w where
  run_init: "running_step w k (after (core_init w res k))"
| run_reload: "running_step w k (after (core_reload w res k))"
| run_load: "running_step w k (after (core_load w res k))"
| run_prepare: "running_step w k (after (core_prepare w res k))"
| run_commit: "running_step w k (after (core_commit w token k))"
| run_discard: "running_step w k (core_discard token k)"
| run_replace: "running_step w k (after (core_replace m k))"
| run_watcher: "running_step w k (after (core_watch_reload w res k))"
| run_on_reload: "running_step w k (snd (core_on_reload h k))"
| run_remove_hook: "running_step w k (snd (core_remove_hook token k))"
| run_ask: "running_step w k (after (core_ask (outcome :: (core_error, unit) result) k))"
| run_release: "running_step w k (core_release k)"

lemma running_step_told: "running_step w k k' \<Longrightarrow> told_of k' = told_of k"
proof (induction rule: running_step.induct)
  case (run_load k res)
  show ?case using core_load_after [of w res k] by (auto simp: Let_def)
next
  case (run_prepare k res)
  show ?case
    using told_of_load [of w Op_prepare res "core_dynamic k"]
    by (cases "engine_load w Op_prepare res (core_dynamic k)")
      (auto simp: core_prepare_def raised_def simp del: told_of_load split: sum.split)
next
  case (run_watcher k res)
  show ?case
    using told_of_load [of w Op_watch res "core_dynamic k"]
    by (cases "engine_load w Op_watch res (core_dynamic k)")
      (auto simp: core_watch_reload_def simp del: told_of_load split: sum.split)
qed (simp_all add: core_init_def core_reload_def told_of_loaded core_commit_def core_discard_def
      core_replace_def core_on_reload_def core_remove_hook_def core_release_def Let_def split: option.split)

text \<open>Any number of them, and what the questions answer meanwhile. A refusal is the engine's own
  error; only the report attached to it depends on what happened.\<close>

inductive running :: "('t, 'm) world \<Rightarrow> ('t, 'm, 'h) core \<Rightarrow> ('t, 'm, 'h) core \<Rightarrow> bool" for w where
  running_refl: "running w k k"
| running_more: "running w k k1 \<Longrightarrow> running_step w k1 k2 \<Longrightarrow> running w k k2"

lemma running_told: "running w k k' \<Longrightarrow> told_of k' = told_of k"
  by (induction rule: running.induct) (simp_all add: running_step_told)

definition without_report :: "(core_error, 'a) result \<Rightarrow> (core_error, 'a) result" where
  "without_report r = map_sum (\<lambda>e. case e of InvalidError m _ \<Rightarrow> EngineError ''invalid'' m | _ \<Rightarrow> e) id r"

lemma answer_of_question:
  "without_report (answer_of (core_question translate outcome k)) = map_sum core_error_of translate outcome"
  by (cases outcome)
    (auto simp: core_question_def core_ask_def raised_def core_raise_def without_report_def core_error_of_def)

lemma core_question_state:
  "after (core_question translate outcome k) \<in> {core_dynamic k, (core_dynamic k)\<lparr>k_reports := None\<rparr>}"
  by (cases outcome)
    (simp_all add: core_question_def core_ask_def raised_def core_raise_def split: core_error.split)

lemma core_question_after:
  "calls_of (core_question translate outcome k) = []"
  "k_engine (after (core_question translate outcome k)) = k_engine (core_dynamic k)"
  "k_cache (after (core_question translate outcome k)) = k_cache k"
  "k_generation (after (core_question translate outcome k)) = k_generation k"
  "k_refusals (after (core_question translate outcome k)) = k_refusals k"
  "k_staged (after (core_question translate outcome k)) = k_staged k"
  "k_hooks (after (core_question translate outcome k)) = k_hooks k"
  "k_prepared (after (core_question translate outcome k)) = k_prepared k"
  "told_of (after (core_question translate outcome k)) = told_of k"
  using core_question_state [of translate outcome k]
  by (auto simp: core_question_def core_ask_def raised_def split: sum.split)

lemmas question_defs = core_source_of_def core_is_set_def core_explain_def core_check_def core_snapshot_def

text \<open>What a diagnostic of \<open>DynamicConfig\<close> leaves behind.\<close>

definition undisturbed :: "('t, 'm) config \<Rightarrow> ('t, 'm) config \<Rightarrow> bool" where
  "undisturbed c c' \<longleftrightarrow>
     config_try_current c' = config_try_current c \<and> config_generation c' = config_generation c \<and>
     c_log c' = c_log c \<and> c_overrides c' = c_overrides c \<and> c_watches c' = c_watches c \<and>
     k_hooks (c_core c') = k_hooks (c_core c) \<and> k_refusals (c_core c') = k_refusals (c_core c) \<and>
     k_staged (c_core c') = k_staged (c_core c) \<and> told_of (c_core c') = told_of (c_core c)"

definition sources_fixed :: "('t, 'm) config \<Rightarrow> bool" where
  "sources_fixed c \<longleftrightarrow> (case k_engine (c_core c) of Building _ \<Rightarrow> False | Ready _ _ \<Rightarrow> True)"

lemma sources_fixed_refuses:
  "sources_fixed c \<Longrightarrow> \<exists>message. config_source src c = (Inl (CoreExn (BackendError message)), c)"
  by (auto simp: sources_fixed_def config_source_def core_configure_def Let_def split: engine.splits)

lemma ask_core_question:
  fixes k :: "('t, 'm, pyhook) core"
  assumes "\<And>k. op k = core_question translate (outcome (told_of k)) (k :: ('t, 'm, pyhook) core)"
  shows "undisturbed c (snd (ask_core wrap op env c)) \<and> sources_fixed (snd (ask_core wrap op env c))"
  by (simp add: ask_core_def split_def run_core_def Let_def assms core_question_after undisturbed_def
      sources_fixed_def config_try_current_def config_generation_def core_dynamic_def split: engine.split)

lemma ask_core_answer:
  "fst (ask_core wrap op env c) =
     (case answer_of (op (c_core c)) of Inl e \<Rightarrow> Inl (CoreExn e) | Inr x \<Rightarrow> Inr (wrap x))"
  by (simp add: ask_core_def split_def run_core_def Let_def split: sum.split)

subsection \<open>Nothing of an answer is lost on the way\<close>

text \<open>An origin this binding predates reads as unknown.\<close>

fun place_known :: "place \<Rightarrow> place" where
  "place_known From_newer = From_unknown"
| "place_known p = p"

lemma origin_parts_inject: "origin_parts p = origin_parts q \<longleftrightarrow> place_known p = place_known q"
  by (cases p; cases q) (simp_all add: origin_parts_def)

text \<open>A detail is there whenever the rendering shows one.\<close>

lemma origin_str_of_place:
  "map_option origin_str (config_source_of (Some (origin_parts p))) =
     Some (case p of
        From_file f \<Rightarrow> ''in '' @ f
      | From_env v \<Rightarrow> ''from '' @ v
      | From_inline \<Rightarrow> ''in an inline source''
      | From_remote store \<Rightarrow> ''from the remote store '' @ store
      | From_runtime layer \<Rightarrow> ''set at runtime ('' @ layer @ '')''
      | _ \<Rightarrow> ''from an unknown source'')"
  by (cases p) (simp_all add: config_source_of_def origin_of_def origin_parts_def origin_str_def str_opt_def)

definition row_known :: "engine_row \<Rightarrow> engine_row" where
  "row_known row = row\<lparr>er_place := map_option place_known (er_place row)\<rparr>"

definition explanation_known :: "engine_explanation \<Rightarrow> engine_explanation" where
  "explanation_known x = x\<lparr>en_rows := map row_known (en_rows x)\<rparr>"

definition report_known :: "engine_report \<Rightarrow> engine_report" where
  "report_known r = r\<lparr>eo_resolved := map (\<lambda>(path, origin). (path, place_known origin)) (eo_resolved r)\<rparr>"

definition contribution_of :: "raw_row \<Rightarrow> contribution" where
  "contribution_of row = \<lparr>co_layer = rr_layer row, co_value = rr_value row,
     co_origin = origin_of (case rr_origin_kind row of None \<Rightarrow> None | Some kind \<Rightarrow> Some (kind, rr_origin row))\<rparr>"

lemma contribution_of_row:
  "contribution_of (row_dict row) = \<lparr>co_layer = er_layer row, co_value = er_value row,
     co_origin = origin_of (map_option origin_parts (er_place row))\<rparr>"
  by (simp add: contribution_of_def row_dict_def split: option.split)

lemma origin_of_inject: "origin_of a = origin_of b \<longleftrightarrow> a = b"
  by (auto simp: origin_of_def split: option.splits prod.splits)

lemma contribution_of_row_inject:
  "contribution_of (row_dict row) = contribution_of (row_dict row') \<longleftrightarrow> row_known row = row_known row'"
proof (cases row; cases row')
  fix l v p l' v' p'
  assume rows: "row = \<lparr>er_layer = l, er_value = v, er_place = p\<rparr>"
    "row' = \<lparr>er_layer = l', er_value = v', er_place = p'\<rparr>"
  have "map_option origin_parts p = map_option origin_parts p' \<longleftrightarrow>
      map_option place_known p = map_option place_known p'"
    by (cases p; cases p') (simp_all add: origin_parts_inject)
  with rows show ?thesis by (auto simp: contribution_of_row origin_of_inject row_known_def)
qed

lemma map_inject_via:
  "(\<And>x y. f x = f y \<longleftrightarrow> g x = g y) \<Longrightarrow> map f xs = map f ys \<longleftrightarrow> map g xs = map g ys"
  by (induction xs arbitrary: ys) (auto simp: Cons_eq_map_conv map_eq_Cons_conv)

lemma explanation_crosses:
  "config_explain (explanation_dict x) = config_explain (explanation_dict y) \<longleftrightarrow>
   explanation_known x = explanation_known y"
proof -
  have rows: "map (\<lambda>row. contribution_of (row_dict row)) (en_rows x) =
      map (\<lambda>row. contribution_of (row_dict row)) (en_rows y) \<longleftrightarrow>
    map row_known (en_rows x) = map row_known (en_rows y)"
    by (rule map_inject_via) (rule contribution_of_row_inject)
  have "config_explain (explanation_dict z) =
      \<lparr>ex_path = en_path z, ex_rows = map (\<lambda>row. contribution_of (row_dict row)) (en_rows z),
       ex_winner = en_winner z, ex_rendered = en_rendered z\<rparr>" for z
    by (simp add: config_explain_def explanation_dict_def contribution_of_def comp_def)
  with rows show ?thesis
    by (cases x; cases y) (auto simp: explanation_known_def)
qed

lemma report_crosses:
  "config_check (report_dict r) = config_check (report_dict q) \<longleftrightarrow> report_known r = report_known q"
proof -
  have resolved: "map (\<lambda>(path, origin). \<lparr>re_path = path, re_origin = \<lparr>o_kind = fst (origin_parts origin),
        o_detail = snd (origin_parts origin)\<rparr>\<rparr>) (eo_resolved r) =
      map (\<lambda>(path, origin). \<lparr>re_path = path, re_origin = \<lparr>o_kind = fst (origin_parts origin),
        o_detail = snd (origin_parts origin)\<rparr>\<rparr>) (eo_resolved q) \<longleftrightarrow>
    map (\<lambda>(path, origin). (path, place_known origin)) (eo_resolved r) =
      map (\<lambda>(path, origin). (path, place_known origin)) (eo_resolved q)"
    by (rule map_inject_via) (auto simp: origin_parts_inject [symmetric] prod_eq_iff split: prod.split)
  have unknown: "map (\<lambda>(path, suggestion). \<lparr>uk_path = path, uk_suggestion = suggestion\<rparr>) us =
      map (\<lambda>(path, suggestion). \<lparr>uk_path = path, uk_suggestion = suggestion\<rparr>) vs \<longleftrightarrow> us = vs" for us vs
    using map_inject_via [of "\<lambda>(path, suggestion). \<lparr>uk_path = path, uk_suggestion = suggestion\<rparr>" id us vs]
    by (auto simp: split_def prod_eq_iff)
  have "config_check (report_dict z) =
      \<lparr>rp_key = eo_key z,
       rp_resolved = map (\<lambda>(path, origin). \<lparr>re_path = path, re_origin = \<lparr>o_kind = fst (origin_parts origin),
        o_detail = snd (origin_parts origin)\<rparr>\<rparr>) (eo_resolved z),
       rp_unknown = map (\<lambda>(path, suggestion). \<lparr>uk_path = path, uk_suggestion = suggestion\<rparr>) (eo_unknown z),
       rp_failure = eo_failure z, rp_unknown_checked = eo_unknown_checked z\<rparr>" for z
    by (simp add: config_check_def report_dict_def comp_def split_def)
  with resolved unknown show ?thesis
    by (cases r; cases q) (auto simp: report_known_def)
qed

subsection \<open>Durations, waits and the watcher\<close>

text \<open>A Python float, and \<open>seconds\<close>: \<open>Duration::from_secs_f64\<close> panics when the seconds do not fit 64
  bits. The rounding to nanoseconds is left out.\<close>

datatype pyfloat = Finite rat | Infinite bool | Not_a_number

definition seconds :: "pyfloat \<Rightarrow> (core_error, rat) result" where
  "seconds value =
     (case value of
        Finite s \<Rightarrow>
          if s < 0 then Inl (CoreValueError ''a duration is a non-negative number of seconds'')
          else if s < 2 ^ 64 then Inr s
          else Inl (CorePanic ''cannot convert float seconds to Duration'')
      | _ \<Rightarrow> Inl (CoreValueError ''a duration is a non-negative number of seconds''))"

text \<open>\<open>wait_for_change\<close> and \<open>wait_for_event\<close>: the time limit first. A wait that its limit ends
  answers like one that was woken: from what the counters are by then.\<close>

definition timed :: "pyfloat option \<Rightarrow> 'a \<Rightarrow> (core_error, 'a) result" where
  "timed timeout answer =
     (case timeout of None \<Rightarrow> Inr answer | Some t \<Rightarrow> rbind (seconds t) (\<lambda>_. Inr answer))"

definition wait_for_change ::
  "nat \<Rightarrow> pyfloat option \<Rightarrow> ('t, 'm, 'h) core \<Rightarrow> (core_error, (nat \<times> 'm) option) result" where
  "wait_for_change seen timeout k = timed timeout (wait_answer seen k)"

definition wait_for_event ::
  "nat \<Rightarrow> nat \<Rightarrow> pyfloat option \<Rightarrow> ('t, 'm, 'h) core \<Rightarrow> (core_error, (nat \<times> nat \<times> 'm option) option) result" where
  "wait_for_event seen seen_refusals timeout k = timed timeout (event_answer seen seen_refusals k)"

text \<open>\<open>Config.watch\<close>: the interval, the debounce, and only then the engine. \<open>starts\<close> is the
  engine's answer to its platform's watcher.\<close>

datatype watch_mode = Poll rat | Native

definition watch_mode_of :: "pyfloat option \<Rightarrow> (core_error, watch_mode) result" where
  "watch_mode_of poll_interval =
     (case poll_interval of
        Some interval \<Rightarrow> rbind (seconds interval) (\<lambda>i. Inr (Poll i))
      | None \<Rightarrow> Inr Native)"

definition core_watch ::
  "(rat \<Rightarrow> watch_mode \<Rightarrow> string option) \<Rightarrow> pyfloat \<Rightarrow> pyfloat option \<Rightarrow> ('t, 'm, 'h) core \<Rightarrow>
   (watch, 't, 'm, 'h) answer" where
  "core_watch starts debounce poll_interval k =
     (case watch_mode_of poll_interval of
        Inl e \<Rightarrow> (Inl e, k, [])
      | Inr mode \<Rightarrow>
          (case seconds debounce of
             Inl e \<Rightarrow> (Inl e, k, [])
           | Inr d \<Rightarrow>
               (case starts d mode of
                  Some failure \<Rightarrow> (Inl (CoreOSError (''could not start watching: '' @ failure)), core_dynamic k, [])
                | None \<Rightarrow> (Inr Watching, core_dynamic k, []))))"

text \<open>What \<open>seconds\<close> accepts, and a refused call of \<open>watch\<close>.\<close>

lemma seconds_ok: "seconds value = Inr s \<longleftrightarrow> value = Finite s \<and> 0 \<le> s \<and> s < 2 ^ 64"
  by (auto simp: seconds_def split: pyfloat.split)

lemma watch_mode_ok:
  "watch_mode_of poll_interval = Inr mode \<longleftrightarrow>
   (case poll_interval of None \<Rightarrow> mode = Native | Some i \<Rightarrow> \<exists>s. seconds i = Inr s \<and> mode = Poll s)"
  by (auto simp: watch_mode_of_def rbind_def split: option.split sum.split)

subsection \<open>The garbage collector: \<open>__traverse__\<close> and \<open>__clear__\<close>\<close>

text \<open>The Python objects a native configuration holds.\<close>

record 'o held =
  hd_validate :: 'o
  hd_hooks :: "'o list"
  hd_source :: "'o option"
  hd_failure :: "'o option"
  hd_model :: "'o option"
  hd_staged :: "'o option"
  hd_reports :: "'o option"

fun listed :: "'o option \<Rightarrow> 'o list" where
  "listed None = []"
| "listed (Some x) = [x]"

definition held_objects :: "'o held \<Rightarrow> 'o list" where
  "held_objects h = hd_validate h # hd_hooks h @ listed (hd_source h) @ listed (hd_failure h) @
     listed (hd_model h) @ listed (hd_staged h) @ listed (hd_reports h)"

definition source_traverse :: "bool \<Rightarrow> 'o held \<Rightarrow> 'o list" where
  "source_traverse locked h = (if locked then [] else listed (hd_source h))"

definition traverse_edges :: "bool \<Rightarrow> bool \<Rightarrow> 'o held \<Rightarrow> 'o list" where
  "traverse_edges hooks_locked source_locked h =
     (if hooks_locked then [] else hd_hooks h @ source_traverse source_locked h)"

definition source_clear :: "'o held \<Rightarrow> 'o held" where
  "source_clear h = h\<lparr>hd_source := None, hd_failure := None\<rparr>"

definition clear_edges :: "'o held \<Rightarrow> 'o held" where
  "clear_edges h = source_clear (h\<lparr>hd_hooks := []\<rparr>)"

text \<open>Whatever the locks, clearing cuts every edge that was reported; the schema's \<open>validate\<close> is
  held and never reported, so a cycle through it (a decorated class, whose configuration holds
  the validator that holds the class) is never found.\<close>

lemma cleared_reports_nothing: "traverse_edges a b (clear_edges h) = []"
  by (simp add: traverse_edges_def clear_edges_def source_clear_def source_traverse_def)

lemma clearing_cuts_the_reported:
  "set (held_objects h) =
     set (held_objects (clear_edges h)) \<union> set (traverse_edges False False h) \<union> set (listed (hd_failure h))"
  by (auto simp: held_objects_def clear_edges_def source_clear_def traverse_edges_def source_traverse_def)

lemma validate_is_never_reported:
  "held_objects (clear_edges h) = hd_validate h # listed (hd_model h) @ listed (hd_staged h) @ listed (hd_reports h) \<and>
   traverse_edges a b h = traverse_edges a b (h\<lparr>hd_validate := v, hd_model := m\<rparr>)"
  by (simp add: held_objects_def clear_edges_def source_clear_def traverse_edges_def source_traverse_def)

subsection \<open>Snapshots: \<open>handles.rs\<close> and \<open>_diagnostics.py\<close>\<close>

text \<open>The engine's snapshot answers for itself: its value, its origins and the paths that moved.\<close>

record 's snapshot_ops =
  sn_value :: "'s \<Rightarrow> owned"
  sn_source_of :: "'s \<Rightarrow> string \<Rightarrow> place option"
  sn_contains :: "'s \<Rightarrow> string \<Rightarrow> bool"
  sn_leaf_paths :: "'s \<Rightarrow> string list"
  sn_top_level_keys :: "'s \<Rightarrow> string list"
  sn_is_empty :: "'s \<Rightarrow> bool"
  sn_diff :: "'s \<Rightarrow> 's \<Rightarrow> (string \<times> string) list"

definition native_to_dict :: "'s snapshot_ops \<Rightarrow> (int \<Rightarrow> string) \<Rightarrow> 's \<Rightarrow> pyobj" where
  "native_to_dict ops f64 self = to_py (value_to_json f64 (sn_value ops self))"

definition native_source_of :: "'s snapshot_ops \<Rightarrow> 's \<Rightarrow> string \<Rightarrow> (string \<times> string option) option" where
  "native_source_of ops self path = map_option origin_parts (sn_source_of ops self path)"

definition native_diff :: "'s snapshot_ops \<Rightarrow> 's \<Rightarrow> 's \<Rightarrow> (string \<times> string) list" where
  "native_diff ops self other = sn_diff ops self other"

definition native_repr :: "'s snapshot_ops \<Rightarrow> 's \<Rightarrow> string" where
  "native_repr ops self =
     ''<dynamic_config.Snapshot keys='' @ str_of_nat (length (sn_leaf_paths ops self)) @ ''>''"

text \<open>The Python class wraps the native one.\<close>

definition snapshot_to_dict :: "'s snapshot_ops \<Rightarrow> (int \<Rightarrow> string) \<Rightarrow> 's \<Rightarrow> pyobj" where
  "snapshot_to_dict ops f64 self = native_to_dict ops f64 self"

definition snapshot_source_of :: "'s snapshot_ops \<Rightarrow> 's \<Rightarrow> string \<Rightarrow> origin option" where
  "snapshot_source_of ops self path = origin_of (native_source_of ops self path)"

definition snapshot_contains :: "'s snapshot_ops \<Rightarrow> 's \<Rightarrow> string \<Rightarrow> bool" where
  "snapshot_contains ops self path = sn_contains ops self path"

definition snapshot_leaf_paths :: "'s snapshot_ops \<Rightarrow> 's \<Rightarrow> string list" where
  "snapshot_leaf_paths ops self = sn_leaf_paths ops self"

definition snapshot_top_level_keys :: "'s snapshot_ops \<Rightarrow> 's \<Rightarrow> string list" where
  "snapshot_top_level_keys ops self = sn_top_level_keys ops self"

definition snapshot_is_empty :: "'s snapshot_ops \<Rightarrow> 's \<Rightarrow> bool" where
  "snapshot_is_empty ops self = sn_is_empty ops self"

definition snapshot_diff :: "'s snapshot_ops \<Rightarrow> 's \<Rightarrow> 's \<Rightarrow> change list" where
  "snapshot_diff ops self other = changes_of (native_diff ops self other)"

definition snapshot_repr :: "'s snapshot_ops \<Rightarrow> 's \<Rightarrow> string" where
  "snapshot_repr ops self = native_repr ops self"

text \<open>The module's \<open>changed_paths\<close>: both values are converted, the older first. \<open>differ\<close> is the
  engine's comparison of two trees.\<close>

datatype comparison_error = Not_convertible conversion_error | Not_comparable exn

definition native_changed_paths ::
  "(json \<Rightarrow> json \<Rightarrow> (string \<times> string) list outcome) \<Rightarrow> pyobj \<Rightarrow> pyobj \<Rightarrow>
   (comparison_error, (string \<times> string) list) result" where
  "native_changed_paths differ previous current =
     (case from_py previous of
        Inl e \<Rightarrow> Inl (Not_convertible e)
      | Inr old \<Rightarrow>
          (case from_py current of
             Inl e \<Rightarrow> Inl (Not_convertible e)
           | Inr new \<Rightarrow> map_sum (\<lambda>e. Not_comparable (to_py_err e)) id (differ old new)))"

subsection \<open>Properties\<close>

text \<open>A diagnostic publishes nothing, calls no hook and changes nothing a reader, a waiter or a
  later load sees; what it does change is that the sources are fixed from then on, by every one of
  the six.\<close>

theorem asking_only_fixes_the_sources:
  "list_all (\<lambda>c'. undisturbed c c' \<and> sources_fixed c' \<and>
       fst (config_source src c') = Inl (CoreExn (BackendError (''the sources cannot change after the first load; '' @
         ''build a second configuration instead''))))
     [snd (dynamic_source_of reads path env c), snd (dynamic_is_set reads path env c),
      snd (dynamic_explain reads path env c), snd (dynamic_check reads env c),
      snd (dynamic_snapshot reads env c), snd (dynamic_fingerprint reads env c)]"
proof -
  have refused: "fst (config_source src c') = Inl (CoreExn (BackendError (''the sources cannot change after the first load; '' @
      ''build a second configuration instead'')))" if "sources_fixed c'" for c' :: "('a, 'b) config"
    using that by (simp add: sources_fixed_def config_source_def core_configure_def Let_def split: engine.splits)
  have "undisturbed c (snd (dynamic_fingerprint reads env c)) \<and> sources_fixed (snd (dynamic_fingerprint reads env c))"
    by (simp add: dynamic_fingerprint_def ask_core_def split_def run_core_def core_fingerprint_def Let_def undisturbed_def
        sources_fixed_def config_try_current_def config_generation_def core_dynamic_def told_of_def
        engine_sources_def split: engine.split)
  then show ?thesis
    by (simp add: refused dynamic_source_of_def dynamic_is_set_def dynamic_explain_def dynamic_check_def
        dynamic_snapshot_def
        ask_core_question [where op = "core_source_of reads path" and outcome = "\<lambda>t. rd_source_of reads t path", OF core_source_of_def]
        ask_core_question [where op = "core_is_set reads path" and outcome = "\<lambda>t. rd_is_set reads t path", OF core_is_set_def]
        ask_core_question [where op = "core_explain reads path" and outcome = "\<lambda>t. rd_explain reads t path", OF core_explain_def]
        ask_core_question [where op = "core_check reads" and outcome = "rd_check reads", OF core_check_def]
        ask_core_question [where op = "core_snapshot reads" and outcome = "rd_snapshot reads", OF core_snapshot_def])
qed

text \<open>C32: Loads, refused or not, watchers, commits, hooks, other questions and the release change no
  answer: the diagnostics report what was declared, before the first load, after a failed one and
  after the configuration was let go, apart from the report that is attached to a refusal.\<close>

theorem diagnostics_answer_what_was_declared:
  assumes "running w k k'"
  shows "without_report (answer_of (core_source_of reads path k')) = without_report (answer_of (core_source_of reads path k)) \<and>
    without_report (answer_of (core_is_set reads path k')) = without_report (answer_of (core_is_set reads path k)) \<and>
    without_report (answer_of (core_explain reads path k')) = without_report (answer_of (core_explain reads path k)) \<and>
    without_report (answer_of (core_check reads k')) = without_report (answer_of (core_check reads k)) \<and>
    without_report (answer_of (core_snapshot reads k')) = without_report (answer_of (core_snapshot reads k))"
  by (simp add: question_defs answer_of_question running_told [OF assms])

text \<open>A toy engine: a path is set when an override or a default names it.\<close>

definition sample_reads :: "(nat, nat) reads" where
  "sample_reads = \<lparr>
     rd_source_of = (\<lambda>t path. Inr (if path \<in> fst ` set (td_overrides t) then Some (From_runtime ''override'') else None)),
     rd_is_set = (\<lambda>t path. Inr (path \<in> fst ` set (td_overrides t @ td_defaults t))),
     rd_explain = (\<lambda>t path. Inr \<lparr>en_path = path, en_rows = [], en_winner = None, en_rendered = []\<rparr>),
     rd_check = (\<lambda>t. Inr \<lparr>eo_key = td_key t, eo_resolved = [], eo_unknown = [], eo_unknown_checked = True, eo_failure = None\<rparr>),
     rd_snapshot = (\<lambda>t. Inr (length (td_overrides t))), rd_fingerprint = (\<lambda>_ _. ''sha256:0'')\<rparr>"

theorem diagnostics_answer_what_was_declared_witness:
  "let k = after (core_set_override (\<lambda>_ _. None) ''pool.size'' 7 sample_core);
       k' = core_release (after (core_reload sample_world (Inl (''parse'', ''eof'')) k))
   in without_report (answer_of (core_source_of sample_reads ''pool.size'' k')) =
        Inr (Some (''runtime'', Some ''override''))"
proof -
  let ?k = "after (core_set_override (\<lambda>_ _. None) ''pool.size'' 7 sample_core)"
  have "running sample_world ?k (core_release (after (core_reload sample_world (Inl (''parse'', ''eof'')) ?k)))"
    by (rule running_more [OF running_more [OF running_refl run_reload] run_release])
  from diagnostics_answer_what_was_declared [OF this, of sample_reads "''pool.size''"]
  have "without_report (answer_of (core_source_of sample_reads ''pool.size''
      (core_release (after (core_reload sample_world (Inl (''parse'', ''eof'')) ?k))))) =
    without_report (answer_of (core_source_of sample_reads ''pool.size'' ?k))" by simp
  also have "\<dots> = Inr (Some (''runtime'', Some ''override''))"
    by (simp add: core_source_of_def answer_of_question sample_reads_def core_set_override_def told_of_def
        origin_parts_def)
  finally show ?thesis by (simp add: Let_def)
qed

text \<open>What \<open>explain\<close> and \<open>check\<close> answer crosses the two dictionaries whole: two answers of the
  engine read the same in Python exactly when they are the same, up to origins this binding does
  not know, which read as unknown; and an origin that shows a detail always has one.\<close>

theorem answers_cross_whole:
  "(config_explain (explanation_dict x) = config_explain (explanation_dict y) \<longleftrightarrow>
      explanation_known x = explanation_known y) \<and>
   (config_check (report_dict r) = config_check (report_dict q) \<longleftrightarrow> report_known r = report_known q) \<and>
   map_option origin_str (config_source_of (Some (origin_parts p))) =
     Some (case p of
        From_file f \<Rightarrow> ''in '' @ f
      | From_env v \<Rightarrow> ''from '' @ v
      | From_inline \<Rightarrow> ''in an inline source''
      | From_remote store \<Rightarrow> ''from the remote store '' @ store
      | From_runtime layer \<Rightarrow> ''set at runtime ('' @ layer @ '')''
      | _ \<Rightarrow> ''from an unknown source'')"
  by (intro conjI explanation_crosses report_crosses origin_str_of_place)

text \<open>The numbers from zero up to the bound of 64 bits.\<close>

definition a_duration :: "pyfloat \<Rightarrow> bool" where
  "a_duration value = (case value of Finite s \<Rightarrow> 0 \<le> s \<and> s < 2 ^ 64 | _ \<Rightarrow> False)"

definition too_long :: "pyfloat \<Rightarrow> bool" where
  "too_long value = (case value of Finite s \<Rightarrow> 2 ^ 64 \<le> s | _ \<Rightarrow> False)"

fun number_of :: "pyfloat \<Rightarrow> rat" where
  "number_of (Finite s) = s"
| "number_of _ = 0"

lemma core_watch_durations:
  "core_watch starts debounce poll_interval k =
     (case filter (\<lambda>value. \<not> a_duration value) (listed poll_interval @ [debounce]) of
        bad # _ \<Rightarrow>
          (Inl (if too_long bad then CorePanic ''cannot convert float seconds to Duration''
                else CoreValueError ''a duration is a non-negative number of seconds''), k, [])
      | [] \<Rightarrow>
          (case starts (number_of debounce)
              (case poll_interval of None \<Rightarrow> Native | Some i \<Rightarrow> Poll (number_of i)) of
             Some failure \<Rightarrow> (Inl (CoreOSError (''could not start watching: '' @ failure)), core_dynamic k, [])
           | None \<Rightarrow> (Inr Watching, core_dynamic k, [])))"
  by (cases poll_interval)
    (simp_all add: core_watch_def watch_mode_of_def rbind_def seconds_def a_duration_def too_long_def
      split: pyfloat.split)

text \<open>A watcher is asked for exactly when both durations are; otherwise the first that is none,
  the interval before the debounce, is the error, nothing changes and the sources can still be
  declared. A platform that cannot watch is an error after the engine was built.\<close>

theorem watch_checks_its_durations_first:
  "core_watch starts debounce poll_interval k =
     (case filter (\<lambda>value. \<not> a_duration value) (listed poll_interval @ [debounce]) of
        bad # _ \<Rightarrow>
          (Inl (if too_long bad then CorePanic ''cannot convert float seconds to Duration''
                else CoreValueError ''a duration is a non-negative number of seconds''), k, [])
      | [] \<Rightarrow>
          (case starts (number_of debounce)
              (case poll_interval of None \<Rightarrow> Native | Some i \<Rightarrow> Poll (number_of i)) of
             Some failure \<Rightarrow> (Inl (CoreOSError (''could not start watching: '' @ failure)), core_dynamic k, [])
           | None \<Rightarrow> (Inr Watching, core_dynamic k, [])))"
  by (rule core_watch_durations)

text \<open>A duration that is finite and not negative but does not fit 64 bits of seconds is no
  \<open>ValueError\<close>: the conversion panics, in every call that takes a time limit.\<close>

lemma long_timeout_panics:
  "wait_for_change seen (Some (Finite (2 * 10 ^ 19))) k = Inl (CorePanic ''cannot convert float seconds to Duration'')"
  by (simp add: wait_for_change_def timed_def rbind_def seconds_def)

text \<open>An error of the engine is caught by the base class and by the class of its own kind, and
  by no other; it carries the text, the path and the place the engine named; a refusal, and only a
  refusal, has the schema's reports.\<close>

theorem errors_keep_their_kind:
  "(caught_by (class_for kind) (raise_with reports e) \<longleftrightarrow> kind = Kind_newer \<or> kind = er_kind e) \<and>
   xn_text (raise_with reports e) = er_text e \<and> xn_path (raise_with reports e) = er_path e \<and>
   (xn_origin_kind (raise_with reports e), xn_origin (raise_with reports e)) = origin_parts (er_origin e) \<and>
   (xn_errors (raise_with reports e) = None \<longleftrightarrow> er_kind e \<noteq> Kind_invalid)"
  using caught_by_kind [of kind reports e] by (simp add: raise_with_def to_py_err_def)

text \<open>The report of a refusal that was a watcher's stays until somebody raises: an invalid document
  that never reached the schema is raised with it.\<close>

lemma watchers_report_is_raised_later:
  assumes "w_validate w tree = Inl (message, Some report)"
  shows "answer_of (core_ask (Inl (EngineError ''invalid'' text)) (after (core_watch_reload w (Inr tree) k))) =
    Inl (InvalidError text report)"
proof -
  have "k_reports (after (core_watch_reload w (Inr tree) k)) = Some report"
    using assms by (simp add: core_watch_reload_def engine_load_def core_validate_def Let_def)
  then show ?thesis
    by (simp add: core_ask_def raised_def core_raise_def core_dynamic_def split: engine.split)
qed

text \<open>The watcher of \<open>Config\<close> is this one, with durations that are.\<close>

lemma config_watch_is_core_watch:
  assumes "list_all a_duration (debounce # listed poll_interval)"
    and "\<And>d mode. e_watch_fails env =
      map_option (\<lambda>failure. CoreOSError (''could not start watching: '' @ failure)) (starts d mode)"
  shows "map_sum id (\<lambda>_. Watching) (fst (config_watch env c)) =
      map_sum CoreExn id (answer_of (core_watch starts debounce poll_interval (c_core c))) \<and>
    c_core (snd (config_watch env c)) = after (core_watch starts debounce poll_interval (c_core c))"
proof -
  have none: "filter (\<lambda>value. \<not> a_duration value) (listed poll_interval @ [debounce]) = []"
    unfolding filter_empty_conv using assms(1) by (auto simp: list_all_iff)
  define m where "m = (case poll_interval of None \<Rightarrow> Native | Some i \<Rightarrow> Poll (number_of i))"
  have "core_watch starts debounce poll_interval (c_core c) =
      (case starts (number_of debounce) m of
         Some failure \<Rightarrow> (Inl (CoreOSError (''could not start watching: '' @ failure)), core_dynamic (c_core c), [])
       | None \<Rightarrow> (Inr Watching, core_dynamic (c_core c), []))"
    unfolding core_watch_durations none m_def by (simp only: list.case)
  then show ?thesis
    using assms(2) [of "number_of debounce" m] by (simp add: config_watch_def Let_def split: option.split)
qed

end
