(* ===== verification/Pins.thy ===== *)
theory Pins
  imports Config Convert
begin

section \<open>Pins are references: the mirror of the override layer\<close>

text \<open>
  \<open>set_override\<close> gives the engine a converted copy of a value and keeps the value itself in
  \<open>_overrides\<close>, from which \<open>overrides()\<close> restores. \<open>Config\<close> models both by the converted value;
  here the mirror holds what Python holds, the address of an object that anybody may still change,
  and every pin is converted when it is set.
\<close>

subsection \<open>State and operations\<close>

record 'm pinned =
  pn_config :: "(json, 'm) config"
  pn_mirror :: "(string, nat) dict"
  pn_heap :: "nat \<Rightarrow> pyobj"

definition conversion_exn :: "conversion_error \<Rightarrow> config_error" where
  "conversion_exn e =
     (case e of
        Conversion_type_error m \<Rightarrow> ConfigTypeError m
      | Conversion_value_error m \<Rightarrow> ConfigValueError m
      | Overflow_error m \<Rightarrow> CoreExn (CoreValueError m))"

definition pin_object :: "(json, 'm) env \<Rightarrow> string \<Rightarrow> nat \<Rightarrow> 'm pinned \<Rightarrow> (config_error, unit) result \<times> 'm pinned" where
  "pin_object env path a self =
     (case from_py (pn_heap self a) of
        Inl e \<Rightarrow> (Inl (conversion_exn e), self)
      | Inr v \<Rightarrow>
          (case run_core env (core_set_override (e_refuses env) path v) (pn_config self) of
             (Inl e, c) \<Rightarrow> (Inl e, self\<lparr>pn_config := c\<rparr>)
           | (Inr _, c) \<Rightarrow> (Inr (), self\<lparr>pn_config := c, pn_mirror := dict_set path a (pn_mirror self)\<rparr>)))"

fun pin_objects :: "(json, 'm) env \<Rightarrow> (string, nat) dict \<Rightarrow> 'm pinned \<Rightarrow> (config_error, unit) result \<times> 'm pinned" where
  "pin_objects env [] self = (Inr (), self)"
| "pin_objects env ((path, a) # rest) self =
     (case pin_object env path a self of
        (Inl e, self1) \<Rightarrow> (Inl e, self1)
      | (Inr _, self1) \<Rightarrow> pin_objects env rest self1)"

definition clear_pins :: "'m pinned \<Rightarrow> 'm pinned" where
  "clear_pins self = self\<lparr>pn_config := config_clear_overrides (pn_config self), pn_mirror := []\<rparr>"

definition pinned_reload :: "(json, 'm) env \<Rightarrow> json resolution \<Rightarrow> 'm pinned \<Rightarrow> (config_error, unit) result \<times> 'm pinned" where
  "pinned_reload env res self =
     (let (r, c) = config_reload env res (pn_config self) in (r, self\<lparr>pn_config := c\<rparr>))"

text \<open>\<open>overrides(**values)\<close>, with a body that may change objects.\<close>

definition pins_block ::
  "(json, 'm) env \<Rightarrow> (string, nat) dict \<Rightarrow> ('m pinned \<Rightarrow> json resolution) \<Rightarrow> ('m pinned \<Rightarrow> json resolution) \<Rightarrow>
   ('m pinned \<Rightarrow> (config_error, 'r) result \<times> 'm pinned) \<Rightarrow> 'm pinned \<Rightarrow> (config_error, 'r) result \<times> 'm pinned" where
  "pins_block env values resolve_in resolve_out body self =
     (let previous = pn_mirror self in
      case pin_objects env (map (\<lambda>(name, a). (py_replace ''__'' ''.'' name, a)) values) self of
        (Inl e, self1) \<Rightarrow> (Inl e, self1)
      | (Inr _, self1) \<Rightarrow>
          (let (r, self2) =
             (case pinned_reload env (resolve_in self1) self1 of
                (Inl e, s) \<Rightarrow> (Inl e, s)
              | (Inr _, s) \<Rightarrow> body s)
           in case pin_objects env previous (clear_pins self2) of
                (Inl e, self3) \<Rightarrow> (Inl e, self3)
              | (Inr _, self3) \<Rightarrow>
                  (case pinned_reload env (resolve_out self3) self3 of
                     (Inl e, s) \<Rightarrow> (Inl e, s)
                   | (Inr _, s) \<Rightarrow> (r, s))))"

subsection \<open>What a list of pins sets\<close>

definition pin_value :: "(nat \<Rightarrow> pyobj) \<Rightarrow> nat \<Rightarrow> json" where
  "pin_value heap a = (case from_py (heap a) of Inr v \<Rightarrow> v | Inl _ \<Rightarrow> Null)"

definition acceptable :: "(json, 'm) env \<Rightarrow> (nat \<Rightarrow> pyobj) \<Rightarrow> string \<times> nat \<Rightarrow> bool" where
  "acceptable env heap pin =
     (case from_py (heap (snd pin)) of Inr v \<Rightarrow> e_refuses env (fst pin) v = None | Inl _ \<Rightarrow> False)"

lemma pin_object_ok:
  "acceptable env (pn_heap s) (path, a) \<Longrightarrow>
   pin_object env path a s =
     (Inr (), s\<lparr>pn_config := (pn_config s)\<lparr>c_core := (c_core (pn_config s))\<lparr>k_overrides :=
         k_overrides (c_core (pn_config s)) @ [(path, pin_value (pn_heap s) a)]\<rparr>\<rparr>,
       pn_mirror := dict_set path a (pn_mirror s)\<rparr>)"
  by (auto simp: acceptable_def pin_object_def pin_value_def run_core_def core_set_override_def Let_def
      split: sum.splits)

lemma pin_object_heap: "pn_heap (snd (pin_object env path a s)) = pn_heap s"
  by (simp add: pin_object_def split: sum.split prod.split)

lemma pin_objects_heap: "pn_heap (snd (pin_objects env xs s)) = pn_heap s"
proof (induction xs arbitrary: s)
  case (Cons x xs)
  obtain path a where x: "x = (path, a)" by fastforce
  obtain r s1 where p: "pin_object env path a s = (r, s1)" by fastforce
  then have "pn_heap s1 = pn_heap s" using pin_object_heap [of env path a s] by simp
  with Cons.IH [of s1] p x show ?case by (cases r) simp_all
qed simp

lemma pin_objects_ok:
  assumes "list_all (acceptable env (pn_heap s)) xs"
  shows "pin_objects env xs s =
    (Inr (), s\<lparr>pn_config := (pn_config s)\<lparr>c_core := (c_core (pn_config s))\<lparr>k_overrides :=
        k_overrides (c_core (pn_config s)) @ map (\<lambda>(path, a). (path, pin_value (pn_heap s) a)) xs\<rparr>\<rparr>,
      pn_mirror := fold (\<lambda>(path, a). dict_set path a) xs (pn_mirror s)\<rparr>)"
  using assms
proof (induction xs arbitrary: s)
  case (Cons x xs)
  obtain path a where x: "x = (path, a)" by fastforce
  with Cons show ?case by (simp add: pin_object_ok)
qed simp

lemma pinned_reload_frame:
  "pn_heap (snd (pinned_reload env res s)) = pn_heap s"
  "pn_mirror (snd (pinned_reload env res s)) = pn_mirror s"
  "k_overrides (c_core (pn_config (snd (pinned_reload env res s)))) = k_overrides (c_core (pn_config s))"
  using config_reload_overrides(2) [of env res "pn_config s"]
  by (simp_all add: pinned_reload_def split_def Let_def)

text \<open>The end of a block, whatever came before it.\<close>

lemma pins_restored:
  assumes "distinct (map fst previous)" "list_all (acceptable env (pn_heap s)) previous"
  shows "pin_objects env previous (clear_pins s) =
    (Inr (), s\<lparr>pn_config := (pn_config s)\<lparr>c_core := (c_core (pn_config s))\<lparr>k_overrides :=
        map (\<lambda>(path, a). (path, pin_value (pn_heap s) a)) previous\<rparr>, c_overrides := []\<rparr>,
      pn_mirror := previous\<rparr>)"
proof -
  have h: "pn_heap (clear_pins s) = pn_heap s" by (simp add: clear_pins_def)
  have "fold (\<lambda>(path, a). dict_set path a) previous [] = previous"
    using replay_distinct [of "[]" previous] assms(1) by (simp add: replay_def)
  with assms(2) show ?thesis
    by (subst pin_objects_ok) (simp_all add: h, simp add: clear_pins_def config_clear_overrides_def core_clear_overrides_def)
qed

lemma pins_block_heap:
  assumes "pin_objects env (map (\<lambda>(name, a). (py_replace ''__'' ''.'' name, a)) values) s = (Inr (), s1)"
    and "pinned_reload env (resolve_in s1) s1 = (Inr (), s2)"
  shows "pn_heap (snd (pins_block env values resolve_in resolve_out body s)) = pn_heap (snd (body s2))"
proof -
  obtain r s3 where body: "body s2 = (r, s3)" by fastforce
  obtain q s4 where restored: "pin_objects env (pn_mirror s) (clear_pins s3) = (q, s4)" by fastforce
  have "pn_heap s4 = pn_heap s3"
    using pin_objects_heap [of env "pn_mirror s" "clear_pins s3"] restored by (simp add: clear_pins_def)
  then show ?thesis
    using pinned_reload_frame(1) [of env "resolve_out s4" s4]
    by (cases "pinned_reload env (resolve_out s4) s4")
      (simp add: pins_block_def assms body restored split: sum.split)
qed

subsection \<open>Properties\<close>


text \<open>A list that is pinned, and grows inside a block that pins nothing and raises: the pin after the
  block is the longer list.\<close>

definition pins_env :: "(json, json) env" where
  "pins_env = \<lparr>e_world = \<lparr>w_validate = Inr, w_announces = (\<lambda>_. False)\<rparr>, e_differ = (\<lambda>_ _. []),
     e_hook_raises = (\<lambda>_ _ _. False), e_refuses = (\<lambda>_ _. None), e_spreads = (\<lambda>v. (None, [])),
     e_parses = Pair None, e_refuses_alias = (\<lambda>_ _. None), e_refuses_binding = (\<lambda>_ _. None),
     e_is_instance = (\<lambda>_. True), e_watch_fails = None\<rparr>"

definition pinned_hosts :: "json pinned" where
  "pinned_hosts = snd (pin_object pins_env ''hosts'' 0
     \<lparr>pn_config = config_new ''App'' ''app'' None \<lparr>sc_secret_paths = [], sc_field_names = [], sc_is_values = False\<rparr> [],
      pn_mirror = [], pn_heap = (\<lambda>_. O_none)(0 := O_list [O_str ''a''])\<rparr>)"

lemma pinned_hosts_simps:
  "pn_mirror pinned_hosts = [(''hosts'', 0)]"
  "k_overrides (c_core (pn_config pinned_hosts)) = [(''hosts'', Array [String ''a''])]"
  "pn_heap pinned_hosts = (\<lambda>_. O_none)(0 := O_list [O_str ''a''])"
  by (simp_all add: pinned_hosts_def pin_object_def run_core_def core_set_override_def pins_env_def
      config_new_def core_on_reload_def core_new_def dict_set_def rbind_def Let_def)

definition grows :: "json pinned \<Rightarrow> (config_error, unit) result \<times> json pinned" where
  "grows s = (Inl (BlockRaised ''boom''), s\<lparr>pn_heap := (\<lambda>_. O_none)(0 := O_list [O_str ''a'', O_str ''b''])\<rparr>)"

lemma pinned_hosts_reload: "\<exists>s2. pinned_reload pins_env (Inr Null) pinned_hosts = (Inr (), s2)"
proof -
  have "config_inv (pn_config pinned_hosts)"
    by (simp add: pinned_hosts_def pin_object_def run_core_def core_set_override_def pins_env_def
      config_new_def core_on_reload_def core_new_def rbind_def Let_def config_inv_def hooks_ok_def core_inv_def)
  from config_reload_ok [OF this, of pins_env Null Null] show ?thesis
    by (simp add: pinned_reload_def pins_env_def)
qed


end
