(* ===== verification/Models.thy ===== *)
theory Models
  imports Config
begin

section \<open>Every model anybody sees comes from the schema\<close>

text \<open>
  What \<open>Config\<close> relies on a schema for, as an interface: a property of models that everything the
  schema's \<open>validate\<close> builds has, and everything \<open>replace\<close> takes for an instance. Then the model in
  force, the one staged, the ones the read path answers and the ones every hook was given have it.
\<close>

subsection \<open>The interface and its client\<close>

locale schema_contract =
  fixes env :: "('t, 'm) env" and good :: "'m \<Rightarrow> bool"
  assumes validated: "w_validate (e_world env) tree = Inr m \<Longrightarrow> good m"
    and instance_of: "e_is_instance env m \<Longrightarrow> good m"

definition holds_good :: "('m \<Rightarrow> bool) \<Rightarrow> ('t, 'm, 'h) core \<Rightarrow> bool" where
  "holds_good good k \<longleftrightarrow>
     pred_option good (k_cache k) \<and> pred_option (\<lambda>p. good (st_model p)) (k_staged k)"

definition calls_good :: "('m \<Rightarrow> bool) \<Rightarrow> ('h, 'm) call list \<Rightarrow> bool" where
  "calls_good good calls \<longleftrightarrow> list_all (\<lambda>(_, old, new). pred_option good old \<and> good new) calls"

definition seen_good :: "('m \<Rightarrow> bool) \<Rightarrow> ('t, 'm) config \<Rightarrow> bool" where
  "seen_good good c \<longleftrightarrow>
     holds_good good (c_core c) \<and> pred_option good (c_cached c) \<and>
     list_all (\<lambda>d. pred_option good (dl_old d) \<and> good (dl_new d) \<and> pred_option good (dl_current d)) (c_log c)"

lemma calls_good_append [simp]:
  "calls_good good (xs @ ys) \<longleftrightarrow> calls_good good xs \<and> calls_good good ys"
  "calls_good good []"
  by (simp_all add: calls_good_def)

text \<open>Updates that touch neither the cache nor the staged pair.\<close>

lemma holds_good_same:
  "k_cache k' = k_cache k \<Longrightarrow> k_staged k' = k_staged k \<Longrightarrow> holds_good good k' = holds_good good k"
  by (simp add: holds_good_def)

lemma holds_good_frames [simp]:
  "holds_good good (core_dynamic k) = holds_good good k"
  "holds_good good (claim p k) = holds_good good k"
  "holds_good good (drop_prepared token k) = holds_good good k"
  "holds_good good (after (raised e k)) = holds_good good k"
  "holds_good good (k\<lparr>k_engine := en\<rparr>) = holds_good good k"
  "holds_good good (k\<lparr>k_refusals := n\<rparr>) = holds_good good k"
  "calls_good good (calls_of (raised e k))"
  by (simp_all add: holds_good_def claim_def drop_prepared_def raised_def core_raise_def
      split: core_error.split)

lemma publish_good:
  "holds_good good k \<Longrightarrow> good m \<Longrightarrow>
   holds_good good (after (core_publish m k)) \<and> calls_good good (calls_of (core_publish m k))"
  by (auto simp: holds_good_def core_publish_def calls_good_def run_hooks_def list_all_iff)

lemma publish_staged_good:
  "holds_good good k \<Longrightarrow> pred_option (\<lambda>p. good (st_model p)) staged \<Longrightarrow>
   holds_good good (after (core_publish_staged staged k)) \<and> calls_good good (calls_of (core_publish_staged staged k))"
  by (cases staged) (simp_all add: core_publish_staged_def publish_good)

lemma staged_for_good:
  "holds_good good k \<Longrightarrow> staged_for tree k = Some p \<Longrightarrow> good (st_model p)"
  by (auto simp: holds_good_def dest!: staged_forD)

lemma core_ask_quiet:
  "calls_of (core_ask outcome k) = []"
  "k_cache (after (core_ask outcome k)) = k_cache k"
  "k_staged (after (core_ask outcome k)) = k_staged k"
  by (cases outcome; simp add: core_ask_def raised_def core_raise_def split: core_error.split)+

context schema_contract
begin

lemma validate_good: "holds_good good k \<Longrightarrow> holds_good good (snd (core_validate (e_world env) tree k))"
  using validated by (auto simp: holds_good_def core_validate_def split: sum.split prod.split)

lemma commit_good:
  assumes "holds_good good k"
  shows "holds_good good (after (inner_commit (e_world env) tree k)) \<and>
    calls_good good (calls_of (inner_commit (e_world env) tree k))"
proof (cases "staged_for tree k")
  case (Some p)
  then show ?thesis
    using assms publish_staged_good [of good k "Some p"] staged_for_good [OF assms Some]
    by (simp add: inner_commit_def)
next
  case None
  obtain r k1 where v: "core_validate (e_world env) tree k = (r, k1)" by fastforce
  have "holds_good good k1" using validate_good [OF assms, of tree] v by simp
  then show ?thesis
    using None v publish_staged_good [of good k1 "k_staged k1"]
    by (cases r) (simp_all add: inner_commit_def holds_good_def)
qed

lemma engine_install_good:
  assumes "holds_good good k"
  shows "holds_good good (fst (engine_install (e_world env) tree k)) \<and>
    calls_good good (snd (engine_install (e_world env) tree k))"
proof (cases "k_engine k")
  case (Ready srcs previous)
  then show ?thesis
    using assms commit_good [of "k\<lparr>k_engine := Ready srcs (Some tree)\<rparr>" tree]
    by (simp add: engine_install_def Let_def)
qed (simp add: engine_install_def assms)

lemma install_good:
  assumes "holds_good good k"
  shows "holds_good good (after (install_and_publish (e_world env) tree k)) \<and>
    calls_good good (calls_of (install_and_publish (e_world env) tree k))"
proof -
  note i = engine_install_good [OF assms, of tree]
  then have "holds_good good (after (publish_current (e_world env) (fst (engine_install (e_world env) tree k)))) \<and>
      calls_good good (calls_of (publish_current (e_world env) (fst (engine_install (e_world env) tree k))))"
    by (cases "engine_current (fst (engine_install (e_world env) tree k))")
      (simp_all add: publish_current_def commit_good)
  with i show ?thesis by (simp add: install_and_publish_eq Let_def)
qed

lemma engine_load_good:
  "holds_good good k \<Longrightarrow> holds_good good (snd (engine_load (e_world env) op res k))"
  using validate_good [of k] by (auto simp: engine_load_def Let_def split: sum.split prod.split)
    (metis holds_good_frames(6) snd_conv)+

lemma load_then_install_good:
  assumes "holds_good good k"
  shows "holds_good good (after (load_then_install (e_world env) op res k)) \<and>
    calls_good good (calls_of (load_then_install (e_world env) op res k))"
proof -
  obtain r k1 where l: "engine_load (e_world env) op res (core_dynamic k) = (r, k1)" by fastforce
  have "holds_good good k1" using engine_load_good [of "core_dynamic k" op res] assms l by simp
  then show ?thesis
    using l install_good by (cases r) (simp_all add: load_then_install_def)
qed

lemma core_load_good: "holds_good good k \<Longrightarrow> holds_good good (after (core_load (e_world env) res k))"
  using core_load_after [of "e_world env" res k] engine_load_good [of "core_dynamic k" Op_load res]
  by (auto simp: Let_def validate_good)

lemma watcher_good:
  assumes "holds_good good k"
  shows "holds_good good (after (core_watch_reload (e_world env) res k)) \<and>
    calls_good good (calls_of (core_watch_reload (e_world env) res k))"
proof -
  obtain r k1 where l: "engine_load (e_world env) Op_watch res (core_dynamic k) = (r, k1)" by fastforce
  have "holds_good good k1" using engine_load_good [of "core_dynamic k" Op_watch res] assms l by simp
  with l show ?thesis using engine_install_good [of k1] by (cases r) (simp_all add: core_watch_reload_def)
qed

text \<open>Delivering, and every operation of the configuration.\<close>

lemma deliver_good:
  assumes "seen_good good c" "pred_option good old" "good new"
  shows "seen_good good (deliver env (hook, old, new) c)"
  using assms by (cases hook) (simp_all add: deliver_def reach_hook_def seen_good_def)

lemma deliver_all_good: "seen_good good c \<Longrightarrow> calls_good good calls \<Longrightarrow> seen_good good (deliver_all env calls c)"
proof (induction calls arbitrary: c)
  case (Cons call calls)
  then show ?case using deliver_good [of c "fst (snd call)" "snd (snd call)" "fst call"]
    by (simp add: deliver_all_def calls_good_def split_def)
qed (simp add: deliver_all_def)

lemma run_core_good:
  assumes "seen_good good c" "holds_good good (after (op (c_core c)))" "calls_good good (calls_of (op (c_core c)))"
  shows "seen_good good (snd (run_core env op c))"
  using assms by (simp add: run_core_def Let_def, intro deliver_all_good) (simp_all add: seen_good_def)

lemma seen_good_core:
  "seen_good good c \<Longrightarrow> k_cache k = k_cache (c_core c) \<Longrightarrow> k_staged k = k_staged (c_core c) \<Longrightarrow>
   seen_good good (c\<lparr>c_core := k\<rparr>)"
  by (simp add: seen_good_def holds_good_def)

text \<open>Operations of the native object that publish nothing, and updates beside it.\<close>

lemma quiet_good:
  assumes "seen_good good c" "calls_of (op (c_core c)) = []"
    "k_cache (after (op (c_core c))) = k_cache (c_core c)" "k_staged (after (op (c_core c))) = k_staged (c_core c)"
  shows "seen_good good (snd (run_core env op c))"
  using assms by (intro run_core_good) (simp_all add: seen_good_def holds_good_def)

lemma seen_good_beside [simp]:
  "seen_good good (c\<lparr>c_overrides := d\<rparr>) = seen_good good c"
  "seen_good good (c\<lparr>c_watches := ws\<rparr>) = seen_good good c"
  by (simp_all add: seen_good_def)

lemma register_good: "seen_good good c \<Longrightarrow> seen_good good (snd (register_hook hook w c))"
  by (simp add: register_hook_def core_on_reload_def split_def seen_good_core Let_def)

lemma loads_good:
  assumes "seen_good good c"
  shows "seen_good good (snd (config_init env res c))" "seen_good good (snd (config_reload env res c))"
    "seen_good good (snd (config_load env res c))" "seen_good good (snd (config_watcher_fires env res c))"
proof -
  have k: "holds_good good (c_core c)" using assms by (simp add: seen_good_def)
  note l = load_then_install_good [OF k] and w = watcher_good [OF k]
  show "seen_good good (snd (config_init env res c))"
    using l by (simp add: config_init_def run_core_good [OF assms] core_init_def)
  show "seen_good good (snd (config_reload env res c))"
    using l by (simp add: config_reload_def run_core_good [OF assms] core_reload_def)
  show "seen_good good (snd (config_load env res c))"
    by (simp add: config_load_def run_core_good [OF assms] core_load_good [OF k])
  show "seen_good good (snd (config_watcher_fires env res c))"
    using w by (simp add: config_watcher_fires_def run_core_good [OF assms])
qed

lemma step_good:
  assumes "config_step env c c'" "seen_good good c"
  shows "seen_good good c'"
  using assms
proof (induction rule: config_step.induct)
  case (cs_source c src)
  then show ?case
    by (simp add: config_source_def Let_def, intro seen_good_core) (simp_all add: core_configure_def split: engine.split)
next
  case (cs_cache c path mode)
  then show ?case
    by (simp add: config_cache_def Let_def, intro seen_good_core)
      (simp_all add: core_cache_def core_configure_def split: engine.split)
next
  case (cs_replace c m)
  then show ?case using instance_of [of m] publish_good [of good "c_core c" m]
    by (simp add: config_replace_def core_replace_def run_core_good seen_good_def [of good c])
next
  case (cs_watch c)
  then show ?case
    by (simp add: config_watch_def Let_def seen_good_def holds_good_def split: option.split)
next
  case (cs_on_reload c loop hook da ba)
  then show ?case
    by (simp add: config_on_reload_def register_good split_def Let_def split: sum.split)
next
  case (cs_on_change c paths w)
  then show ?case by (simp add: config_on_change_def register_good split_def Let_def)
next
  case (cs_set_override c path v)
  then show ?case
    by (cases "e_refuses env path v") (simp_all add: set_override_ok set_override_refused seen_good_core)
next
  case (cs_ask c outcome)
  then show ?case by (intro quiet_good) (simp_all add: core_ask_quiet)
qed (simp_all add: loads_good stop_watch_def,
     simp_all add: config_close_guard_def guard_close_def core_remove_hook_def config_clear_overrides_def
      core_clear_overrides_def config_clear_defaults_def config_set_default_def core_set_default_def
      config_layer_defs layer_defs seen_good_core quiet_good Let_def split_def split: option.split)

lemma reach_good: "config_reach env c \<Longrightarrow> seen_good good c"
proof (induction rule: config_reach.induct)
  case (config_here model key executor schema secrets)
  show ?case
    by (simp add: seen_good_def holds_good_def config_new_def core_on_reload_def core_new_def)
qed (rule step_good)

end

end
