(* ===== verification/Loaded.thy ===== *)
theory Loaded
  imports Models Convert Dataclasses Values Scrub
begin

section \<open>From the resolved tree to the reader: configurations with a schema of their own\<close>

text \<open>
  The whole way of a document: the engine's tree (\<open>Convert\<close>) becomes Python data, the schema's
  \<open>validate\<close> (\<open>Dataclasses\<close>, \<open>Values\<close>) builds a model or refuses, \<open>Scrub\<close> makes the refusal, \<open>Core\<close>
  stages and publishes, \<open>Config\<close> delivers. The two theories of values are joined by
  \<open>python_value\<close>, which names the same Python objects in the other's words.
\<close>

subsection \<open>One value in two theories\<close>

text \<open>What \<open>to_py\<close> makes are the built-in types with texts for keys.\<close>

fun key_text :: "pyobj \<Rightarrow> string" where
  "key_text (O_str s) = s"
| "key_text _ = []"

fun python_value :: "pyobj \<Rightarrow> pyval" where
  "python_value O_none = PNone"
| "python_value (O_bool b) = PBool b"
| "python_value (O_int i) = PInt i"
| "python_value (O_float r) = PFloat r"
| "python_value (O_str s) = PStr s"
| "python_value (pyobj.O_dict d) = PDict (map (\<lambda>(k, v). (key_text k, python_value v)) d)"
| "python_value (pyobj.O_list xs) = PList (map python_value xs)"
| "python_value (pyobj.O_tuple xs) = PTuple (map python_value xs)"
| "python_value (O_object c _) = PObj c PNone"

definition data_of :: "json \<Rightarrow> pyval" where
  "data_of tree = python_value (to_py tree)"

subsection \<open>The schemas as the world of a configuration\<close>

text \<open>\<open>Inner.validate\<close> with a dataclass, and with \<open>Values\<close>: an exception of theirs has no \<open>errors()\<close>.\<close>

definition dataclass_world :: "classes \<Rightarrow> string \<Rightarrow> (lifecycle \<Rightarrow> bool) \<Rightarrow> (json, pyval) world" where
  "dataclass_world k model announces =
     \<lparr>w_validate = (\<lambda>tree.
        (case dataclass_validate k model (data_of tree) of
           Inr instance \<Rightarrow> Inr instance
         | Inl message \<Rightarrow> Inl (scrub_validation (Own_exception (''ValidationError: '' @ message)), None))),
      w_announces = announces\<rparr>"

definition dataclass_instance :: "string \<Rightarrow> pyval \<Rightarrow> bool" where
  "dataclass_instance model v = (case v of PInst m _ \<Rightarrow> m = model | _ \<Rightarrow> False)"

definition dataclass_env :: "classes \<Rightarrow> string \<Rightarrow> (json, pyval) env \<Rightarrow> (json, pyval) env" where
  "dataclass_env k model env =
     env\<lparr>e_world := dataclass_world k model (w_announces (e_world env)), e_is_instance := dataclass_instance model\<rparr>"

definition values_world :: "values_schema \<Rightarrow> (lifecycle \<Rightarrow> bool) \<Rightarrow> (json, pvalues) world" where
  "values_world schema announces =
     \<lparr>w_validate = (\<lambda>tree.
        (case values_validate schema (data_of tree) of
           Inr model \<Rightarrow> Inr model
         | Inl (VTypeError m) \<Rightarrow> Inl (scrub_validation (Own_exception (''TypeError: '' @ m)), None)
         | Inl (VKeyError m) \<Rightarrow> Inl (scrub_validation (Own_exception (''KeyError: '' @ m)), None))),
      w_announces = announces\<rparr>"

text \<open>A configuration nobody calls \<open>replace\<close> on takes nothing for an instance.\<close>

definition unreplaced :: "('t, 'm) env \<Rightarrow> ('t, 'm) env" where
  "unreplaced env = env\<lparr>e_is_instance := (\<lambda>_. False)\<rparr>"

interpretation instances: schema_contract "dataclass_env k model env" "dataclass_instance model"
  for k :: classes and model :: string and env :: "(json, pyval) env"
  by unfold_locales
    (auto simp: dataclass_env_def dataclass_world_def dataclass_instance_def
      dest!: dataclass_validate_instance split: sum.splits)

interpretation validated: schema_contract "unreplaced (dataclass_env k model env)"
    "fits_one k (A_class (C_dataclass model))"
  for k :: classes and model :: string and env :: "(json, pyval) env"
  by unfold_locales
    (auto simp: unreplaced_def dataclass_env_def dataclass_world_def
      intro: dataclass_validate_fits split: sum.splits)

interpretation documents: schema_contract "unreplaced (env\<lparr>e_world := values_world schema announces\<rparr>)"
    "\<lambda>m. \<exists>tree. data_of tree = PDict (v_data m)"
  for env :: "(json, pvalues) env" and schema :: values_schema and announces :: "lifecycle \<Rightarrow> bool"
proof unfold_locales
  fix tree m
  assume "w_validate (e_world (unreplaced (env\<lparr>e_world := values_world schema announces\<rparr>))) tree = Inr m"
  then have "values_validate schema (data_of tree) = Inr m"
    by (auto simp: unreplaced_def values_world_def split: sum.splits values_error.splits)
  then have "data_of tree = PDict (v_data m)"
    by (auto simp: values_validate_def values_init_def split: pyval.splits)
  then show "\<exists>tree. data_of tree = PDict (v_data m)" by blast
qed (simp add: unreplaced_def)

text \<open>What the three give about a reachable configuration.\<close>

lemma seen_goodD:
  "seen_good good c \<Longrightarrow> pred_option good (config_try_current c) \<and>
     list_all (\<lambda>d. pred_option good (dl_old d) \<and> good (dl_new d) \<and> pred_option good (dl_current d)) (c_log c) \<and>
     pred_option good (map_option snd (wait_answer seen (c_core c)))"
  by (cases "k_cache (c_core c)")
    (simp_all add: seen_good_def holds_good_def config_try_current_def wait_answer_def)

lemma refused_reload_answer:
  assumes "w_validate w tree = Inl (message, reports)"
  shows "answer_of (core_reload w (Inr tree) k) =
    Inl (InvalidError message (case reports of None \<Rightarrow> [] | Some r \<Rightarrow> r))"
  using assms
  by (simp add: core_reload_def load_then_install_def engine_load_def core_validate_def raised_def core_raise_def Let_def)

lemma refused_reload:
  assumes "w_validate (e_world env) tree = Inl (message, reports)"
  shows "fst (config_reload env (Inr tree) c) =
      Inl (CoreExn (InvalidError message (case reports of None \<Rightarrow> [] | Some r \<Rightarrow> r)))"
    "config_try_current (snd (config_reload env (Inr tree) c)) = config_try_current c"
    "config_generation (snd (config_reload env (Inr tree) c)) = config_generation c"
    "c_log (snd (config_reload env (Inr tree) c)) = c_log c"
  using refused_reload_answer [OF assms, of "c_core c"]
    load_then_install_refused(2,4) [where res = "Inr tree" and w = "e_world env" and op = Op_reload and k = "c_core c"]
    assms
  by (simp_all add: config_reload_def run_core_def Let_def core_reload_def config_try_current_def config_generation_def)

text \<open>With \<open>replace\<close>, which looks at the class only; and without a schema.\<close>

lemma every_model_read_is_an_instance:
  "config_reach (dataclass_env k model env) c \<Longrightarrow>
   pred_option (dataclass_instance model) (config_try_current c) \<and>
   list_all (\<lambda>d. dataclass_instance model (dl_new d)) (c_log c)"
  using seen_goodD [OF instances.reach_good [where k = k and model = model and env = env]] by (auto simp: list_all_iff)

lemma every_value_read_is_a_whole_document:
  "config_reach (unreplaced (env\<lparr>e_world := values_world schema announces\<rparr>)) c \<Longrightarrow>
   config_try_current c = Some m \<Longrightarrow> \<exists>tree. data_of tree = PDict (v_data m)"
  using seen_goodD [OF documents.reach_good [where env = env and schema = schema and announces = announces]] by fastforce

subsection \<open>Properties\<close>


text \<open>C12: \<open>reload()\<close> of a configuration with a dataclass schema is that schema's \<open>validate\<close> of the
  document: it installs what \<open>validate\<close> builds, as the next generation, or raises its message and
  leaves the model, the generation and the hooks' calls as they were.\<close>

theorem reload_is_validation:
  assumes "config_reach (dataclass_env k model env) c"
  shows "let (r, c') = config_reload (dataclass_env k model env) (Inr tree) c in
    (case dataclass_validate k model (data_of tree) of
       Inr m \<Rightarrow> r = Inr () \<and> config_current c' = Inr m \<and> config_generation c' = Suc (config_generation c)
     | Inl message \<Rightarrow> r = Inl (CoreExn (InvalidError (''ValidationError: '' @ message) [])) \<and>
         config_try_current c' = config_try_current c \<and> config_generation c' = config_generation c \<and>
         c_log c' = c_log c)"
proof -
  let ?env = "dataclass_env k model env"
  have inv: "config_inv c" by (rule config_inv_reach [OF assms])
  then have core: "core_inv (c_core c)" by (simp add: config_inv_def)
  have w: "w_validate (e_world ?env) tree =
      (case dataclass_validate k model (data_of tree) of
         Inr instance \<Rightarrow> Inr instance | Inl message \<Rightarrow> Inl (''ValidationError: '' @ message, None))"
    by (simp add: dataclass_env_def dataclass_world_def scrub_validation_def split: sum.split)
  show ?thesis
  proof (cases "dataclass_validate k model (data_of tree)")
    case (Inl message)
    with w have "w_validate (e_world ?env) tree = Inl (''ValidationError: '' @ message, None)" by simp
    from refused_reload [OF this] Inl show ?thesis by (simp add: split_def Let_def)
  next
    case (Inr m)
    with w have "w_validate (e_world ?env) tree = Inr m" by simp
    from config_reload_ok [OF inv this] load_then_install_ok(4) [OF core this, of Op_reload] Inr show ?thesis
      by (simp add: config_current_def config_generation_def)
  qed
qed

text \<open>A login of the small world, loaded from a document.\<close>

definition loaded_env :: "(json, pyval) env" where
  "loaded_env = \<lparr>e_world = \<lparr>w_validate = (\<lambda>_. Inl ([], None)), w_announces = (\<lambda>_. True)\<rparr>, e_differ = (\<lambda>_ _. []),
     e_hook_raises = (\<lambda>_ _ _. False), e_refuses = (\<lambda>_ _. None), e_spreads = (\<lambda>v. (None, [])),
     e_parses = Pair None, e_refuses_alias = (\<lambda>_ _. None), e_refuses_binding = (\<lambda>_ _. None),
     e_is_instance = (\<lambda>_. True), e_watch_fails = None\<rparr>"

definition login_config :: "(json, pyval) config" where
  "login_config = config_new ''Login'' ''login'' None
     \<lparr>sc_secret_paths = [''password''], sc_field_names = [''user'', ''password''], sc_is_values = False\<rparr> []"

abbreviation login_document :: json where
  "login_document \<equiv> Object [(''user'', String ''a'')]"

lemma login_validates:
  "dataclass_validate small_world ''Login'' (data_of login_document) = Inr (PInst ''Login'' [(''user'', PStr ''a'')])"
  by (simp add: data_of_def toml_datetime_def dataclass_validate_def build.simps coerce.simps Let_def one_class_def
      login_fields_def)

lemma login_reach: "config_reach env login_config"
  by (simp add: login_config_def config_here)

theorem reload_is_validation_witness:
  "config_current (snd (config_reload (dataclass_env small_world ''Login'' loaded_env) (Inr login_document) login_config)) =
     Inr (PInst ''Login'' [(''user'', PStr ''a'')])"
  using reload_is_validation [OF login_reach, of small_world "''Login''" loaded_env login_document]
  by (simp add: login_validates split_def Let_def)


end
