(* ===== verification/Runtime.thy ===== *)
theory Runtime
  imports Prelude
begin

section \<open>The one runtime of the stores: \<open>runtime.rs\<close>\<close>

text \<open>
  The stores whose client is asynchronous share one tokio runtime behind a \<open>OnceLock\<close>. A caller
  looks at the cell, builds a runtime when it is empty, sets the cell unless somebody was faster,
  and reads the cell back. Each of these is one step here, and the callers' steps come in any
  order; a runtime is its number in the order of building. Building may fail. At the end, the
  module behind \<open>dynamic_config.remote\<close> (\<open>remote.py\<close>), the door from the base wheel.
\<close>

subsection \<open>State and steps\<close>

datatype caller_state =
    Looks | Builds | Sets nat | Reads_back | Has nat | Build_failed string | Nothing_there

record cell =
  ru_cell :: "nat option"
  ru_built :: nat
  ru_dropped :: "nat list"
  ru_callers :: "caller_state list"

definition cell_new :: "nat \<Rightarrow> cell" where
  "cell_new n = \<lparr>ru_cell = None, ru_built = 0, ru_dropped = [], ru_callers = replicate n Looks\<rparr>"

definition caller_goes :: "nat \<Rightarrow> caller_state \<Rightarrow> cell \<Rightarrow> cell" where
  "caller_goes i p s = s\<lparr>ru_callers := (ru_callers s)[i := p]\<rparr>"

text \<open>\<open>builds\<close> is what the attempt to build answers, should it come to that.\<close>

definition runtime_step :: "string option \<Rightarrow> nat \<Rightarrow> cell \<Rightarrow> cell" where
  "runtime_step failure i s =
     (case ru_callers s ! i of
        Looks \<Rightarrow> (case ru_cell s of Some r \<Rightarrow> caller_goes i (Has r) s | None \<Rightarrow> caller_goes i Builds s)
      | Builds \<Rightarrow>
          (case failure of
             Some error \<Rightarrow> caller_goes i (Build_failed (''the remote store runtime could not start: '' @ error)) s
           | None \<Rightarrow> (caller_goes i (Sets (ru_built s)) s)\<lparr>ru_built := Suc (ru_built s)\<rparr>)
      | Sets r \<Rightarrow>
          (case ru_cell s of
             None \<Rightarrow> (caller_goes i Reads_back s)\<lparr>ru_cell := Some r\<rparr>
           | Some _ \<Rightarrow> (caller_goes i Reads_back s)\<lparr>ru_dropped := r # ru_dropped s\<rparr>)
      | Reads_back \<Rightarrow>
          (case ru_cell s of Some r \<Rightarrow> caller_goes i (Has r) s | None \<Rightarrow> caller_goes i Nothing_there s)
      | _ \<Rightarrow> s)"

text \<open>What a caller's \<open>runtime()\<close> has returned, if it has.\<close>

definition runtime_answer :: "caller_state \<Rightarrow> (string, nat) result option" where
  "runtime_answer p =
     (case p of
        Has r \<Rightarrow> Some (Inr r)
      | Build_failed e \<Rightarrow> Some (Inl e)
      | Nothing_there \<Rightarrow> Some (Inl ''the remote store runtime could not start'')
      | _ \<Rightarrow> None)"

definition started :: "cell \<Rightarrow> bool" where
  "started s \<longleftrightarrow> ru_cell s \<noteq> None"

inductive runtime_reach :: "nat \<Rightarrow> cell \<Rightarrow> bool" for n where
  runtime_here: "runtime_reach n (cell_new n)"
| runtime_next: "runtime_reach n s \<Longrightarrow> i < n \<Longrightarrow> runtime_reach n (runtime_step failure i s)"

subsection \<open>Who holds which runtime\<close>

fun held_by :: "caller_state \<Rightarrow> nat list" where
  "held_by (Sets r) = [r]"
| "held_by _ = []"

fun in_cell :: "nat option \<Rightarrow> nat list" where
  "in_cell None = []"
| "in_cell (Some r) = [r]"

text \<open>Every runtime that was built is in exactly one place: the cell, a caller's hands, or dropped.\<close>

definition everywhere :: "cell \<Rightarrow> nat list" where
  "everywhere s = in_cell (ru_cell s) @ ru_dropped s @ concat (map held_by (ru_callers s))"

fun caller_ok :: "nat option \<Rightarrow> caller_state \<Rightarrow> bool" where
  "caller_ok cell (Has r) = (cell = Some r)"
| "caller_ok cell Reads_back = (cell \<noteq> None)"
| "caller_ok cell Nothing_there = False"
| "caller_ok cell _ = True"

definition cell_inv :: "nat \<Rightarrow> cell \<Rightarrow> bool" where
  "cell_inv n s \<longleftrightarrow> length (ru_callers s) = n \<and> list_all (caller_ok (ru_cell s)) (ru_callers s) \<and>
     distinct (everywhere s) \<and> set (everywhere s) = {..<ru_built s} \<and> (ru_dropped s \<noteq> [] \<longrightarrow> ru_cell s \<noteq> None)"

lemma cell_inv_new: "cell_inv n (cell_new n)"
proof -
  have "concat (map held_by (replicate n Looks)) = []" by (induction n) simp_all
  then show ?thesis by (simp add: cell_inv_def cell_new_def everywhere_def list_all_iff)
qed

text \<open>One caller's change, with what the others hold left alone.\<close>

lemma everywhere_split:
  assumes "i < length (ru_callers s)"
  obtains before after where
    "everywhere s = in_cell (ru_cell s) @ ru_dropped s @ before @ held_by (ru_callers s ! i) @ after"
    "\<And>p. concat (map held_by ((ru_callers s)[i := p])) = before @ held_by p @ after"
proof
  let ?ps = "ru_callers s"
  show "everywhere s = in_cell (ru_cell s) @ ru_dropped s @ concat (map held_by (take i ?ps)) @
      held_by (?ps ! i) @ concat (map held_by (drop (Suc i) ?ps))"
    unfolding everywhere_def by (subst (1) id_take_nth_drop [OF assms]) simp
  show "concat (map held_by (?ps[i := p])) =
      concat (map held_by (take i ?ps)) @ held_by p @ concat (map held_by (drop (Suc i) ?ps))" for p
    by (subst upd_conv_take_nth_drop [OF assms]) simp
qed

lemma callers_ok_update:
  "list_all (caller_ok c) ps \<Longrightarrow> caller_ok c p \<Longrightarrow> list_all (caller_ok c) (ps[i := p])"
  using set_update_subset_insert [of ps i p] by (auto simp: list_all_iff)

lemma caller_ok_set: "caller_ok None p \<Longrightarrow> caller_ok (Some r) p"
  by (cases p) simp_all

lemma cell_inv_step:
  assumes inv: "cell_inv n s" and i: "i < n"
  shows "cell_inv n (runtime_step failure i s)"
proof -
  let ?ps = "ru_callers s"
  have len: "i < length ?ps" and ok: "list_all (caller_ok (ru_cell s)) ?ps"
    and pc: "caller_ok (ru_cell s) (?ps ! i)"
    using inv i by (auto simp: cell_inv_def list_all_length)
  obtain before rest where split:
      "everywhere s = in_cell (ru_cell s) @ ru_dropped s @ before @ held_by (?ps ! i) @ rest"
      "\<And>p. concat (map held_by (?ps[i := p])) = before @ held_by p @ rest"
    using everywhere_split [OF len] by blast
  have d: "distinct (in_cell (ru_cell s) @ ru_dropped s @ before @ held_by (?ps ! i) @ rest)"
    and e: "set (in_cell (ru_cell s) @ ru_dropped s @ before @ held_by (?ps ! i) @ rest) = {..<ru_built s}"
    and n: "length ?ps = n" and dropped: "ru_dropped s \<noteq> [] \<longrightarrow> ru_cell s \<noteq> None"
    using inv unfolding split(1) [symmetric] by (simp_all add: cell_inv_def)
  note facts = d e n dropped split(2) ok callers_ok_update
    and defs = runtime_step_def caller_goes_def cell_inv_def everywhere_def
  show ?thesis
  proof (cases "?ps ! i")
    case Looks
    with facts show ?thesis by (cases "ru_cell s") (simp_all add: defs)
  next
    case Builds
    with facts show ?thesis by (cases failure) (auto simp: defs lessThan_Suc)
  next
    case (Sets r)
    have later: "list_all (caller_ok (Some r)) (?ps[i := Reads_back])" if "ru_cell s = None"
      using ok that caller_ok_set by (intro callers_ok_update) (auto simp: list_all_iff)
    from Sets facts later show ?thesis by (cases "ru_cell s") (auto simp: defs)
  next
    case Reads_back
    with facts pc show ?thesis by (cases "ru_cell s") (simp_all add: defs)
  qed (use inv in \<open>simp_all add: runtime_step_def\<close>)
qed

lemma cell_inv_reach: "runtime_reach n s \<Longrightarrow> cell_inv n s"
  by (induction rule: runtime_reach.induct) (simp_all add: cell_inv_new cell_inv_step)

text \<open>Four steps a caller at most.\<close>

fun steps_left :: "caller_state \<Rightarrow> nat" where
  "steps_left Looks = 4"
| "steps_left Builds = 3"
| "steps_left (Sets _) = 2"
| "steps_left Reads_back = 1"
| "steps_left _ = 0"

lemma step_goes:
  "0 < steps_left (ru_callers s ! i) \<Longrightarrow>
   \<exists>p. ru_callers (runtime_step failure i s) = (ru_callers s)[i := p] \<and> steps_left p < steps_left (ru_callers s ! i)"
  by (cases "ru_callers s ! i"; cases "ru_cell s"; cases failure) (auto simp: runtime_step_def caller_goes_def)

lemma work_shrinks:
  assumes "i < length (ru_callers s)" "0 < steps_left (ru_callers s ! i)"
  shows "sum_list (map steps_left (ru_callers (runtime_step failure i s))) < sum_list (map steps_left (ru_callers s))"
proof -
  obtain p where p: "ru_callers (runtime_step failure i s) = (ru_callers s)[i := p]"
      "steps_left p < steps_left (ru_callers s ! i)"
    using step_goes [OF assms(2)] by blast
  have "sum_list (map steps_left ((ru_callers s)[i := p])) + steps_left (ru_callers s ! i) =
      sum_list (map steps_left (ru_callers s)) + steps_left p"
    by (rule sum_list_map_update [OF assms(1)])
  with p show ?thesis by simp
qed

lemma finished_answered: "steps_left p = 0 \<longleftrightarrow> runtime_answer p \<noteq> None"
  by (cases p) (simp_all add: runtime_answer_def)

text \<open>Callers that step one after another, each step one of a caller that has not returned.\<close>

fun schedule_runs :: "(string option \<times> nat) list \<Rightarrow> cell \<Rightarrow> cell option" where
  "schedule_runs [] s = Some s"
| "schedule_runs ((failure, i) # rest) s =
     (if i < length (ru_callers s) \<and> runtime_answer (ru_callers s ! i) = None
      then schedule_runs rest (runtime_step failure i s) else None)"

lemma schedule_bounded:
  "schedule_runs steps s = Some s' \<Longrightarrow>
   length steps + sum_list (map steps_left (ru_callers s')) \<le> sum_list (map steps_left (ru_callers s))"
proof (induction steps s rule: schedule_runs.induct)
  case (2 failure i rest s)
  then show ?case using work_shrinks [of i s failure] finished_answered [of "ru_callers s ! i"]
    by (auto split: if_splits)
qed simp

subsection \<open>Driving a future\<close>

text \<open>\<open>block_on\<close>: on the caller's thread, or, inside another runtime, on this one's workers with the
  caller waiting on a channel. A future that panics has no answer.\<close>

datatype 'a driven = Answered 'a | Refused_with string | Panicked

definition block_on :: "(string, nat) result \<Rightarrow> bool \<Rightarrow> 'a option \<Rightarrow> 'a driven" where
  "block_on runtime inside future =
     (case runtime of
        Inl error \<Rightarrow> Refused_with error
      | Inr _ \<Rightarrow>
          if \<not> inside then (case future of Some x \<Rightarrow> Answered x | None \<Rightarrow> Panicked)
          else (case future of
             Some x \<Rightarrow> Answered x
           | None \<Rightarrow> Refused_with ''the remote store task ended without an answer; it panicked''))"

lemma block_on_same_answer:
  "block_on (Inr r) inside (Some x) = Answered x"
  "block_on runtime True future \<noteq> Panicked"
  by (auto simp: block_on_def split: sum.split option.split)

subsection \<open>Which stores start it\<close>

datatype store_kind = Vault_store | Consul_store | Etcd_store | Firestore_store | Git_store | Nats_store | Redis_store | S3_store

definition needs_runtime :: "store_kind \<Rightarrow> bool" where
  "needs_runtime kind \<longleftrightarrow> kind \<in> set [Etcd_store, Nats_store, S3_store]"

text \<open>Constructing stores one after another on one thread, with a platform that can start threads.\<close>

definition construct_store :: "store_kind \<Rightarrow> nat option \<Rightarrow> nat option" where
  "construct_store kind cell =
     (if needs_runtime kind then (case cell of Some r \<Rightarrow> Some r | None \<Rightarrow> Some 0) else cell)"

lemma construct_stores:
  "fold construct_store kinds cell =
     (case cell of Some r \<Rightarrow> Some r | None \<Rightarrow> if list_ex needs_runtime kinds then Some 0 else None)"
  by (induction kinds arbitrary: cell) (auto simp: construct_store_def split: option.split)

text \<open>One caller alone does what \<open>construct_store\<close> says.\<close>

lemma one_caller_alone:
  "schedule_runs [(None, 0), (None, 0), (None, 0), (None, 0)] (cell_new 1) =
     Some \<lparr>ru_cell = Some 0, ru_built = 1, ru_dropped = [], ru_callers = [Has 0]\<rparr>"
  by (simp add: cell_new_def runtime_step_def caller_goes_def runtime_answer_def)

subsection \<open>What the cell promises\<close>

lemma caller_at:
  assumes "runtime_reach n s" "i < n"
  shows "caller_ok (ru_cell s) (ru_callers s ! i)"
  using cell_inv_reach [OF assms(1)] assms(2) by (auto simp: cell_inv_def list_all_length)

lemma nothing_held:
  assumes "runtime_answer p \<noteq> None"
  shows "held_by p = []"
  using assms by (cases p) (simp_all add: runtime_answer_def)

lemma all_answered_placed:
  assumes inv: "cell_inv n s" and all: "list_all (\<lambda>p. runtime_answer p \<noteq> None) (ru_callers s)"
  shows "distinct (in_cell (ru_cell s) @ ru_dropped s)"
    "set (in_cell (ru_cell s) @ ru_dropped s) = {..<ru_built s}"
proof -
  have "concat (map held_by (ru_callers s)) = []"
    using all nothing_held by (auto simp: list_all_iff)
  then have "everywhere s = in_cell (ru_cell s) @ ru_dropped s" by (simp add: everywhere_def)
  with inv show "distinct (in_cell (ru_cell s) @ ru_dropped s)"
    "set (in_cell (ru_cell s) @ ru_dropped s) = {..<ru_built s}" by (simp_all add: cell_inv_def)
qed

lemma cell_keeps:
  "ru_cell s = Some r \<Longrightarrow> ru_cell (runtime_step failure i s) = Some r"
  by (simp add: runtime_step_def caller_goes_def split: caller_state.split option.split)

lemma schedule_keeps:
  "schedule_runs steps s = Some s' \<Longrightarrow> ru_cell s = Some r \<Longrightarrow> ru_cell s' = Some r"
  by (induction steps s rule: schedule_runs.induct) (auto simp: cell_keeps split: if_splits)

text \<open>C27: However the callers of \<open>runtime()\<close> race, every one that is answered gets the runtime of the
  cell, so all get the same, and no later step of anybody replaces it; the last \<open>ok_or_else\<close> is
  never reached; and once all have been answered, every runtime that was built is either the
  cell's or was dropped exactly once: at most one lives.
\<close>

theorem one_runtime_for_everybody:
  assumes reach: "runtime_reach n s"
  shows "(\<forall>i < n. \<forall>r. runtime_answer (ru_callers s ! i) = Some (Inr r) \<longrightarrow>
            (\<forall>steps s'. schedule_runs steps s = Some s' \<longrightarrow> started s' \<and> ru_cell s' = Some r)) \<and>
         Nothing_there \<notin> set (ru_callers s) \<and>
         (list_all (\<lambda>p. runtime_answer p \<noteq> None) (ru_callers s) \<longrightarrow>
            distinct (in_cell (ru_cell s) @ ru_dropped s) \<and>
            set (in_cell (ru_cell s) @ ru_dropped s) = {..<ru_built s} \<and>
            length (ru_dropped s) = ru_built s - (if started s then 1 else 0))"
proof (intro conjI impI allI)
  fix i r steps s'
  assume i: "i < n" and a: "runtime_answer (ru_callers s ! i) = Some (Inr r)" and run: "schedule_runs steps s = Some s'"
  have "ru_callers s ! i = Has r"
    using a by (cases "ru_callers s ! i") (simp_all add: runtime_answer_def)
  with caller_at [OF reach i] have "ru_cell s = Some r" by simp
  from schedule_keeps [OF run this] show "started s'" "ru_cell s' = Some r" by (simp_all add: started_def)
next
  show "Nothing_there \<notin> set (ru_callers s)"
    using cell_inv_reach [OF reach] by (auto simp: cell_inv_def list_all_iff)
next
  assume all: "list_all (\<lambda>p. runtime_answer p \<noteq> None) (ru_callers s)"
  note placed = all_answered_placed [OF cell_inv_reach [OF reach] all]
  show "distinct (in_cell (ru_cell s) @ ru_dropped s)" by (rule placed)
  show "set (in_cell (ru_cell s) @ ru_dropped s) = {..<ru_built s}" by (rule placed)
  show "length (ru_dropped s) = ru_built s - (if started s then 1 else 0)"
    using distinct_card [OF placed(1)] placed(2) by (cases "ru_cell s") (auto simp: started_def)
qed

text \<open>Two callers that both found the cell empty: both build, the second one's is dropped.\<close>

definition race :: "(string option \<times> nat) list" where
  "race = [(None, 0), (None, 1), (None, 0), (None, 1), (None, 1), (None, 0), (None, 0), (None, 1)]"

definition raced :: cell where
  "raced = \<lparr>ru_cell = Some 1, ru_built = 2, ru_dropped = [0], ru_callers = [Has 1, Has 1]\<rparr>"

lemma schedule_reached:
  "schedule_runs steps s = Some s' \<Longrightarrow> runtime_reach n s \<Longrightarrow> runtime_reach n s'"
proof (induction steps s rule: schedule_runs.induct)
  case (2 failure i rest s)
  from 2 cell_inv_reach [OF 2(3)] show ?case
    by (auto simp: cell_inv_def runtime_reach.runtime_next split: if_splits)
qed simp

lemma race_runs: "schedule_runs race (cell_new 2) = Some raced"
  by (simp add: race_def raced_def cell_new_def numeral_2_eq_2 runtime_step_def caller_goes_def runtime_answer_def)

lemma raced_reached: "runtime_reach 2 raced"
  by (rule schedule_reached [OF race_runs runtime_here])

lemma one_runtime_for_everybody_witness:
  "Nothing_there \<notin> set (ru_callers raced) \<and> set (in_cell (ru_cell raced) @ ru_dropped raced) = {..<ru_built raced}"
  using one_runtime_for_everybody [OF raced_reached] by (simp add: raced_def runtime_answer_def)

text \<open>C28: No order of the callers' steps goes on for ever: from the start, at most four steps a caller are
  possible, and where nobody can step any more everybody has been answered.
\<close>

theorem runtime_calls_return:
  "(\<forall>steps s'. schedule_runs steps (cell_new n) = Some s' \<longrightarrow> length steps \<le> 4 * n \<and>
      ((\<forall>step. schedule_runs (steps @ [step]) (cell_new n) = None) \<longleftrightarrow>
         list_all (\<lambda>p. runtime_answer p \<noteq> None) (ru_callers s')))"
proof (intro allI impI)
  fix steps s'
  assume run: "schedule_runs steps (cell_new n) = Some s'"
  have total: "sum_list (map steps_left (ru_callers (cell_new n))) = 4 * n"
    by (simp add: cell_new_def sum_list_replicate)
  have more: "schedule_runs (xs @ [(failure, i)]) s = None \<longleftrightarrow> \<not> (i < length (ru_callers s') \<and> runtime_answer (ru_callers s' ! i) = None)"
    if "schedule_runs xs s = Some s'" for xs s failure i
    using that by (induction xs s rule: schedule_runs.induct) (auto split: if_splits)
  show "length steps \<le> 4 * n \<and> ((\<forall>step. schedule_runs (steps @ [step]) (cell_new n) = None) \<longleftrightarrow>
         list_all (\<lambda>p. runtime_answer p \<noteq> None) (ru_callers s'))"
    using schedule_bounded [OF run] total more [OF run] by (auto simp: list_all_length)
qed

lemma runtime_calls_return_witness:
  "length race \<le> 4 * 2 \<and> (\<forall>step. schedule_runs (race @ [step]) (cell_new 2) = None)"
proof -
  have "list_all (\<lambda>p. runtime_answer p \<noteq> None) (ru_callers raced)" by (simp add: raced_def runtime_answer_def)
  with runtime_calls_return [of 2] race_runs show ?thesis by blast
qed

subsection \<open>The door: \<open>remote.py\<close>\<close>

definition door_names :: "string list" where
  "door_names = [''S3'', ''SERVICE_ACCOUNT_TOKEN'', ''Auth'', ''Consul'', ''ConsulAuth'', ''Credential'', ''Etcd'',
     ''Firestore'', ''FirestoreAuth'', ''Git'', ''GitAuth'', ''GitKeys'', ''Nats'', ''NatsAuth'', ''Redis'',
     ''TlsConfig'', ''Vault'', ''__engine_version__'', ''__version__'', ''runtime_started'']"

definition remote_all :: "string list" where
  "remote_all = [''S3'', ''SERVICE_ACCOUNT_TOKEN'', ''Auth'', ''Consul'', ''ConsulAuth'', ''Credential'', ''Etcd'',
     ''Firestore'', ''FirestoreAuth'', ''Git'', ''GitAuth'', ''GitKeys'', ''Nats'', ''NatsAuth'', ''Redis'',
     ''TlsConfig'', ''Vault'', ''__engine_version__'', ''__version__'', ''runtime_started'']"

definition extra_name :: string where
  "extra_name = ''pip install dynamic-config-py[remote]''"

definition door_message :: string where
  "door_message = ''the Rust remote stores are a separate wheel, because a gRPC stack '' @
     ''and an HTTP client in the ordinary one would be in every install. '' @
     ''Install it with `'' @ extra_name @ ''`. A store written in Python needs '' @
     ''nothing extra: dynamic_config.RemoteSource is in this wheel.''"

text \<open>The installed package is its namespace, or absent; importing takes the names one by one, and the
  first that cannot be had is the import error of the whole module.\<close>

fun import_names :: "string list \<Rightarrow> (string \<rightharpoonup> 'v) \<Rightarrow> (string \<times> 'v) list option" where
  "import_names [] package = Some []"
| "import_names (name # names) package =
     (case package name of
        None \<Rightarrow> None
      | Some v \<Rightarrow> map_option ((#) (name, v)) (import_names names package))"

definition open_door :: "(string \<rightharpoonup> 'v) option \<Rightarrow> (string, (string \<times> 'v) list) result" where
  "open_door package =
     (case package of
        None \<Rightarrow> Inl door_message
      | Some ns \<Rightarrow> (case import_names door_names ns of None \<Rightarrow> Inl door_message | Some found \<Rightarrow> Inr found))"

lemma import_names_iff:
  "import_names names package = Some found \<longleftrightarrow>
   set names \<subseteq> dom package \<and> found = map (\<lambda>name. (name, the (package name))) names"
  by (induction names arbitrary: found) (auto split: option.splits)

lemma import_names_missing: "import_names names package = None \<longleftrightarrow> \<not> set names \<subseteq> dom package"
  using import_names_iff [of names package] by (cases "import_names names package") auto

lemma door_offers_all: "door_names = remote_all"
  by (simp add: door_names_def remote_all_def)

text \<open>The door opens exactly when the package has all of its \<open>__all__\<close>, and then onto the same objects.\<close>

lemma door_opens:
  "open_door package = Inr found \<longleftrightarrow>
   (\<exists>ns. package = Some ns \<and> set remote_all \<subseteq> dom ns \<and> found = map (\<lambda>name. (name, the (ns name))) remote_all)"
  by (auto simp: open_door_def door_offers_all import_names_iff import_names_missing split: option.splits)

end
