(* ===== verification/Testing.thy ===== *)
theory Testing
  imports Prelude
begin

section \<open>The pytest plugin: \<open>pytest.py\<close>\<close>

text \<open>
  The two fixtures. pytest's \<open>monkeypatch\<close> is not code of the repository: it is the parameters
  \<open>chdir\<close> and \<open>delenv\<close> over a state of the process of which \<open>environ\<close> and \<open>cwd\<close> read what the
  fixtures are about, and \<open>undo\<close> is what pytest runs after the test. What is used of it is
  its documentation, the hypotheses of the lemmas: \<open>delenv\<close> takes one name away, and \<open>undo\<close> restores
  what was changed through it.
\<close>

definition dynamic_config_workspace :: "(string \<Rightarrow> 'w \<Rightarrow> 'w) \<Rightarrow> string \<Rightarrow> 'w \<Rightarrow> string \<times> 'w" where
  "dynamic_config_workspace chdir tmp_path w = (tmp_path, chdir tmp_path w)"

definition starts_with_one_of :: "string list \<Rightarrow> string \<Rightarrow> bool" where
  "starts_with_one_of wanted name \<longleftrightarrow> list_ex (\<lambda>p. take (length p) name = p) wanted"

definition isolate ::
  "('w \<Rightarrow> string list) \<Rightarrow> (string \<Rightarrow> 'w \<Rightarrow> 'w) \<Rightarrow> string list \<Rightarrow> 'w \<Rightarrow> (string, unit) result \<times> 'w" where
  "isolate environ delenv wanted w =
     (if wanted = [] then (Inl ''dynamic_config_env needs at least one prefix'', w)
      else (Inr (), fold delenv (filter (starts_with_one_of wanted) (environ w)) w))"

lemma delenv_all:
  assumes "\<And>name w. environ (delenv name w) = removeAll name (environ w)"
  shows "environ (fold delenv names w) = filter (\<lambda>x. x \<notin> set names) (environ w)"
  using assms by (induction names arbitrary: w) (auto simp: removeAll_filter_not_eq filter_filter intro!: filter_cong)

lemma undo_all:
  assumes "\<And>name w. undo (delenv name w) = undo w"
  shows "undo (fold delenv names w) = undo w"
  using assms by (induction names arbitrary: w) simp_all

text \<open>The fixture removes exactly the names with one of the wanted, keeps the others and their
  order, and after the test the environment is what it was.\<close>

lemma isolate_hides_exactly_the_prefixes:
  assumes del: "\<And>name w. environ (delenv name w) = removeAll name (environ w)"
    and undo: "\<And>name w. undo (delenv name w) = undo w"
    and run: "isolate environ delenv wanted w = (outcome, w')"
  shows "undo w' = undo w \<and>
    (if wanted = [] then outcome = Inl ''dynamic_config_env needs at least one prefix'' \<and> w' = w
     else outcome = Inr () \<and> environ w' = filter (\<lambda>name. \<not> starts_with_one_of wanted name) (environ w))"
  using run delenv_all [of environ delenv, OF del] undo_all [of undo delenv, OF undo]
  by (auto simp: isolate_def intro!: filter_cong split: if_splits)

text \<open>The empty prefix is a prefix of every name: it empties the whole environment.\<close>

lemma empty_prefix_takes_everything:
  assumes "\<And>name w. environ (delenv name w) = removeAll name (environ w)"
  shows "environ (snd (isolate environ delenv ([] # wanted) w)) = []"
  using delenv_all [of environ delenv, OF assms]
  by (simp add: isolate_def starts_with_one_of_def filter_empty_conv)

text \<open>An environment as its names and the names pytest will put back.\<close>

lemma isolate_example:
  "isolate fst (\<lambda>name (now, gone). (removeAll name now, if name \<in> set now then name # gone else gone)) [''APP_'']
     ([''HOME'', ''APP_PORT'', ''APP''], []) = (Inr (), ([''HOME'', ''APP''], [''APP_PORT'']))"
  by (simp add: isolate_def starts_with_one_of_def)

end
