(* ===== verification/LoopHooks.thy ===== *)
theory LoopHooks
  imports AsyncHooks
begin

section \<open>Hooks on an event loop: the gate again, with tasks for jobs\<close>

text \<open>
  \<open>AsyncHooks\<close> has the asyncio dispatcher with its callbacks and tasks. Here: under \<open>latest\<close> and
  \<open>serial\<close> it implements the dispatcher of \<open>Gate\<close>, a turn of the loop being a \<open>submit\<close> with the
  start that follows it, and the end of a task a \<open>finished\<close> with its start; so what the two gates
  promise holds of tasks. Then what happens when installs stop, under every policy, and a hook that
  cancels itself.
\<close>

subsection \<open>A refinement of the executor's dispatcher\<close>

definition alive :: "('c \<times> task_status) list \<Rightarrow> 'c list" where
  "alive tasks = map fst (filter (\<lambda>(_, status). status \<noteq> Done) tasks)"

definition as_dispatcher :: "'c aio \<Rightarrow> ('c gate, 'c) dispatcher" where
  "as_dispatcher s =
     \<lparr>d_gate = a_gate s, d_pending = [], d_running = alive (a_tasks s),
      d_submitted = a_taken s, d_started = map fst (a_tasks s)\<rparr>"

lemma length_alive: "length (alive tasks) = card (unfinished tasks)"
  by (simp add: alive_def unfinished_def length_filter_conv_card split_def)

lemma unfinished_none: "unfinished tasks = {} \<longleftrightarrow> alive tasks = []"
  using length_alive [of tasks] by auto

lemma alive_append [simp]: "alive (tasks @ [(c, Active)]) = alive tasks @ [c]"
  by (simp add: alive_def)

lemma in_alive: "i \<in> unfinished tasks \<Longrightarrow> fst (tasks ! i) \<in> set (alive tasks)"
  by (force simp: alive_def unfinished_def split_def)

lemma map_fst_status: "i < length tasks \<Longrightarrow> map fst (tasks[i := (fst (tasks ! i), status)]) = map fst tasks"
  using list_update_id [of "map fst tasks" i] by (simp add: map_update)

lemma alive_done:
  assumes "i \<in> unfinished tasks" "card (unfinished tasks) = 1"
  shows "alive tasks = [fst (tasks ! i)]" "alive (tasks[i := (x, Done)]) = []"
proof -
  show "alive tasks = [fst (tasks ! i)]"
    using in_alive [OF assms(1)] length_alive [of tasks] assms(2) by (cases "alive tasks") auto
  have "unfinished tasks = {i}" using assms by (auto simp: card_1_singleton_iff)
  then have "length (alive (tasks[i := (x, Done)])) = 0" by (simp add: length_alive unfinished_done)
  then show "alive (tasks[i := (x, Done)]) = []" by simp
qed

text \<open>What the gate decides is started at once.\<close>

definition decided :: "'c option \<Rightarrow> ('g, 'c) dispatcher \<Rightarrow> ('g, 'c) dispatcher" where
  "decided r d = (case r of None \<Rightarrow> d | Some c \<Rightarrow> disp_start c d)"

lemma decided_reach:
  "disp_reach submit finished s d \<Longrightarrow> set (list_of_option r) \<subseteq> set (d_pending d) \<Longrightarrow>
   disp_reach submit finished s (decided r d)"
  by (cases r) (auto simp: decided_def intro: reach_step step_start)

lemma started_task:
  "as_dispatcher (aio_start_option r s) =
     decided r (as_dispatcher s\<lparr>d_pending := list_of_option r\<rparr>)"
  by (cases r) (simp_all add: decided_def aio_start_option_def aio_start_def as_dispatcher_def disp_start_def)

lemma turn_as_dispatcher:
  assumes "a_policy s \<noteq> Cancel_previous"
  shows "as_dispatcher (aio_on_loop c (s\<lparr>a_callbacks := rest, a_taken := a_taken s @ [c]\<rparr>)) =
    decided (snd (gate_submit (a_gate s) c)) (disp_submit gate_submit c (as_dispatcher s))"
  using assms by (simp add: aio_on_loop_def Let_def started_task)
    (simp add: as_dispatcher_def disp_submit_def Let_def)

lemma end_as_dispatcher:
  assumes "gated_inv s" "i < length (a_tasks s)" "snd (a_tasks s ! i) \<noteq> Done" "outcome \<noteq> Cancelled"
  shows "as_dispatcher (aio_task_ends i outcome s) =
    decided (snd (gate_finished (a_gate s))) (disp_finish gate_finished (fst (a_tasks s ! i)) (as_dispatcher s))"
proof -
  have i: "i \<in> unfinished (a_tasks s)" using assms by (simp add: unfinished_def)
  with assms(1) have "card (unfinished (a_tasks s)) = 1"
    by (auto simp: gated_inv_def split: if_splits)
  from alive_done [OF i this] assms(4) map_fst_status [OF assms(2), of Done] show ?thesis
    by (simp add: aio_task_ends_def Let_def started_task)
      (simp add: as_dispatcher_def disp_finish_def Let_def)
qed

lemma aio_step_simulated:
  assumes "aio_step s t" "gated_inv s"
  shows "disp_reach gate_submit gate_finished (as_dispatcher s) (as_dispatcher t)"
  using assms
proof (induction rule: aio_step.induct)
  case (aio_dispatched s c)
  show ?case by (simp add: aio_dispatch_def as_dispatcher_def reach_here)
next
  case (aio_loop_turn s)
  then obtain c rest where "a_callbacks s = c # rest" by (cases "a_callbacks s") auto
  moreover from this have "aio_turn s = aio_on_loop c (s\<lparr>a_callbacks := rest, a_taken := a_taken s @ [c]\<rparr>)"
    by (simp add: aio_turn_def)
  moreover have "a_policy s \<noteq> Cancel_previous" using aio_loop_turn by (auto simp: gated_inv_def)
  ultimately have turn: "as_dispatcher (aio_turn s) =
      decided (snd (gate_submit (a_gate s) c)) (disp_submit gate_submit c (as_dispatcher s))"
    by (simp add: turn_as_dispatcher)
  have "d_gate (as_dispatcher s) = a_gate s" by (simp add: as_dispatcher_def)
  then show ?case unfolding turn
    by (intro decided_reach [OF reach_step [OF reach_here step_submit]]) (simp add: disp_submit_def Let_def)
next
  case (aio_ended s i outcome)
  then have "outcome \<noteq> Cancelled" by (auto simp: gated_inv_def)
  note ends = end_as_dispatcher [OF aio_ended(5) aio_ended(2,3) this]
  have "fst (a_tasks s ! i) \<in> set (d_running (as_dispatcher s))"
    using in_alive [of i "a_tasks s"] aio_ended by (simp add: as_dispatcher_def unfinished_def)
  from reach_step [OF reach_here step_finish [OF this]] show ?case
    unfolding ends by (rule decided_reach) (simp add: disp_finish_def Let_def as_dispatcher_def)
next
  case (aio_closed s)
  show ?case by (simp add: aio_close_def as_dispatcher_def reach_here)
qed

lemma as_dispatcher_init: "as_dispatcher (aio_init policy) = dispatcher_init (gate_init policy)"
  by (simp add: as_dispatcher_def aio_init_def dispatcher_init_def alive_def)



subsection \<open>The newest call is the last task, or waits to be\<close>

text \<open>The calls of the tasks, then those that wait.\<close>

definition told :: "'c aio \<Rightarrow> 'c list" where
  "told s = map fst (a_tasks s) @ g_queue (a_gate s)"

definition newest_inv :: "'c aio \<Rightarrow> bool" where
  "newest_inv s \<longleftrightarrow> (a_taken s \<noteq> [] \<longrightarrow> told s \<noteq> [] \<and> last (told s) = last (a_taken s)) \<and>
     (a_policy s \<in> {Every, Cancel_previous} \<longrightarrow> g_queue (a_gate s) = []) \<and>
     g_policy (a_gate s) = a_policy s \<and> (\<not> g_running (a_gate s) \<longrightarrow> g_queue (a_gate s) = [])"

lemma map_fst_cancel_task [simp]: "map fst (cancel_task i tasks) = map fst tasks"
  by (simp add: cancel_task_def map_fst_status)

lemma map_fst_cancel_tasks [simp]: "map fst (fold cancel_task is tasks) = map fst tasks"
  by (induction "is" arbitrary: tasks) simp_all

lemma newest_inv_on_loop:
  "newest_inv s \<Longrightarrow> newest_inv (aio_on_loop c (s\<lparr>a_callbacks := rest, a_taken := a_taken s @ [c]\<rparr>))"
  by (cases "a_policy s")
    (auto simp: newest_inv_def told_def aio_on_loop_def Let_def gate_submit_def aio_start_option_def aio_start_def)

lemma told_ends:
  "i < length (a_tasks s) \<Longrightarrow> told (aio_task_ends i outcome s) = told s"
  by (cases "g_queue (a_gate s)")
    (simp_all add: told_def aio_task_ends_def Let_def gate_finished_def aio_start_option_def aio_start_def map_fst_status)

lemma newest_inv_ends:
  assumes "newest_inv s" "i < length (a_tasks s)"
  shows "newest_inv (aio_task_ends i outcome s)"
proof -
  have "a_taken (aio_task_ends i outcome s) = a_taken s \<and> a_policy (aio_task_ends i outcome s) = a_policy s \<and>
      g_policy (a_gate (aio_task_ends i outcome s)) = g_policy (a_gate s) \<and>
      (g_queue (a_gate s) = [] \<longrightarrow> g_queue (a_gate (aio_task_ends i outcome s)) = []) \<and>
      (\<not> g_running (a_gate (aio_task_ends i outcome s)) \<longrightarrow>
         \<not> g_running (a_gate s) \<or> g_queue (a_gate (aio_task_ends i outcome s)) = [])"
    by (cases "g_queue (a_gate s)")
      (simp_all add: aio_task_ends_def Let_def gate_finished_def aio_start_option_def aio_start_def)
  with assms told_ends [OF assms(2), of outcome] show ?thesis by (auto simp: newest_inv_def)
qed

lemma newest_inv_step: "aio_step s t \<Longrightarrow> newest_inv s \<Longrightarrow> newest_inv t"
proof (induction rule: aio_step.induct)
  case (aio_dispatched s c)
  then show ?case by (simp add: newest_inv_def told_def aio_dispatch_def)
next
  case (aio_loop_turn s)
  then show ?case by (simp add: aio_turn_def newest_inv_on_loop split: list.split)
next
  case (aio_ended s i outcome)
  then show ?case by (simp add: newest_inv_ends)
next
  case (aio_closed s)
  then show ?case by (simp add: newest_inv_def told_def aio_close_def)
qed

lemma newest_inv_reach: "aio_reach policy s \<Longrightarrow> newest_inv s \<and> a_policy s = policy"
proof (induction rule: aio_reach.induct)
  case aio_here
  show ?case by (simp add: newest_inv_def told_def aio_init_def gate_init_def)
next
  case (aio_next s t)
  have "a_policy t = a_policy s"
    using aio_next(2)
    by cases (auto simp: aio_dispatch_def aio_turn_def aio_on_loop_def aio_task_ends_def aio_close_def Let_def
        aio_start_option_def aio_start_def split: list.split option.split)
  with aio_next newest_inv_step show ?case by auto
qed

subsection \<open>When installs stop\<close>

text \<open>The loop alone: its callbacks and the ends of its tasks, counted.\<close>

inductive loop_drain :: "nat \<Rightarrow> 'c aio \<Rightarrow> 'c aio \<Rightarrow> bool" where
  loop_none: "loop_drain 0 s s"
| loop_turns: "loop_drain n s t \<Longrightarrow> a_open t \<Longrightarrow> a_callbacks t \<noteq> [] \<Longrightarrow> loop_drain (Suc n) s (aio_turn t)"
| loop_ends: "loop_drain n s t \<Longrightarrow> a_open t \<Longrightarrow> i < length (a_tasks t) \<Longrightarrow> snd (a_tasks t ! i) \<noteq> Done \<Longrightarrow>
     (outcome = Cancelled \<longrightarrow> snd (a_tasks t ! i) = Cancelling) \<Longrightarrow>
     loop_drain (Suc n) s (aio_task_ends i outcome t)"

definition loop_work :: "'c aio \<Rightarrow> nat" where
  "loop_work s = 3 * length (a_callbacks s) + 2 * length (g_queue (a_gate s)) + length (alive (a_tasks s))"

definition loop_quiet :: "'c aio \<Rightarrow> bool" where
  "loop_quiet s \<longleftrightarrow> a_callbacks s = [] \<and> unfinished (a_tasks s) = {}"

lemma alive_status:
  assumes "i < length tasks"
  shows "length (alive (tasks[i := (x, status)])) + (if snd (tasks ! i) = Done then 0 else 1) =
    length (alive tasks) + (if status = Done then 0 else 1)"
  by (subst (3) id_take_nth_drop [OF assms], subst upd_conv_take_nth_drop [OF assms])
    (cases "tasks ! i", simp add: alive_def)

lemma alive_cancel_task [simp]: "length (alive (cancel_task i tasks)) = length (alive tasks)"
  using alive_status [of i tasks "fst (tasks ! i)" Cancelling] by (auto simp: cancel_task_def)

lemma alive_cancel_tasks [simp]: "length (alive (fold cancel_task is tasks)) = length (alive tasks)"
  by (induction "is" arbitrary: tasks) simp_all

lemma turn_work:
  "a_callbacks s \<noteq> [] \<Longrightarrow> loop_work (aio_turn s) < loop_work s"
  by (cases "a_callbacks s")
    (auto simp: aio_turn_def aio_on_loop_def loop_work_def Let_def gate_submit_def aio_start_option_def aio_start_def)

lemma end_work:
  "i < length (a_tasks s) \<Longrightarrow> snd (a_tasks s ! i) \<noteq> Done \<Longrightarrow> loop_work (aio_task_ends i outcome s) < loop_work s"
  using alive_status [of i "a_tasks s" "fst (a_tasks s ! i)" Done]
  by (cases "g_queue (a_gate s)")
    (auto simp: aio_task_ends_def loop_work_def Let_def gate_finished_def aio_start_option_def aio_start_def)

lemma loop_drain_work: "loop_drain n s t \<Longrightarrow> n + loop_work t \<le> loop_work s"
proof (induction rule: loop_drain.induct)
  case (loop_turns n s t)
  then show ?case using turn_work [of t] by linarith
next
  case (loop_ends n s t i outcome)
  then show ?case using end_work [of i t outcome] by linarith
qed simp

lemma loop_drain_reach: "loop_drain n s t \<Longrightarrow> aio_reach policy s \<Longrightarrow> aio_reach policy t"
  by (induction rule: loop_drain.induct) (blast intro: aio_next aio_loop_turn aio_ended)+

lemma loop_drain_history:
  "loop_drain n s t \<Longrightarrow> a_taken t @ a_callbacks t = a_taken s @ a_callbacks s \<and> a_open t = a_open s"
proof (induction rule: loop_drain.induct)
  case (loop_turns n s t)
  then show ?case
    by (cases "a_callbacks t") (simp_all add: aio_turn_def aio_on_loop_def Let_def aio_start_option_def aio_start_def split: option.split)
next
  case (loop_ends n s t i outcome)
  then show ?case
    by (simp add: aio_task_ends_def Let_def aio_start_option_def aio_start_def split: option.split)
qed simp

lemmas loop_drain_taken = loop_drain_history [THEN conjunct1]
  and loop_drain_open = loop_drain_history [THEN conjunct2]

lemma quiet_queue:
  assumes "aio_reach policy s" "loop_quiet s"
  shows "g_queue (a_gate s) = []"
proof (cases "policy = Latest \<or> policy = Serial")
  case True
  with gated_inv_reach [OF assms(1)] have "gated_inv s" by auto
  with assms(2) show ?thesis by (auto simp: gated_inv_def loop_quiet_def split: if_splits)
next
  case False
  with newest_inv_reach [OF assms(1)] show ?thesis by (cases policy) (auto simp: newest_inv_def)
qed

lemma cancel_queue: "aio_reach Cancel_previous s \<Longrightarrow> g_queue (a_gate s) = []"
  using newest_inv_reach [of Cancel_previous s] by (simp add: newest_inv_def)

text \<open>Whatever the policy: the loop is done within \<open>loop_work\<close> turns and ends, and its last task is
  then the newest call that \<open>dispatch\<close> was given; under \<open>cancel_previous\<close> as soon as the callbacks
  have run.\<close>

lemma loop_work_bounds: "loop_drain n s t \<Longrightarrow> n \<le> loop_work s"
  using loop_drain_work [of n s t] by linarith

lemma loop_newest:
  assumes "aio_reach policy s" "loop_drain n s t" "a_taken s @ a_callbacks s \<noteq> []" "a_callbacks t = []"
    and settled: "loop_quiet t \<or> policy = Cancel_previous"
  shows "a_tasks t \<noteq> [] \<and> fst (last (a_tasks t)) = last (a_taken s @ a_callbacks s)"
proof -
  have reach: "aio_reach policy t" by (rule loop_drain_reach [OF assms(2,1)])
  have "g_queue (a_gate t) = []" using settled quiet_queue [OF reach] cancel_queue [of t] reach by auto
  moreover have "a_taken t = a_taken s @ a_callbacks s"
    using loop_drain_taken [OF assms(2)] assms(4) by simp
  ultimately have "map fst (a_tasks t) \<noteq> [] \<and> last (map fst (a_tasks t)) = last (a_taken s @ a_callbacks s)"
    using newest_inv_reach [OF reach] assms(3) by (simp add: newest_inv_def told_def)
  then show ?thesis by (auto simp: last_map)
qed

subsection \<open>A hook that is cancelled by somebody else\<close>

text \<open>\<open>run\<close> lets a \<open>CancelledError\<close> pass without \<open>gate.finished()\<close>, because \<open>cancel_previous\<close> has
  started the successor. Under \<open>latest\<close> and \<open>serial\<close> nobody has: a hook that awaits something that was
  cancelled, or whose task the program cancels, ends the same way, and its gate stays as it was.\<close>

definition stuck_gate :: "'c aio \<Rightarrow> bool" where
  "stuck_gate s \<longleftrightarrow> a_policy s \<in> {Latest, Serial} \<and> g_policy (a_gate s) = a_policy s \<and>
     g_running (a_gate s) \<and> unfinished (a_tasks s) = {}"

lemma own_cancellation_sticks:
  assumes "aio_reach policy s" "policy = Latest \<or> policy = Serial"
    "i < length (a_tasks s)" "snd (a_tasks s ! i) \<noteq> Done"
  shows "stuck_gate (aio_task_ends i Cancelled s)"
proof -
  have inv: "gated_inv s" using gated_inv_reach [OF assms(1)] assms(2) by auto
  have "i \<in> unfinished (a_tasks s)" using assms by (simp add: unfinished_def)
  with inv have "unfinished (a_tasks s) = {i}" "g_running (a_gate s)"
    by (auto simp: gated_inv_def card_1_singleton_iff split: if_splits)
  with inv show ?thesis by (simp add: stuck_gate_def gated_inv_def aio_task_ends_def unfinished_done)
qed

lemma stuck_gate_step: "aio_step s t \<Longrightarrow> stuck_gate s \<Longrightarrow> stuck_gate t \<and> a_tasks t = a_tasks s"
proof (induction rule: aio_step.induct)
  case (aio_loop_turn s)
  then show ?case
    by (cases "a_callbacks s")
      (auto simp: stuck_gate_def aio_turn_def aio_on_loop_def Let_def gate_submit_def aio_start_option_def)
next
  case (aio_ended s i outcome)
  then show ?case by (auto simp: stuck_gate_def unfinished_def)
qed (auto simp: stuck_gate_def aio_dispatch_def aio_close_def)

lemma cancelled_hook_is_silenced:
  assumes "aio_reach policy s" "policy = Latest \<or> policy = Serial"
    "i < length (a_tasks s)" "snd (a_tasks s ! i) \<noteq> Done" "aio_step\<^sup>*\<^sup>* (aio_task_ends i Cancelled s) t"
  shows "a_tasks t = a_tasks (aio_task_ends i Cancelled s)"
proof -
  have "stuck_gate t \<and> a_tasks t = a_tasks (aio_task_ends i Cancelled s)"
    using assms(5)
    by induction (use own_cancellation_sticks [OF assms(1-4)] stuck_gate_step in auto)
  then show ?thesis by simp
qed

end
