(* ===== verification/Readers.thy ===== *)
theory Readers
  imports Declarative Asking
begin

section \<open>A decorated class as its configuration\<close>

text \<open>
  The two readers of \<open>Configured\<close> that ask (\<open>source_of\<close>, \<open>explain\<close>), beside the three of
  \<open>Declarative\<close>, and what a program that only knows the class sees of the configuration behind it.
\<close>

definition class_source_of ::
  "('t, 'm) env \<Rightarrow> ('t, 's) reads \<Rightarrow> string \<Rightarrow> ('t, 'm) decorated \<Rightarrow>
   (reader_error, origin option) result \<times> ('t, 'm) decorated" where
  "class_source_of env reads path = class_runs ''source_of'' (dynamic_source_of reads path env)"

definition class_explain ::
  "('t, 'm) env \<Rightarrow> ('t, 's) reads \<Rightarrow> string \<Rightarrow> ('t, 'm) decorated \<Rightarrow>
   (reader_error, explanation) result \<times> ('t, 'm) decorated" where
  "class_explain env reads path = class_runs ''explain'' (dynamic_explain reads path env)"

text \<open>A class that was not decorated answers none of the five, and stays as it is.\<close>

lemma undecorated_class_has_no_readers:
  assumes "dm_config model = None"
  shows "\<exists>name. class_current model = Inl (Attribute_error name)"
    "\<exists>name. class_try_current model = Inl (Attribute_error name)"
    "\<exists>name. class_reload env res model = (Inl (Attribute_error name), model)"
    "\<exists>name. class_source_of env reads path model = (Inl (Attribute_error name), model)"
    "\<exists>name. class_explain env reads path model = (Inl (Attribute_error name), model)"
  using assms
  by (simp_all add: class_current_def class_try_current_def class_reload_def class_source_of_def class_explain_def
      class_runs_def class_config_def)

lemma runs_on_attached:
  assumes "reader \<in> set (tl attached_names)"
  shows "class_runs reader work (attach c model) =
    (map_sum Reader_failed id (fst (work c)), attach (snd (work c)) model)"
proof -
  have "(attach c model)\<lparr>dm_config := Some c1\<rparr> = attach c1 model" for c1 by (simp add: attach_def)
  then show ?thesis by (simp add: class_runs_def attached_reader [OF assms] split_def Let_def)
qed

lemma attached_readers: "set [''current'', ''try_current'', ''reload'', ''source_of'', ''explain''] \<subseteq> set (tl attached_names)"
  by (simp add: attached_names_def)

text \<open>A reload through a decorated class installs what the schema builds, the class reads it, and asking
  through the class changes nothing a reader sees.\<close>

lemma decorated_class_reads_its_configuration:
  assumes inv: "config_inv c" and valid: "w_validate (e_world env) tree = Inr m"
  shows "\<exists>c'. class_reload env (Inr tree) (attach c model) = (Inr (), attach c' model) \<and>
    class_current (attach c' model) = Inr m \<and> class_try_current (attach c' model) = Inr (Some m)"
proof -
  note reload = config_reload_ok [OF inv valid]
  have "class_reload env (Inr tree) (attach c model) = (Inr (), attach (snd (config_reload env (Inr tree) c)) model)"
    using attached_readers by (simp add: class_reload_def runs_on_attached reload)
  moreover have "c_cached (snd (config_reload env (Inr tree) c)) = Some m" by (simp add: reload)
  ultimately show ?thesis
    using attached_readers
    by (auto simp: class_current_def class_try_current_def attached_reader config_current_def config_try_current_def)
qed

lemma asking_through_the_class:
  "class_try_current (snd (class_explain env reads path (attach c model))) = class_try_current (attach c model)"
  "class_try_current (snd (class_source_of env reads path (attach c model))) = class_try_current (attach c model)"
  using attached_readers asking_only_fixes_the_sources [where c = c and reads = reads and path = path and env = env]
  by (simp_all add: class_explain_def class_source_of_def runs_on_attached class_try_current_def attached_reader
      undisturbed_def)

end
