(* ===== verification/Finalizing.thy ===== *)
theory Finalizing
  imports Core Closing
begin

section \<open>Loads while the interpreter closes: \<open>gate.rs\<close> under \<open>inner.rs\<close>\<close>

text \<open>
  \<open>Core\<close> has the gate of \<open>Closing\<close> open. Here a validation and the commit of the engine's hook ask
  it, each for itself, because the flag may go up between the two: \<open>admits\<close> is what \<open>attach\<close> was
  answered, and it never opens again. What the engine does on its own side of the gate, its install
  and the count of refusals, happens either way.
\<close>

definition gated_validate ::
  "bool \<Rightarrow> ('t, 'm) world \<Rightarrow> 't \<Rightarrow> ('t, 'm, 'h) core \<Rightarrow> (core_error, unit) result \<times> ('t, 'm, 'h) core" where
  "gated_validate admits w tree k =
     (if admits then core_validate w tree k
      else (Inl (EngineError ''invalid'' ''the interpreter is shutting down; the reload was skipped''), k))"

definition gated_load ::
  "bool \<Rightarrow> ('t, 'm) world \<Rightarrow> lifecycle \<Rightarrow> 't resolution \<Rightarrow> ('t, 'm, 'h) core \<Rightarrow>
   (core_error, 't) result \<times> ('t, 'm, 'h) core" where
  "gated_load admits w op res k =
     (let refused = (\<lambda>k1. if w_announces w op then k1\<lparr>k_refusals := Suc (k_refusals k1)\<rparr> else k1) in
      case res of
        Inl (kind, message) \<Rightarrow> (Inl (EngineError kind message), refused k)
      | Inr tree \<Rightarrow>
          (case gated_validate admits w tree k of
             (Inl e, k1) \<Rightarrow> (Inl e, refused k1)
           | (Inr _, k1) \<Rightarrow> (Inr tree, k1)))"

text \<open>The engine's hook: a refused \<open>attach\<close> drops the commit.\<close>

definition gated_install ::
  "bool \<Rightarrow> ('t, 'm) world \<Rightarrow> 't \<Rightarrow> ('t, 'm, 'h) core \<Rightarrow> ('t, 'm, 'h) core \<times> ('h, 'm) call list" where
  "gated_install admits w tree k =
     (if admits then engine_install w tree k
      else case k_engine k of
        Building _ \<Rightarrow> (k, [])
      | Ready srcs previous \<Rightarrow> (k\<lparr>k_engine := Ready srcs (Some tree)\<rparr>, []))"

definition gated_watch_reload ::
  "bool \<Rightarrow> bool \<Rightarrow> ('t, 'm) world \<Rightarrow> 't resolution \<Rightarrow> ('t, 'm, 'h) core \<Rightarrow> (unit, 't, 'm, 'h) answer" where
  "gated_watch_reload validates commits w res k =
     (case gated_load validates w Op_watch res (core_dynamic k) of
        (Inl _, k1) \<Rightarrow> (Inr (), k1, [])
      | (Inr tree, k1) \<Rightarrow> (Inr (), gated_install commits w tree k1))"

text \<open>A reload that a Python thread asks for, with the gate open or closed throughout.\<close>

definition gated_reload ::
  "bool \<Rightarrow> ('t, 'm) world \<Rightarrow> 't resolution \<Rightarrow> ('t, 'm, 'h) core \<Rightarrow> (unit, 't, 'm, 'h) answer" where
  "gated_reload admits w res k =
     (case gated_load admits w Op_reload res (core_dynamic k) of
        (Inl e, k1) \<Rightarrow> raised e k1
      | (Inr tree, k1) \<Rightarrow> install_and_publish w tree k1)"

text \<open>Behind an open gate nothing is different.\<close>

lemma open_gate [simp]:
  "gated_validate True = core_validate"
  by (intro ext) (simp add: gated_validate_def)

lemma open_gate_load [simp]: "gated_load True = engine_load"
  by (intro ext) (simp only: gated_load_def engine_load_def open_gate)

lemma open_gate_install [simp]: "gated_install True = engine_install"
  by (intro ext) (simp add: gated_install_def)

lemma open_gate_reloads:
  "gated_watch_reload True True w res k = core_watch_reload w res k"
  "gated_reload True w res k = core_reload w res k"
  by (simp_all only: gated_watch_reload_def core_watch_reload_def gated_reload_def core_reload_def
      load_then_install_def open_gate_load open_gate_install)

subsection \<open>After the flag\<close>

definition visible :: "('t, 'm, 'h) core \<Rightarrow> 'm option \<times> nat \<times> ('t, 'm) staged option \<times> nat \<times> (nat \<times> 'h) list" where
  "visible k = (k_cache k, k_generation k, k_staged k, k_last_committed k, k_hooks k)"

datatype 't late = Watched "'t resolution" | Asked "'t resolution"

fun late_step :: "('t, 'm) world \<Rightarrow> 't late \<Rightarrow> ('t, 'm, 'h) core \<Rightarrow> (unit, 't, 'm, 'h) answer" where
  "late_step w (Watched res) = gated_watch_reload False False w res"
| "late_step w (Asked res) = gated_reload False w res"

fun late_run :: "('t, 'm) world \<Rightarrow> 't late list \<Rightarrow> ('t, 'm, 'h) core \<Rightarrow>
    (core_error, unit) result list \<times> ('t, 'm, 'h) core \<times> ('h, 'm) call list" where
  "late_run w [] k = ([], k, [])"
| "late_run w (l # ls) k =
     (case late_step w l k of (r, k1, calls) \<Rightarrow>
        (case late_run w ls k1 of (rs, k2, later) \<Rightarrow> (r # rs, k2, calls @ later)))"

text \<open>A watcher's thread goes on as if nothing had been; a Python caller is told.\<close>

fun late_answer :: "'t late \<Rightarrow> (core_error, unit) result \<Rightarrow> bool" where
  "late_answer (Watched res) r \<longleftrightarrow> r = Inr ()"
| "late_answer (Asked res) r \<longleftrightarrow> isl r"

lemma visible_updates [simp]:
  "visible (k\<lparr>k_refusals := n\<rparr>) = visible k"
  "visible (k\<lparr>k_reports := r\<rparr>) = visible k"
  "visible (k\<lparr>k_engine := e\<rparr>) = visible k"
  "visible (core_dynamic k) = visible k"
  by (simp_all add: visible_def core_dynamic_def split: engine.split)

lemma engine_current_updates [simp]:
  "engine_current (k\<lparr>k_refusals := n\<rparr>) = engine_current k"
  "engine_current (k\<lparr>k_reports := r\<rparr>) = engine_current k"
  "engine_current (core_dynamic k) = engine_current k"
  by (simp_all add: engine_current_def core_dynamic_def split: engine.split)

lemma closed_load:
  "\<exists>e k1. gated_load False w op res k = (Inl e, k1) \<and> visible k1 = visible k \<and> engine_current k1 = engine_current k"
  by (cases res) (auto simp: gated_load_def gated_validate_def Let_def)

lemma raised_silent:
  "\<exists>e' k1. raised e k = (Inl e', k1, []) \<and> visible k1 = visible k \<and> engine_current k1 = engine_current k"
  by (simp add: raised_def core_raise_def split: core_error.split)

lemma late_step_silent:
  "\<exists>r k1. late_step w l k = (r, k1, []) \<and> visible k1 = visible k \<and> engine_current k1 = engine_current k \<and>
     late_answer l r"
proof (cases l)
  case (Watched res)
  with closed_load [of w Op_watch res "core_dynamic k"] show ?thesis by (auto simp: gated_watch_reload_def)
next
  case (Asked res)
  with closed_load [of w Op_reload res "core_dynamic k"] obtain e k1 where
    step: "late_step w l k = raised e k1" "visible k1 = visible k" "engine_current k1 = engine_current k"
    by (auto simp: gated_reload_def)
  from step(1) raised_silent [of e k1] obtain e' k2 where
    "late_step w l k = (Inl e', k2, [])" "visible k2 = visible k1" "engine_current k2 = engine_current k1"
    by (metis (no_types, lifting))
  with step(2,3) Asked show ?thesis by simp
qed


end
