(* ===== verification/Spec2Isabelle.thy ===== *)
theory Spec2Isabelle
  imports Values Diagnostics Dispatch Gate AsyncHooks Core Lifetime Config Group Executor Notifier Dataclasses
    Msgspec Remote Pydantic Declarative Wheel Compiled Closing Telemetry Events Commits Changed Convert Scrub LogBridge Slots Tls GroupAsync
    Asking Pins Models Loaded Runtime Testing LoopHooks
    Readers Finalizing
begin

text \<open>
  \<^bold>\<open>The program.\<close> Two Python packages over one Rust engine. \<open>dynamic-config-python\<close> is the library:
  a \<open>DynamicConfig\<close> (\<open>_config.py\<close>) names sources, resolves them through a native object
  (\<open>src/config/inner.rs\<close>, \<open>src/config/mod.rs\<close>), validates the resolved tree against a schema and
  publishes the model; readers read the model, watchers reload it, hooks and awaiting tasks learn of
  it. \<open>dynamic-config-python-remote\<close> adds eight remote stores. The engine (crate \<open>dynamic_config\<close>),
  the store clients and the schema libraries are not in the repository; they are arguments of the
  definitions, and where a property relies on them it says so in a hypothesis.

  \<^bold>\<open>How the parts interact.\<close> A load or a reload asks the engine for a tree, hands it to
  \<open>Inner.validate\<close>, which calls the schema (\<open>Dataclasses\<close>, \<open>Pydantic\<close>, \<open>Msgspec\<close>, \<open>Values\<close>) and
  stages a pair of model and number, and \<open>Inner.commit\<close> publishes the pair at most once: the Python
  cache, the generation, the hooks. A hook is wrapped by \<open>_wrap_hook\<close> (\<open>Dispatch\<close>), runs in the
  pool behind a gate (\<open>Gate\<close>, \<open>Executor\<close>) or on an event loop (\<open>AsyncHooks\<close>), and is undone by
  the handles and the exit sweep (\<open>Lifetime\<close>). A bump of the generation wakes the notifier thread
  (\<open>Notifier\<close>, \<open>Changed\<close>, \<open>Events\<close>). A remote store fetches a document into the engine's slot
  (\<open>Remote\<close>, \<open>Wheel\<close>, \<open>Compiled\<close>). Groups (\<open>Group\<close>) drive several configurations.

  \<^bold>\<open>Theories and the code they model.\<close>
  \<^item> \<open>Prelude\<close>, \<open>PyValue\<close>: results, loops that stop at the first exception, Python's strings and
    dictionaries, and values with their renderings; no component of their own.
  \<^item> \<open>Core\<close>: \<open>inner.rs\<close> and \<open>mod.rs\<close>, one operation at a time: the record of the shared state
    (staged pair, last committed number, cache, generation, prepared commits, hooks, watcher), and
    validate, commit, replace, load, reload, prepare and discard, release.
  \<^item> \<open>Commits\<close>: the same validate and commit on several threads, one access of the shared state
    after another, as executable schedules, with the interpreter lock or without it.
  \<^item> \<open>Config\<close>, \<open>Declarative\<close>, \<open>Readers\<close>: \<open>_config.py\<close> over \<open>Core\<close>; \<open>schema_for\<close>, \<open>from_settings\<close> and the class
    decorator (\<open>_schema.py\<close>, \<open>_settings.py\<close>, \<open>_decorator.py\<close>).
  \<^item> \<open>Asking\<close>: \<open>errors.rs\<close>, \<open>handles.rs\<close>, the diagnostics, the durations and the collector's methods of
    \<open>mod.rs\<close>, and the methods of \<open>_config.py\<close> and \<open>_diagnostics.py\<close> over them. \<open>Pins\<close>: the mirror of
    the override layer with the objects it holds in a heap.
  \<^item> \<open>Models\<close>, \<open>Loaded\<close>: what a schema promises (locale \<open>schema_contract\<close>) and what every reader, waiter
    and hook gets from it, interpreted on the dataclass schema and on \<open>Values\<close> over \<open>Convert\<close>; a whole
    reload from the engine's tree to \<open>current()\<close>.
  \<^item> \<open>Group\<close>, \<open>GroupAsync\<close>: \<open>_group.py\<close>: the loops over members, the threads of \<open>_in_parallel\<close>, the tasks
    of \<open>_each_async\<close>, the two-phase reload, the watching blocks; and the awaited calls.
  \<^item> \<open>Dispatch\<close>, \<open>Gate\<close>, \<open>AsyncHooks\<close>, \<open>LoopHooks\<close>, \<open>Executor\<close>, \<open>Lifetime\<close>: \<open>_dispatch.py\<close>, \<open>_Gate\<close> and
    the two dispatchers of \<open>_config.py\<close>, the loop's being a refinement of the pool's; \<open>_executor.py\<close>,
    \<open>_lifetime.py\<close>.
  \<^item> \<open>Notifier\<close>, \<open>Changed\<close>, \<open>Events\<close>, \<open>Telemetry\<close>: \<open>_notify.py\<close>, \<open>changes()\<close>, \<open>changed()\<close>,
    \<open>_events.py\<close>, \<open>events()\<close>, \<open>_telemetry.py\<close> with \<open>telemetry.rs\<close>.
  \<^item> \<open>Values\<close>, \<open>Dataclasses\<close>, \<open>Pydantic\<close>, \<open>Msgspec\<close>, \<open>Diagnostics\<close>: \<open>_values.py\<close>, \<open>_dataclasses.py\<close>,
    \<open>_pydantic.py\<close>, \<open>_msgspec.py\<close>, \<open>_diagnostics.py\<close>.
  \<^item> \<open>Convert\<close>, \<open>Scrub\<close>, \<open>Closing\<close>: \<open>convert.rs\<close>, \<open>config/scrub.rs\<close>, \<open>gate.rs\<close>. \<open>Finalizing\<close>: \<open>Core\<close>'s loads with
    the gate asked at the validation and at the commit.
  \<^item> \<open>LogBridge\<close>: \<open>logbridge.rs\<close> and \<open>_logging.py\<close>, the engine's lines on their way to \<open>logging\<close>.
  \<^item> \<open>Remote\<close>: \<open>_remote.py\<close> and \<open>remote.rs\<close>. \<open>Wheel\<close>: the Python half of the eight stores.
    \<open>Compiled\<close>: \<open>redact.rs\<close>, \<open>errors.rs\<close>, \<open>format.rs\<close> and how Vault, Consul, etcd and Redis keep a client
    beside its credential. \<open>Slots\<close>: \<open>nats.rs\<close>, \<open>firestore.rs\<close>, \<open>s3.rs\<close> and \<open>git.rs\<close>. \<open>Tls\<close>: \<open>_tls.py\<close> and \<open>tls.rs\<close>.
    \<open>Runtime\<close>: \<open>runtime.rs\<close>, callers racing for the one runtime, and \<open>remote.py\<close>, the door to the wheel.
  \<^item> \<open>Testing\<close>: the two fixtures of \<open>pytest.py\<close>.
  \<^item> This theory, below: a configuration together with the pool or the event loop of one of its hooks.
  A class is a record, an exception the left side of a sum, a callback or a foreign class a function
  of the model. Names are the source's, with the class in front where two classes share one.

  \<^bold>\<open>What the groups of lemmas show.\<close> Each property of the development stands after a text that
  gives it a number. Publication: a successful reload publishes once, a refused one changes nothing,
  concurrent commits publish each staged pair once and in order, a group's atomic reload is all or
  nothing (proved for any two-phase interface, locale \<open>two_phase\<close>). Delivery: one call of a hook
  at a time and no lost newest value (locale \<open>single_flight\<close> and its two extensions, interpreted on
  the two policies of \<open>_Gate\<close>), no waiter sleeps through an install, every event told once, single
  shots never oversleep. Asking: a diagnostic disturbs nothing and answers what was declared, its
  answer crosses both dictionaries whole, a block restores the pins it found. Secrets: masked fields, scrubbed messages, redacted addresses and
  credentials. Data: configuration survives the boundary, integers keep their digits, every
  model anybody reads fits its declaration, a reload is the schema's validation of the document. Stores: a refresh delivers the store's document, a failed
  one changes nothing, a client follows its credential (locale \<open>credential_slot\<close>, interpreted on six
  stores), the two halves of the wheel share their words, a TLS configuration a store cannot express is
  refused, and racing stores share one runtime. End to end: a hook in the pool or on a loop ends with the model that is current. Lemmas that show
  the code doing something else than it says are in the theory of their component, at its end.

  \<^bold>\<open>Hypotheses.\<close> \<open>slot_ok\<close> (theory \<open>Remote\<close>) is what the engine promises of its remote slot, and
  \<open>tls_ok\<close> (theory \<open>Tls\<close>) what the store crates promise of their TLS configuration. The
  engine's resolving, its differ, the store clients, the schema libraries and the caller's hooks are
  functions without laws, save where a property names one.

  \<^bold>\<open>Bounds and termination.\<close> The walk of a model's secret paths carries a depth, shown to be enough
  for every model whose references are well founded; the readers of annotations terminate by the
  size of the annotation; the pool of \<open>_in_parallel\<close> and the closing gate have a measure of the work
  left, so a schedule that goes on ends; a reload without interference needs the eight steps its
  refinement gives it; the tasks of a group end within three steps per member; the log bridge's
  channels have the 1024 places of the code. Integers of the boundary are words of 64 bits;
  generations, sequence numbers and counters are natural numbers, for a counter of 64 bits cannot be
  used up by installs.

  \<^bold>\<open>Not modelled.\<close> The engine crate's file, environment and argument layers, its watcher and its
  snapshot diffs, which are functions of the model; the collector itself and weak references; re-entrant use of a configuration from its
  own schema; texts beyond the bytes the string operations look at; the registration of classes with the
  interpreter, type stubs, tests, examples, scripts and the book, which have no behaviour of the
  program of their own.
\<close>

section \<open>From an install to a hook in the pool\<close>

text \<open>
  A configuration and one of its hooks that was registered with \<open>dispatch="executor"\<close>: what
  \<open>Config\<close> logs as a call of the hook is what the engine hands to \<open>_Gate.submit\<close> on the
  installing thread. The hook is registered once, under one token, for every registration has a gate
  of its own. The configuration's steps and the starts and ends of the pool come in any order.
\<close>

record ('t, 'm) served =
  sv_config :: "('t, 'm) config"
  sv_dispatcher :: "(('m option \<times> 'm) gate, 'm option \<times> 'm) dispatcher"

definition calls_for :: "wrapped \<Rightarrow> 'm delivery list \<Rightarrow> ('m option \<times> 'm) list" where
  "calls_for h ds = map (\<lambda>d. (dl_old d, dl_new d)) (filter (\<lambda>d. dl_hook d = h) ds)"

definition leads_to :: "wrapped \<Rightarrow> pyhook \<Rightarrow> bool" where
  "leads_to h hook = (case hook of Publish \<Rightarrow> False | Hook w \<Rightarrow> w = h | Filtered paths w \<Rightarrow> w = h)"

definition sole :: "nat \<Rightarrow> pyhook \<Rightarrow> wrapped \<Rightarrow> ('t, 'm) config \<Rightarrow> bool" where
  "sole token hook h c \<longleftrightarrow> filter (\<lambda>(_, k). leads_to h k) (k_hooks (c_core c)) = [(token, hook)]"

definition submit_all ::
  "wrapped \<Rightarrow> ('t, 'm) config \<Rightarrow> ('t, 'm) config \<Rightarrow> (('m option \<times> 'm) gate, 'm option \<times> 'm) dispatcher \<Rightarrow>
   (('m option \<times> 'm) gate, 'm option \<times> 'm) dispatcher" where
  "submit_all h c c' d = fold (disp_submit gate_submit) (calls_for h (drop (length (c_log c)) (c_log c'))) d"

inductive served_step ::
  "('t, 'm) env \<Rightarrow> nat \<Rightarrow> pyhook \<Rightarrow> wrapped \<Rightarrow> ('t, 'm) served \<Rightarrow> ('t, 'm) served \<Rightarrow> bool"
  for env token hook h where
  sv_step: "config_step env (sv_config s) c' \<Longrightarrow> sole token hook h c' \<Longrightarrow> served_step env token hook h s
     (s\<lparr>sv_config := c', sv_dispatcher := submit_all h (sv_config s) c' (sv_dispatcher s)\<rparr>)"
| sv_starts: "x \<in> set (d_pending (sv_dispatcher s)) \<Longrightarrow>
     served_step env token hook h s (s\<lparr>sv_dispatcher := disp_start x (sv_dispatcher s)\<rparr>)"
| sv_ends: "x \<in> set (d_running (sv_dispatcher s)) \<Longrightarrow>
     served_step env token hook h s (s\<lparr>sv_dispatcher := disp_finish gate_finished x (sv_dispatcher s)\<rparr>)"

inductive served_reach ::
  "('t, 'm) env \<Rightarrow> nat \<Rightarrow> pyhook \<Rightarrow> wrapped \<Rightarrow> backpressure \<Rightarrow> ('t, 'm) config \<Rightarrow> ('t, 'm) served \<Rightarrow> bool"
  for env token hook h policy c0 where
  sv_registered: "config_reach env c0 \<Longrightarrow> sole token hook h c0 \<Longrightarrow> served_reach env token hook h policy c0
     \<lparr>sv_config = c0, sv_dispatcher = dispatcher_init (gate_init policy)\<rparr>"
| sv_next: "served_reach env token hook h policy c0 s \<Longrightarrow> served_step env token hook h s t \<Longrightarrow>
     served_reach env token hook h policy c0 t"

lemma calls_for_append [simp]: "calls_for h (ds @ es) = calls_for h ds @ calls_for h es"
  by (simp add: calls_for_def)

lemma submits_reach: "executor_reach policy d \<Longrightarrow> executor_reach policy (fold (disp_submit gate_submit) xs d)"
  by (induction xs arbitrary: d) (auto simp: executor_reach_def intro: reach_step step_submit)

lemma submits_submitted: "d_submitted (fold (disp_submit gate_submit) xs d) = d_submitted d @ xs"
  by (induction xs arbitrary: d) (simp_all add: disp_submit_def Let_def)

lemma served_inv:
  assumes "served_reach env token hook h policy c0 s"
  shows "config_reach env (sv_config s) \<and> sole token hook h (sv_config s) \<and> executor_reach policy (sv_dispatcher s) \<and>
    (\<exists>ds. c_log (sv_config s) = c_log c0 @ ds \<and> d_submitted (sv_dispatcher s) = calls_for h ds)"
  using assms
proof induction
  case sv_registered
  then show ?case by (simp add: executor_reach_def reach_here dispatcher_init_def calls_for_def)
next
  case (sv_next s t)
  from sv_next(2) show ?case
  proof cases
    case (sv_step c')
    have inv: "config_inv (sv_config s)" using sv_next.IH config_inv_reach by blast
    obtain new where "c_log c' = c_log (sv_config s) @ new"
      using log_grows_step [OF sv_step(2) inv] by (auto simp: log_grows_def)
    with sv_next.IH sv_step show ?thesis
      by (auto simp: submit_all_def submits_reach submits_submitted intro: config_next)
  next
    case (sv_starts x)
    with sv_next.IH show ?thesis
      by (auto simp: executor_reach_def disp_start_def intro: reach_step [OF _ step_start, unfolded disp_start_def])
  next
    case (sv_ends x)
    with sv_next.IH show ?thesis
      by (auto simp: executor_reach_def disp_finish_def Let_def
          intro: reach_step [OF _ step_finish, unfolded disp_finish_def Let_def])
  qed
qed

lemma heard_by_one: "filter (\<lambda>w. w = h) (heard env old new hooks) = filter (\<lambda>w. w = h) (heard env old new (filter (leads_to h) hooks))"
proof (induction hooks)
  case (Cons k hooks)
  then show ?case by (cases k) (auto simp: leads_to_def)
qed simp

lemma sole_hooks: "sole token hook h c \<Longrightarrow> filter (leads_to h) (map snd (k_hooks (c_core c))) = [hook]"
  by (simp add: sole_def filter_map comp_def split_def)

lemma sole_leads: "sole token hook h c \<Longrightarrow> leads_to h hook"
  using sole_hooks [of token hook h c] by (metis filter_eq_Cons_iff list.set_intros(1))

text \<open>What a reload tells the hook: the change, if its filter lets it through.\<close>

lemma reload_calls:
  assumes "config_inv c" "w_validate (e_world env) tree = Inr m" "config_reload env (Inr tree) c = (r, c')"
    "sole token hook h c"
  shows "r = Inr ()" "config_current c' = Inr m" "sole token hook h c'"
    "\<exists>ds. c_log c' = c_log c @ ds \<and> calls_for h ds =
       (if h \<in> set (heard env (c_cached c) m [hook]) then [(c_cached c, m)] else [])"
proof -
  let ?r = "load_then_install (e_world env) Op_reload (Inr tree) (c_core c)"
  let ?heard = "heard env (c_cached c) m (map snd (k_hooks (c_core c)))"
  have c': "r = Inr ()" "c' = c\<lparr>c_core := after ?r, c_cached := Some m,
      c_log := c_log c @ deliveries env (c_cached c) m ?heard\<rparr>"
    using config_reload_ok [OF assms(1,2)] assms(3) by simp_all
  have "core_inv (c_core c)" using assms(1) by (simp add: config_inv_def)
  from load_then_install_ok(6) [OF this assms(2), of Op_reload] assms(4) show "sole token hook h c'"
    by (simp add: sole_def c')
  show "r = Inr ()" "config_current c' = Inr m" by (simp_all add: c' config_current_def)
  have "filter (\<lambda>w. w = h) ?heard = filter (\<lambda>w. w = h) (heard env (c_cached c) m [hook])"
    by (subst heard_by_one) (simp add: sole_hooks [OF assms(4)])
  also have "\<dots> = (if h \<in> set (heard env (c_cached c) m [hook]) then [h] else [])"
    using sole_leads [OF assms(4)] by (cases hook) (auto simp: leads_to_def)
  finally have "calls_for h (deliveries env (c_cached c) m ?heard) =
      (if h \<in> set (heard env (c_cached c) m [hook]) then [(c_cached c, m)] else [])"
    by (auto simp: calls_for_def deliveries_def filter_map comp_def)
  then show "\<exists>ds. c_log c' = c_log c @ ds \<and> calls_for h ds =
      (if h \<in> set (heard env (c_cached c) m [hook]) then [(c_cached c, m)] else [])"
    by (auto simp: c')
qed

lemma reload_calls_the_hook:
  assumes "config_inv c" "w_validate (e_world env) tree = Inr m" "config_reload env (Inr tree) c = (r, c')"
    "sole token hook h c"
  shows "r = Inr ()" "config_current c' = Inr m" "sole token hook h c'"
    "submit_all h c c' d = fold (disp_submit gate_submit)
       (if h \<in> set (heard env (c_cached c) m [hook]) then [(c_cached c, m)] else []) d"
  using reload_calls [OF assms] by (auto simp: submit_all_def)



text \<open>A service that rebuilds its pool of connections in the pool of threads.\<close>

definition pool_hook :: "backpressure \<Rightarrow> wrapped" where
  "pool_hook policy = Run_executor (Function ''resize'' False) policy"

definition serving :: "backpressure \<Rightarrow> (nat, nat) config" where
  "serving policy = snd (config_on_reload False (Function ''resize'' False) (Some (dispatch_value Executor))
     (Some (backpressure_value policy)) sample_config)"

lemma serving_state:
  assumes "policy \<in> {Latest, Serial}"
  shows "sole 4 (Hook (pool_hook policy)) (pool_hook policy) (serving policy)"
    "c_cached (serving policy) = Some 6" "c_log (serving policy) = []"
  using assms
  by (auto simp: serving_def config_on_reload_def config_evals wrap_hook_def hook_target_def pool_hook_def sole_def leads_to_def)

lemma serving_reach: "config_reach sample_env (serving policy)"
  unfolding serving_def by (rule config_next [OF sample_config_reach cs_on_reload])

definition served_once :: "backpressure \<Rightarrow> (nat, nat) served" where
  "served_once policy =
     (let c' = snd (config_reload sample_env (Inr 7) (serving policy)) in
      \<lparr>sv_config = c', sv_dispatcher = submit_all (pool_hook policy) (serving policy) c' (dispatcher_init (gate_init policy))\<rparr>)"

lemma serving_start:
  "policy \<in> {Latest, Serial} \<Longrightarrow>
   served_reach sample_env 4 (Hook (pool_hook policy)) (pool_hook policy) policy (serving policy)
     \<lparr>sv_config = serving policy, sv_dispatcher = dispatcher_init (gate_init policy)\<rparr>"
  by (rule sv_registered [OF serving_reach serving_state(1)])

lemma sample_validates: "w_validate (e_world sample_env) 7 = Inr 8"
  by (simp add: sample_env_def sample_world_def)

lemma serving_calls:
  assumes "policy \<in> {Latest, Serial}"
  shows "submit_all (pool_hook policy) (serving policy) (snd (config_reload sample_env (Inr 7) (serving policy))) d =
    disp_submit gate_submit (Some 6, 8) d"
  using reload_calls_the_hook(4) [OF config_inv_reach [OF serving_reach] sample_validates surjective_pairing
      serving_state(1) [OF assms]] serving_state(2) [OF assms] by simp



section \<open>From an install to a task on an event loop\<close>

text \<open>
  The same with a hook that was registered on a loop: what \<open>Config\<close> logs as a call of the hook is what
  the engine hands to \<open>dispatch\<close> on the installing thread. Installs, turns of the loop and ends of
  tasks come in any order, and the loop may be closed.
\<close>

record ('t, 'm) looped =
  lp_config :: "('t, 'm) config"
  lp_loop :: "('m option \<times> 'm) aio"

definition dispatch_all ::
  "wrapped \<Rightarrow> ('t, 'm) config \<Rightarrow> ('t, 'm) config \<Rightarrow> ('m option \<times> 'm) aio \<Rightarrow> ('m option \<times> 'm) aio" where
  "dispatch_all h c c' a = fold aio_dispatch (calls_for h (drop (length (c_log c)) (c_log c'))) a"

inductive looped_reach ::
  "('t, 'm) env \<Rightarrow> nat \<Rightarrow> pyhook \<Rightarrow> wrapped \<Rightarrow> backpressure \<Rightarrow> ('t, 'm) config \<Rightarrow> ('t, 'm) looped \<Rightarrow> bool"
  for env token hook h policy c0 where
  lp_registered: "config_reach env c0 \<Longrightarrow> sole token hook h c0 \<Longrightarrow> h = Run_asyncio f policy \<Longrightarrow>
     looped_reach env token hook h policy c0 \<lparr>lp_config = c0, lp_loop = aio_init policy\<rparr>"
| lp_step: "looped_reach env token hook h policy c0 s \<Longrightarrow> config_step env (lp_config s) c' \<Longrightarrow>
     sole token hook h c' \<Longrightarrow> looped_reach env token hook h policy c0
     (s\<lparr>lp_config := c', lp_loop := dispatch_all h (lp_config s) c' (lp_loop s)\<rparr>)"
| lp_runs: "looped_reach env token hook h policy c0 s \<Longrightarrow> loop_drain n (lp_loop s) a \<Longrightarrow>
     looped_reach env token hook h policy c0 (s\<lparr>lp_loop := a\<rparr>)"
| lp_closes: "looped_reach env token hook h policy c0 s \<Longrightarrow>
     looped_reach env token hook h policy c0 (s\<lparr>lp_loop := aio_close (lp_loop s)\<rparr>)"

lemma dispatches_reach: "aio_reach policy a \<Longrightarrow> aio_reach policy (fold aio_dispatch xs a)"
  by (induction xs arbitrary: a) (auto intro: aio_next aio_dispatched)

lemma dispatches_open:
  "a_open (fold aio_dispatch xs a) = a_open a"
  "a_open a \<Longrightarrow> a_taken (fold aio_dispatch xs a) @ a_callbacks (fold aio_dispatch xs a) = a_taken a @ a_callbacks a @ xs"
  by (induction xs arbitrary: a) (simp_all add: aio_dispatch_def)

lemma looped_inv:
  assumes "looped_reach env token hook h policy c0 s"
  shows "config_reach env (lp_config s) \<and> sole token hook h (lp_config s) \<and> aio_reach policy (lp_loop s) \<and>
    (a_open (lp_loop s) \<longrightarrow> (\<exists>ds. c_log (lp_config s) = c_log c0 @ ds \<and>
       a_taken (lp_loop s) @ a_callbacks (lp_loop s) = calls_for h ds))"
  using assms
proof induction
  case lp_registered
  then show ?case by (simp add: aio_here aio_init_def [of policy] calls_for_def aio_here [unfolded aio_init_def])
next
  case (lp_step s c')
  have inv: "config_inv (lp_config s)" using lp_step.IH config_inv_reach by blast
  obtain new where "c_log c' = c_log (lp_config s) @ new"
    using log_grows_step [OF lp_step(2) inv] by (auto simp: log_grows_def)
  with lp_step show ?case
    by (auto simp: dispatch_all_def dispatches_reach dispatches_open intro: config_next)
next
  case (lp_runs s n a)
  have "a_open (lp_loop s)" if "a_open a"
    using loop_drain_open [OF lp_runs(2)] that by simp
  with lp_runs loop_drain_taken [OF lp_runs(2)] loop_drain_reach [OF lp_runs(2)] show ?case by auto
next
  case (lp_closes s)
  then show ?case by (auto simp: aio_close_def [of "lp_loop s"] intro: aio_next [OF _ aio_closed, unfolded aio_close_def])
qed


text \<open>A service that warms its cache in a coroutine.\<close>

definition warming :: "(nat, nat) config" where
  "warming = snd (config_on_reload_async True (Function ''warm'' True) (backpressure_value Latest) sample_config)"

abbreviation warm_hook :: wrapped where
  "warm_hook \<equiv> Run_asyncio (Function ''warm'' True) Latest"

lemma warming_state:
  "sole 4 (Hook warm_hook) warm_hook warming" "c_cached warming = Some 6"
  by (auto simp: warming_def config_on_reload_async_def config_on_reload_def config_evals wrap_hook_def
      asyncio_dispatcher_def hook_target_def sole_def leads_to_def)

lemma warming_reach: "config_reach sample_env warming"
  unfolding warming_def config_on_reload_async_def by (rule config_next [OF sample_config_reach cs_on_reload])

lemma warming_calls:
  "dispatch_all warm_hook warming (snd (config_reload sample_env (Inr 7) warming)) a = aio_dispatch (Some 6, 8) a"
proof -
  from reload_calls(4) [OF config_inv_reach [OF warming_reach] sample_validates surjective_pairing warming_state(1)]
  show ?thesis by (auto simp: dispatch_all_def warming_state)
qed


end
